(* ===== verification/Prelude.thy ===== *)
theory Prelude
  imports Main "HOL-Library.Word" "HOL-Library.List_Lexorder" "HOL-Library.Product_Lexorder"
begin

text \<open>
  Shared vocabulary of the development: Go's machine types, byte slices and their
  operations (slicing with bounds checks, \<^verbatim>\<open>bytes.Compare\<close>, \<^verbatim>\<open>bytes.Index\<close>,
  \<^verbatim>\<open>encoding/binary\<close>'s big-endian codecs), the outcome of a Go call that can return
  an error or panic, and the list lemmas the components share.
  Slices are lists; a slice expression is in range when its bounds are within the
  length, that is, slices are modelled with capacity equal to their length.
\<close>

section \<open>Collections of facts\<close>

named_theorems region_heap_defs "the operations on the store of regions and its channels"
named_theorems option_defs "the options of calls"

section \<open>Machine types and outcomes\<close>

type_synonym byte = "8 word"
type_synonym bytes = "8 word list"
type_synonym u16 = "16 word"
type_synonym u32 = "32 word"
type_synonym u64 = "64 word"

text \<open>
  A Go call either returns a value, returns an error, or panics (or ends the process by
  \<^verbatim>\<open>log.Fatal\<close>). The panic carries its cause.
\<close>

datatype panic =
    IndexOutOfRange
  | NilDereference
  | CloseOfNilChannel
  | CloseOfClosedChannel
  | Explicit string
  | Fatal string

datatype ('e, 'a) outcome = Ok 'a | Err 'e | Panic panic

fun and_then :: "('e, 'a) outcome \<Rightarrow> ('a \<Rightarrow> ('e, 'b) outcome) \<Rightarrow> ('e, 'b) outcome" where
  "and_then (Ok x) f = f x"
| "and_then (Err e) f = Err e"
| "and_then (Panic p) f = Panic p"

lemma and_then_eq_Ok [simp]:
  "and_then m f = Ok y \<longleftrightarrow> (\<exists>x. m = Ok x \<and> f x = Ok y)"
  by (cases m) auto

lemma and_then_eq_Err [simp]:
  "and_then m f = Err e \<longleftrightarrow> m = Err e \<or> (\<exists>x. m = Ok x \<and> f x = Err e)"
  by (cases m) auto

lemma and_then_eq_Panic [simp]:
  "and_then m f = Panic p \<longleftrightarrow> m = Panic p \<or> (\<exists>x. m = Ok x \<and> f x = Panic p)"
  by (cases m) auto

lemma and_then_cong [fundef_cong]:
  "m = m' \<Longrightarrow> (\<And>x. m' = Ok x \<Longrightarrow> f x = g x) \<Longrightarrow> and_then m f = and_then m' g"
  by (cases m') auto

text \<open>Elimination of a successful call, statement by statement.\<close>

lemma and_then_OkE:
  assumes "and_then m f = Ok y"
  obtains x where "m = Ok x" "f x = Ok y"
  using assms by auto

lemma and_then_prod_OkE:
  assumes "and_then m (\<lambda>(a, b). f a b) = Ok y"
  obtains a b where "m = Ok (a, b)" "f a b = Ok y"
  using assms by auto

lemma if_Err_OkE:
  assumes "(if c then Err e else m) = Ok y"
  obtains "\<not> c" "m = Ok y"
  using assms by (auto split: if_splits)

lemma if_Panic_OkE:
  assumes "(if c then Panic p else m) = Ok y"
  obtains "\<not> c" "m = Ok y"
  using assms by (auto split: if_splits)

lemmas ok_elims = and_then_prod_OkE and_then_OkE if_Err_OkE if_Panic_OkE

abbreviation char_byte :: "char \<Rightarrow> byte" where
  "char_byte c \<equiv> of_char c"

lemma unat_char_byte: "unat (char_byte c) = of_char c"
proof -
  have "unat (of_nat (of_char c) :: byte) = of_char c mod 2 ^ 8" by (simp add: unat_of_nat)
  then show ?thesis using nat_of_char_less_256 [of c] by (simp add: of_nat_of_char)
qed

lemma char_byte_inject: "char_byte c = char_byte d \<longleftrightarrow> c = d"
  by (metis unat_char_byte of_char_eq_iff)

definition str :: "string \<Rightarrow> bytes" where
  "str s = map of_char s"

abbreviation comma :: byte where "comma \<equiv> 44"
abbreviation colon :: byte where "colon \<equiv> 58"

section \<open>Slices\<close>

text \<open>The slice expressions \<^verbatim>\<open>b[lo:hi]\<close> and \<^verbatim>\<open>b[lo:]\<close>, and the index \<^verbatim>\<open>b[i]\<close>.\<close>

definition slice :: "'a list \<Rightarrow> nat \<Rightarrow> nat \<Rightarrow> ('e, 'a list) outcome" where
  "slice b lo hi =
     (if lo \<le> hi \<and> hi \<le> length b then Ok (take (hi - lo) (drop lo b)) else Panic IndexOutOfRange)"

definition slice_from :: "'a list \<Rightarrow> nat \<Rightarrow> ('e, 'a list) outcome" where
  "slice_from b lo = (if lo \<le> length b then Ok (drop lo b) else Panic IndexOutOfRange)"

definition index :: "'a list \<Rightarrow> nat \<Rightarrow> ('e, 'a) outcome" where
  "index b i = (if i < length b then Ok (b ! i) else Panic IndexOutOfRange)"

lemma slice_append [simp]:
  "slice (xs @ ys) 0 (length xs) = Ok xs"
  by (simp add: slice_def)

lemma slice_from_append [simp]:
  "slice_from (xs @ ys) (length xs) = Ok ys"
  by (simp add: slice_from_def)

lemma slice_appendI: "length xs = n \<Longrightarrow> slice (xs @ ys) 0 n = Ok xs"
  by auto

lemma slice_from_appendI: "length xs = n \<Longrightarrow> slice_from (xs @ ys) n = Ok ys"
  by auto

text \<open>The pair of statements \<^verbatim>\<open>x := b[:n]\<close>, \<^verbatim>\<open>b = b[n:]\<close>, which reads \<open>n\<close> bytes off a slice.\<close>

definition split_at :: "nat \<Rightarrow> 'a list \<Rightarrow> ('e, 'a list \<times> 'a list) outcome" where
  "split_at n b = (if n \<le> length b then Ok (take n b, drop n b) else Panic IndexOutOfRange)"

lemma split_at_eq_Ok: "split_at n b = Ok (x, y) \<longleftrightarrow> b = x @ y \<and> length x = n"
  by (auto simp: split_at_def)

lemma split_at_append [simp]: "split_at (length x) (x @ y) = Ok (x, y)"
  by (simp add: split_at_eq_Ok)

lemma split_at_appendI: "length x = n \<Longrightarrow> split_at n (x @ y) = Ok (x, y)"
  by (simp add: split_at_eq_Ok)

lemma index_Cons_0 [simp]: "index (x # xs) 0 = Ok x"
  by (simp add: index_def)

lemma slice_from_Cons_1 [simp]: "slice_from (x # xs) 1 = Ok xs"
  by (simp add: slice_from_def)

section \<open>bytes.Compare and the order of byte slices\<close>

fun bytes_compare :: "bytes \<Rightarrow> bytes \<Rightarrow> int" where
  "bytes_compare [] [] = 0"
| "bytes_compare [] (b # bs) = -1"
| "bytes_compare (a # as) [] = 1"
| "bytes_compare (a # as) (b # bs) =
     (if a < b then -1 else if b < a then 1 else bytes_compare as bs)"

lemma bytes_compare_less [simp]: "bytes_compare a b < 0 \<longleftrightarrow> a < b"
  by (induction a b rule: bytes_compare.induct) auto

lemma bytes_compare_greater [simp]: "0 < bytes_compare a b \<longleftrightarrow> b < a"
  by (induction a b rule: bytes_compare.induct) auto

lemma bytes_compare_le [simp]: "bytes_compare a b \<le> 0 \<longleftrightarrow> a \<le> b"
  by (metis bytes_compare_greater linorder_not_le)

lemma bytes_compare_ge [simp]: "0 \<le> bytes_compare a b \<longleftrightarrow> b \<le> a"
  by (metis bytes_compare_less linorder_not_le)

text \<open>The order is decided by the first position at which two slices differ.\<close>

lemma less_first_diff:
  fixes xs ys :: "'a::linorder list"
  assumes "j < length xs" "j < length ys" "take j xs = take j ys" "xs ! j \<noteq> ys ! j"
  shows "xs < ys \<longleftrightarrow> xs ! j < ys ! j"
  using assms
proof (induction j arbitrary: xs ys)
  case 0
  then show ?case by (cases xs; cases ys) auto
next
  case (Suc j)
  then show ?case by (cases xs; cases ys) auto
qed

lemma less_proper_prefix:
  fixes xs ys :: "'a::linorder list"
  assumes "length xs < length ys" "take (length xs) ys = xs"
  shows "xs < ys"
  using assms
proof (induction xs arbitrary: ys)
  case Nil
  then show ?case by (cases ys) auto
next
  case (Cons x xs)
  then show ?case by (cases ys) auto
qed

text \<open>
  Two slices are equal, differ at a first position, or one is a proper prefix of the other.
\<close>

definition diff_at :: "'a list \<Rightarrow> 'a list \<Rightarrow> nat \<Rightarrow> bool" where
  "diff_at xs ys j \<longleftrightarrow>
     j < length xs \<and> j < length ys \<and> take j xs = take j ys \<and> xs ! j \<noteq> ys ! j"

lemma diff_at_less:
  fixes xs ys :: "'a::linorder list"
  assumes "diff_at xs ys j"
  shows "xs < ys \<longleftrightarrow> xs ! j < ys ! j" "ys < xs \<longleftrightarrow> ys ! j < xs ! j" "xs \<noteq> ys"
  using assms less_first_diff [of j xs ys] less_first_diff [of j ys xs]
  by (auto simp: diff_at_def)

lemma diff_at_nth: "diff_at xs ys j \<Longrightarrow> l < j \<Longrightarrow> xs ! l = ys ! l"
  unfolding diff_at_def by (metis nth_take)

lemma list_compare_cases:
  obtains (eq) "xs = ys"
  | (diff) j where "diff_at xs ys j"
  | (prefix) "length xs < length ys" "take (length xs) ys = xs"
  | (extends) "length ys < length xs" "take (length ys) xs = ys"
proof -
  have "xs = ys \<or> (\<exists>j. diff_at xs ys j) \<or> (length xs < length ys \<and> take (length xs) ys = xs)
    \<or> (length ys < length xs \<and> take (length ys) xs = ys)"
  proof (induction xs arbitrary: ys)
    case Nil
    then show ?case by (cases ys) auto
  next
    case (Cons x xs)
    show ?case
    proof (cases ys)
      case Nil
      then show ?thesis by simp
    next
      case (Cons y ys')
      have "diff_at (x # xs) (y # ys') (if x = y then Suc j else 0)"
        if "diff_at xs ys' j \<or> x \<noteq> y" for j
        using that by (auto simp: diff_at_def)
      with Cons.IH [of ys'] Cons show ?thesis by (cases "x = y") auto
    qed
  qed
  then show ?thesis using that by blast
qed

lemma prefix_not_less:
  fixes xs ys :: "'a::linorder list"
  shows "\<not> xs @ ys < xs"
  by (induction xs) auto

section \<open>Big-endian integers\<close>

text \<open>\<^verbatim>\<open>binary.BigEndian.PutUintN\<close> and \<^verbatim>\<open>UintN\<close>, for any number of bytes.\<close>

fun be_put :: "nat \<Rightarrow> nat \<Rightarrow> bytes" where
  "be_put 0 v = []"
| "be_put (Suc n) v = word_of_nat (v div 256 ^ n) # be_put n v"

definition be_get :: "bytes \<Rightarrow> nat" where
  "be_get b = foldl (\<lambda>a x. a * 256 + unat x) 0 b"

lemma unat_less: "unat (x :: 'a::len word) < 2 ^ LENGTH('a)"
  by (rule unsigned_less)

lemma unat_add_no_wrap:
  "unat (x :: 'a::len word) + unat y < 2 ^ LENGTH('a) \<Longrightarrow> unat (x + y) = unat x + unat y"
  by (simp add: unat_word_ariths take_bit_eq_mod)

lemma length_be_put [simp]: "length (be_put n v) = n"
  by (induction n) auto

lemma be_get_foldl: "foldl (\<lambda>a x. a * 256 + unat x) c b = c * 256 ^ length b + be_get b"
proof (induction b arbitrary: c)
  case Nil
  then show ?case by (simp add: be_get_def)
next
  case (Cons x b)
  have "be_get (x # b) = unat x * 256 ^ length b + be_get b"
    using Cons [of "unat x"] by (simp add: be_get_def)
  with Cons [of "c * 256 + unat x"] show ?case by (simp add: algebra_simps)
qed

lemma be_get_Nil [simp]: "be_get [] = 0"
  by (simp add: be_get_def)

lemma be_get_Cons [simp]: "be_get (x # b) = unat x * 256 ^ length b + be_get b"
  using be_get_foldl [of "unat x" b] by (simp add: be_get_def)

lemma be_get_bound: "be_get b < 256 ^ length b"
proof (induction b)
  case Nil
  then show ?case by simp
next
  case (Cons x b)
  have "unat x < 256"
    using unat_less [of x] by simp
  then have "unat x \<le> 255" by simp
  then have "unat x * 256 ^ length b \<le> 255 * 256 ^ length b"
    by (rule mult_right_mono) simp
  with Cons have "unat x * 256 ^ length b + be_get b < 255 * 256 ^ length b + 256 ^ length b"
    by linarith
  then show ?case by simp
qed

lemma be_get_put: "be_get (be_put n v) = v mod 256 ^ n"
proof (induction n)
  case 0
  then show ?case by simp
next
  case (Suc n)
  have "v mod 256 ^ Suc n = (v div 256 ^ n mod 256) * 256 ^ n + v mod 256 ^ n"
    by (metis mod_mult2_eq mult.commute power_Suc2)
  then show ?case using Suc by (simp add: unsigned_of_nat take_bit_eq_mod)
qed

lemma be_put_mod: "be_put n (k * 256 ^ n + v) = be_put n v"
proof -
  have "be_put n (k * 256 ^ (n + m) + v) = be_put n v" for m
  proof (induction n arbitrary: m)
    case (Suc n)
    have "k * 256 ^ (Suc n + m) + v = v + 256 ^ n * (k * 256 ^ m * 256)"
      by (simp add: power_add algebra_simps)
    then have "(k * 256 ^ (Suc n + m) + v) div 256 ^ n = k * 256 ^ m * 256 + v div 256 ^ n"
      by (simp only: div_mult_self2 power_not_zero) simp
    moreover have "(word_of_nat (a * 256 + b) :: byte) = word_of_nat b" for a b
      by (simp only: word_of_nat_eq_iff take_bit_eq_mod) simp
    ultimately have "word_of_nat ((k * 256 ^ (Suc n + m) + v) div 256 ^ n) = (word_of_nat (v div 256 ^ n) :: byte)"
      by metis
    with Suc [of "Suc m"] show ?case by simp
  qed simp
  from this [of 0] show ?thesis by simp
qed

lemma be_put_get: "be_put (length b) (be_get b) = b"
proof (induction b)
  case (Cons x b)
  have "(unat x * 256 ^ length b + be_get b) div 256 ^ length b = unat x"
    using be_get_bound [of b] by simp
  with Cons show ?case by (simp add: be_put_mod)
qed simp

text \<open>The fixed widths the code uses.\<close>

definition put_uint16 :: "u16 \<Rightarrow> bytes" where "put_uint16 x = be_put 2 (unat x)"
definition put_uint32 :: "u32 \<Rightarrow> bytes" where "put_uint32 x = be_put 4 (unat x)"
definition put_uint64 :: "u64 \<Rightarrow> bytes" where "put_uint64 x = be_put 8 (unat x)"

text \<open>Reading panics when the slice is shorter than the integer.\<close>

definition uint16 :: "bytes \<Rightarrow> ('e, u16) outcome" where
  "uint16 b = (if length b < 2 then Panic IndexOutOfRange else Ok (word_of_nat (be_get (take 2 b))))"

definition uint32 :: "bytes \<Rightarrow> ('e, u32) outcome" where
  "uint32 b = (if length b < 4 then Panic IndexOutOfRange else Ok (word_of_nat (be_get (take 4 b))))"

definition uint64 :: "bytes \<Rightarrow> ('e, u64) outcome" where
  "uint64 b = (if length b < 8 then Panic IndexOutOfRange else Ok (word_of_nat (be_get (take 8 b))))"

lemma length_put_uint [simp]:
  "length (put_uint16 x) = 2" "length (put_uint32 y) = 4" "length (put_uint64 z) = 8"
  by (simp_all add: put_uint16_def put_uint32_def put_uint64_def)

lemma uint16_put [simp]: "uint16 (put_uint16 x @ r) = Ok x"
  using unat_less [of x] by (simp add: uint16_def put_uint16_def be_get_put)

lemma uint32_put [simp]: "uint32 (put_uint32 x @ r) = Ok x"
  using unat_less [of x] by (simp add: uint32_def put_uint32_def be_get_put)

lemma uint64_put [simp]: "uint64 (put_uint64 x @ r) = Ok x"
  using unat_less [of x] by (simp add: uint64_def put_uint64_def be_get_put)

text \<open>What was read is what \<^verbatim>\<open>PutUintN\<close> writes.\<close>

lemma put_uint16_get: "length b = 2 \<Longrightarrow> uint16 b = Ok x \<longleftrightarrow> b = put_uint16 x"
  using be_get_bound [of b] be_put_get [of b] unat_less [of x]
  by (auto simp: uint16_def put_uint16_def unsigned_of_nat take_bit_eq_mod be_get_put)

lemma put_uint32_get: "length b = 4 \<Longrightarrow> uint32 b = Ok x \<longleftrightarrow> b = put_uint32 x"
  using be_get_bound [of b] be_put_get [of b] unat_less [of x]
  by (auto simp: uint32_def put_uint32_def unsigned_of_nat take_bit_eq_mod be_get_put)

lemma put_uint64_get: "length b = 8 \<Longrightarrow> uint64 b = Ok x \<longleftrightarrow> b = put_uint64 x"
  using be_get_bound [of b] be_put_get [of b] unat_less [of x]
  by (auto simp: uint64_def put_uint64_def unsigned_of_nat take_bit_eq_mod be_get_put)

lemma uint16_put_Nil [simp]: "uint16 (put_uint16 x) = Ok x"
  using uint16_put [of x "[]"] by simp

lemma uint32_put_Nil [simp]: "uint32 (put_uint32 x) = Ok x"
  using uint32_put [of x "[]"] by simp

lemma uint64_put_Nil [simp]: "uint64 (put_uint64 x) = Ok x"
  using uint64_put [of x "[]"] by simp

section \<open>State machines\<close>

text \<open>
  The components with several goroutines are step relations. What a single step keeps, every
  run keeps; each component gives its steps and what they keep.
\<close>

locale step_invariant =
  fixes step :: "'s \<Rightarrow> 's \<Rightarrow> bool" and inv :: "'s \<Rightarrow> bool"
  assumes step_inv: "step s s' \<Longrightarrow> inv s \<Longrightarrow> inv s'"
begin

lemma run_inv: "step\<^sup>*\<^sup>* s s' \<Longrightarrow> inv s \<Longrightarrow> inv s'"
  by (induction rule: rtranclp_induct) (blast intro: step_inv)+

end

end
