(* ===== verification/Compressor.thy ===== *)
theory Compressor
  imports Prelude
begin

text \<open>
  Compression of cell blocks: the chunked block stream of \<^verbatim>\<open>src/region/compressor.go\<close>, the
  codec interface of \<^verbatim>\<open>src/compression/codec.go\<close> and the snappy codec of
  \<^verbatim>\<open>src/compression/snappy/snappy.go\<close>. The snappy library is not part of the repository: its
  two functions are parameters of the codec.
\<close>

section \<open>Codecs\<close>

record codec_ops =
  Encode :: "bytes \<Rightarrow> bytes \<Rightarrow> bytes \<times> u32"
  Decode :: "bytes \<Rightarrow> bytes \<Rightarrow> (string, bytes \<times> u32) outcome"
  ChunkLen :: u32
  CellBlockCompressorClass :: string

definition snappyChunkLen :: u32 where "snappyChunkLen = 256 * 1024 * 5 div 6 - 32"

definition snappy_Encode :: "(bytes \<Rightarrow> bytes) \<Rightarrow> bytes \<Rightarrow> bytes \<Rightarrow> bytes \<times> u32" where
  "snappy_Encode encode src dst = (let chunk = encode src in (dst @ chunk, word_of_nat (length chunk)))"

definition snappy_Decode ::
  "(bytes \<Rightarrow> string + bytes) \<Rightarrow> bytes \<Rightarrow> bytes \<Rightarrow> (string, bytes \<times> u32) outcome" where
  "snappy_Decode decode src dst =
     (case decode src of
        Inl err \<Rightarrow> Err err
      | Inr chunk \<Rightarrow> Ok (dst @ chunk, word_of_nat (length chunk)))"

definition snappyCodec :: "(bytes \<Rightarrow> bytes) \<Rightarrow> (bytes \<Rightarrow> string + bytes) \<Rightarrow> codec_ops" where
  "snappyCodec encode decode = \<lparr>Encode = snappy_Encode encode, Decode = snappy_Decode decode,
     ChunkLen = snappyChunkLen, CellBlockCompressorClass = ''org.apache.hadoop.io.compress.SnappyCodec''\<rparr>"

definition compression_New ::
  "(bytes \<Rightarrow> bytes) \<Rightarrow> (bytes \<Rightarrow> string + bytes) \<Rightarrow> string \<Rightarrow> ('e, codec_ops) outcome" where
  "compression_New encode decode codec =
     (if codec = ''snappy'' then Ok (snappyCodec encode decode)
      else Panic (Explicit ''uknown compression codec''))"

section \<open>Buffers\<close>

text \<open>
  \<^verbatim>\<open>net.Buffers\<close> of the standard library: \<^verbatim>\<open>consume\<close> drops bytes from the front, and with them
  every buffer it empties; \<^verbatim>\<open>Read\<close> fills a slice of \<open>n\<close> bytes as far as there is data and
  reports the end when no buffer is left.
\<close>

fun consume :: "nat \<Rightarrow> bytes list \<Rightarrow> bytes list" where
  "consume n [] = []"
| "consume n (b # bs) = (if length b > n then drop n b # bs else consume (n - length b) bs)"

lemma length_concat_consume: "length (concat (consume n bs)) \<le> length (concat bs)"
  by (induction n bs rule: consume.induct) auto

lemma length_consume: "length (consume n bs) \<le> length bs"
  by (induction n bs rule: consume.induct) auto

function buffers_Read :: "nat \<Rightarrow> bytes list \<Rightarrow> bytes \<Rightarrow> bytes \<times> bytes list" where
  "buffers_Read n bs acc =
     (if n > 0 \<and> bs \<noteq> [] then
        (let n0 = min n (length (hd bs)) in buffers_Read (n - n0) (consume n0 bs) (acc @ take n0 (hd bs)))
      else (acc, bs))"
  by pat_completeness auto
termination
proof (relation "measures [\<lambda>(n, bs, acc). n, \<lambda>(n, bs, acc). length bs]")
  fix n and bs :: "bytes list" and acc n0 assume *: "n > 0 \<and> bs \<noteq> []" "n0 = min n (length (hd bs))"
  then obtain b bs' where "bs = b # bs'" by (cases bs) auto
  with * show "((n - n0, consume n0 bs, acc @ take n0 (hd bs)), n, bs, acc) \<in>
    measures [\<lambda>(n, bs, acc). n, \<lambda>(n, bs, acc). length bs]"
    using length_consume [of 0 bs'] by (cases b) auto
qed simp

declare buffers_Read.simps [simp del]

section \<open>Compressing\<close>

text \<open>
  The contents of a grown buffer are overwritten before they are read; here they are zeros. The
  theory Buffers has slices with their capacity and what an earlier use left in them, and shows
  that the result is the same.
\<close>

definition go_min :: "u32 \<Rightarrow> u32 \<Rightarrow> nat" where
  "go_min x y = (if x < y then unat x else unat y)"

definition growBuffer :: "bytes \<Rightarrow> nat \<Rightarrow> bytes" where
  "growBuffer b sz = b @ replicate sz 0"

definition put_uint32_at :: "nat \<Rightarrow> u32 \<Rightarrow> bytes \<Rightarrow> bytes" where
  "put_uint32_at off v b = take off b @ put_uint32 v @ drop (off + 4) b"

lemma consume_concat: "concat (consume n bs) = drop n (concat bs)"
  by (induction n bs rule: consume.induct) auto

lemma buffers_Read_spec:
  "buffers_Read n bs acc = (acc', bs') \<Longrightarrow>
    acc' = acc @ take n (concat bs) \<and> concat bs' = drop n (concat bs)"
proof (induction n bs acc rule: buffers_Read.induct)
  case (1 n bs acc)
  show ?case
  proof (cases "n > 0 \<and> bs \<noteq> []")
    case True
    then obtain b bs1 where bs: "bs = b # bs1" by (cases bs) auto
    let ?n0 = "min n (length b)"
    have "buffers_Read (n - ?n0) (consume ?n0 bs) (acc @ take ?n0 b) = (acc', bs')"
      using 1(2) True bs by (subst (asm) buffers_Read.simps) (simp add: Let_def)
    with 1(1) [OF True refl] bs have IH:
      "acc' = (acc @ take ?n0 b) @ take (n - ?n0) (concat (consume ?n0 bs)) \<and>
       concat bs' = drop (n - ?n0) (concat (consume ?n0 bs))" by simp
    have "take n (concat bs) = take ?n0 b @ take (n - ?n0) (drop ?n0 (concat bs))"
      unfolding bs by (simp add: min_def)
    moreover have "drop n (concat bs) = drop (n - ?n0) (drop ?n0 (concat bs))"
      by (simp add: min_def)
    ultimately show ?thesis using IH by (simp add: consume_concat)
  next
    case False
    with 1(2) show ?thesis by (subst (asm) buffers_Read.simps) auto
  qed
qed

lemma buffers_Read_concat:
  "fst (buffers_Read n bs []) = take n (concat bs)" "concat (snd (buffers_Read n bs [])) = drop n (concat bs)"
  using buffers_Read_spec [of n bs "[]"] by (cases "buffers_Read n bs []"; auto)+

function compress_loop :: "codec_ops \<Rightarrow> nat \<Rightarrow> bytes list \<Rightarrow> bytes \<Rightarrow> bytes" where
  "compress_loop C sz cbs b =
     (case buffers_Read sz cbs [] of (src, cbs') \<Rightarrow>
        if length src = 0 then b
        else
          let lenOffset = length b;
              b1 = growBuffer b 4;
              (b2, chunkLen) = Encode C src b1;
              b3 = put_uint32_at lenOffset chunkLen b2
          in if cbs' = [] then b3 else compress_loop C sz cbs' b3)"
  by pat_completeness auto
termination
proof (relation "measure (\<lambda>(C, sz, cbs, b). length (concat cbs))", goal_cases)
  case (2 C sz cbs b src cbs')
  then have "src = take sz (concat cbs)" "concat cbs' = drop sz (concat cbs)"
    using buffers_Read_concat [of sz cbs] by (metis fst_conv, metis snd_conv)
  with 2 show ?case by auto
qed simp

declare compress_loop.simps [simp del]

definition compressCellblocks :: "codec_ops \<Rightarrow> bytes list \<Rightarrow> u32 \<Rightarrow> bytes" where
  "compressCellblocks C cbs uncompressedLen =
     compress_loop C (go_min uncompressedLen (ChunkLen C)) cbs (put_uint32 uncompressedLen)"

section \<open>Decompressing\<close>

datatype read_error = ShortRead nat nat

datatype decompress_error =
    BlockLength read_error
  | ChunkLength read_error
  | ChunkBytes read_error
  | ChunkDecode string
  | UncompressedTooMuch u32 u32

definition readN :: "bytes \<Rightarrow> nat \<Rightarrow> (read_error, bytes \<times> bytes) outcome" where
  "readN b n = (if length b < n then Err (ShortRead n (length b)) else Ok (take n b, drop n b))"

definition readUint32 :: "bytes \<Rightarrow> (read_error, u32 \<times> bytes) outcome" where
  "readUint32 b =
     and_then (readN b 4) (\<lambda>(head, tail). and_then (uint32 head) (\<lambda>v. Ok (v, tail)))"

text \<open>\<^verbatim>\<open>fmt.Errorf\<close> with a wrapped error.\<close>

fun wrap_err :: "('e \<Rightarrow> 'f) \<Rightarrow> ('e, 'a) outcome \<Rightarrow> ('f, 'a) outcome" where
  "wrap_err f (Ok x) = Ok x"
| "wrap_err f (Err e) = Err (f e)"
| "wrap_err f (Panic p) = Panic p"

lemma wrap_err_eq_Ok [simp]: "wrap_err f m = Ok x \<longleftrightarrow> m = Ok x"
  by (cases m) auto

lemma readN_Ok: "readN b n = Ok (x, y) \<longleftrightarrow> b = x @ y \<and> length x = n"
  by (auto simp: readN_def)

lemma readUint32_Ok: "readUint32 b = Ok (v, y) \<longleftrightarrow> b = put_uint32 v @ y"
  by (auto simp: readUint32_def readN_Ok put_uint32_get)

text \<open>The loop over the chunks of a block and the loop over the blocks.\<close>

function decompress_chunks ::
  "codec_ops \<Rightarrow> u32 \<Rightarrow> u32 \<Rightarrow> bytes \<Rightarrow> bytes \<Rightarrow> (decompress_error, bytes \<times> bytes \<times> u32) outcome" where
  "decompress_chunks C blockLen soFar b out =
     (if soFar < blockLen then
        and_then (wrap_err ChunkLength (readUint32 b)) (\<lambda>(chunkLen, b1).
        and_then (wrap_err ChunkBytes (readN b1 (unat chunkLen))) (\<lambda>(chunk, b2).
        and_then (wrap_err ChunkDecode (Decode C chunk out)) (\<lambda>(out', n).
          decompress_chunks C blockLen (soFar + n) b2 out')))
      else Ok (b, out, soFar))"
  by pat_completeness auto
termination
  by (relation "measure (\<lambda>(C, blockLen, soFar, b, out). length b)") (auto simp: readUint32_Ok readN_Ok)

declare decompress_chunks.simps [simp del]

lemma decompress_chunks_done:
  "\<not> soFar < blockLen \<Longrightarrow> decompress_chunks C blockLen soFar b out = Ok (b, out, soFar)"
  by (simp add: decompress_chunks.simps)

lemma decompress_chunks_shorter:
  "decompress_chunks C blockLen soFar b out = Ok (b', out', s') \<Longrightarrow> length b' \<le> length b"
proof (induction C blockLen soFar b out rule: decompress_chunks.induct)
  case (1 C blockLen soFar b out)
  show ?case
  proof (cases "soFar < blockLen")
    case True
    with 1(2) obtain k b1 chunk b2 out1 n where
      "readUint32 b = Ok (k, b1)" "readN b1 (unat k) = Ok (chunk, b2)" "Decode C chunk out = Ok (out1, n)"
      "decompress_chunks C blockLen (soFar + n) b2 out1 = Ok (b', out', s')"
      by (subst (asm) decompress_chunks.simps) auto
    with 1(1) [OF True] show ?thesis by (fastforce simp: readUint32_Ok readN_Ok)
  next
    case False
    with 1(2) show ?thesis by (subst (asm) decompress_chunks.simps) simp
  qed
qed

text \<open>Bytes after the chunks of a block are left alone.\<close>

lemma decompress_chunks_append:
  "decompress_chunks C blockLen soFar b out = Ok (b', out', s') \<Longrightarrow>
    decompress_chunks C blockLen soFar (b @ r) out = Ok (b' @ r, out', s')"
proof (induction C blockLen soFar b out rule: decompress_chunks.induct)
  case (1 C blockLen soFar b out)
  show ?case
  proof (cases "soFar < blockLen")
    case True
    with 1(2) obtain k b1 chunk b2 out1 n where
      step: "readUint32 b = Ok (k, b1)" "readN b1 (unat k) = Ok (chunk, b2)" "Decode C chunk out = Ok (out1, n)"
      and rec: "decompress_chunks C blockLen (soFar + n) b2 out1 = Ok (b', out', s')"
      by (subst (asm) decompress_chunks.simps) auto
    have "readUint32 (b @ r) = Ok (k, b1 @ r)" "readN (b1 @ r) (unat k) = Ok (chunk, b2 @ r)"
      using step(1,2) by (auto simp: readUint32_Ok readN_Ok)
    moreover have "decompress_chunks C blockLen (soFar + n) (b2 @ r) out1 = Ok (b' @ r, out', s')"
      using 1(1) [OF True] step rec by simp
    ultimately show ?thesis using True step(3) by (subst decompress_chunks.simps) simp
  next
    case False
    with 1(2) show ?thesis by (simp add: decompress_chunks.simps)
  qed
qed

function decompress_blocks :: "codec_ops \<Rightarrow> bytes \<Rightarrow> bytes \<Rightarrow> (decompress_error, bytes) outcome" where
  "decompress_blocks C b out =
     (if length b > 0 then
        and_then (wrap_err BlockLength (readUint32 b)) (\<lambda>(blockLen, b1).
        and_then (decompress_chunks C blockLen 0 b1 out) (\<lambda>(b2, out', soFar).
          if soFar > blockLen then Err (UncompressedTooMuch blockLen soFar)
          else decompress_blocks C b2 out'))
      else Ok out)"
  by pat_completeness auto
termination
  by (relation "measure (\<lambda>(C, b, out). length b)") (auto simp: readUint32_Ok dest: decompress_chunks_shorter)

declare decompress_blocks.simps [simp del]

definition decompressCellblocks :: "codec_ops \<Rightarrow> bytes \<Rightarrow> (decompress_error, bytes) outcome" where
  "decompressCellblocks C b = decompress_blocks C b []"

section \<open>What a codec promises\<close>

text \<open>
  The contract of \<^verbatim>\<open>compression.Codec\<close>: encoding appends a chunk and returns its length, and
  decoding the chunk appends the source and returns its length.
\<close>

locale codec =
  fixes C :: codec_ops
  assumes chunk_len_pos: "0 < ChunkLen C"
    and encode_decode: "src \<noteq> [] \<Longrightarrow> length src \<le> unat (ChunkLen C) \<Longrightarrow>
      \<exists>chunk. Encode C src dst = (dst @ chunk, word_of_nat (length chunk)) \<and> length chunk < 2 ^ 32 \<and>
        (\<forall>out. Decode C chunk out = Ok (out @ src, word_of_nat (length src)))"
begin

lemma decompress_chunk:
  assumes "soFar < blockLen" "length chunk < 2 ^ 32"
    and "Decode C chunk out = Ok (out @ src, word_of_nat (length src))"
  shows "decompress_chunks C blockLen soFar (put_uint32 (word_of_nat (length chunk)) @ chunk @ rest) out =
    decompress_chunks C blockLen (soFar + word_of_nat (length src)) rest (out @ src)"
proof -
  have "unat (word_of_nat (length chunk) :: u32) = length chunk"
    using assms(2) by (simp add: unsigned_of_nat take_bit_eq_mod)
  moreover have "readUint32 (put_uint32 (word_of_nat (length chunk)) @ chunk @ rest) =
    Ok (word_of_nat (length chunk), chunk @ rest)"
    by (simp add: readUint32_Ok)
  moreover have "readN (chunk @ rest) (length chunk) = Ok (chunk, rest)" by (simp add: readN_Ok)
  ultimately show ?thesis
    using assms by (subst decompress_chunks.simps) simp
qed

text \<open>Each turn of the compressing loop appends one chunk, which the decompressing loop reads back.\<close>

lemma advance_soFar:
  fixes soFar blockLen :: u32
  assumes "unat soFar + (n + m) = unat blockLen" "0 < n"
  shows "soFar < blockLen" "unat (soFar + word_of_nat n) = unat soFar + n"
proof -
  have "unat soFar < unat blockLen" using assms by linarith
  then show "soFar < blockLen" by (simp add: word_less_nat_alt)
  have "unat (word_of_nat n :: u32) = n"
    using assms(1) unat_less [of blockLen] by (simp add: unsigned_of_nat take_bit_eq_mod)
  then show "unat (soFar + word_of_nat n) = unat soFar + n"
    using assms(1) unat_less [of blockLen] by (simp add: unat_add_no_wrap)
qed

lemma compress_loop_chunk:
  assumes "sz \<le> unat (ChunkLen C)" "unat soFar + length (concat cbs) = unat blockLen"
    and "buffers_Read sz cbs [] = (src, cbs')" "src \<noteq> []"
  obtains s where "compress_loop C sz cbs b = (if cbs' = [] then b @ s else compress_loop C sz cbs' (b @ s))"
    "unat (soFar + word_of_nat (length src)) = unat soFar + length src"
    "\<And>rest out. decompress_chunks C blockLen soFar (s @ rest) out
      = decompress_chunks C blockLen (soFar + word_of_nat (length src)) rest (out @ src)"
proof -
  have src: "src = take sz (concat cbs)" "concat cbs' = drop sz (concat cbs)"
    using buffers_Read_concat [of sz cbs] assms(3) by auto
  then have len: "length src + length (concat cbs') = length (concat cbs)" "length src \<le> sz" by auto
  obtain chunk where chunk: "Encode C src (growBuffer b 4) = (growBuffer b 4 @ chunk, word_of_nat (length chunk))"
    "length chunk < 2 ^ 32" "\<And>out. Decode C chunk out = Ok (out @ src, word_of_nat (length src))"
    using encode_decode [of src "growBuffer b 4"] assms(1,4) len by auto
  let ?s = "put_uint32 (word_of_nat (length chunk)) @ chunk"
  have "compress_loop C sz cbs b = (if cbs' = [] then b @ ?s else compress_loop C sz cbs' (b @ ?s))"
    using assms(3,4) chunk(1)
    by (subst compress_loop.simps) (simp add: Let_def growBuffer_def put_uint32_at_def)
  moreover have lt: "soFar < blockLen" "unat (soFar + word_of_nat (length src)) = unat soFar + length src"
    using advance_soFar [of soFar "length src" "length (concat cbs')" blockLen] assms(2,4) len by simp_all
  ultimately show ?thesis using that decompress_chunk [OF lt(1) chunk(2) chunk(3)] by simp
qed

lemma compress_loop_chunks:
  assumes "sz \<le> unat (ChunkLen C)" "0 < sz \<or> concat cbs = []"
    and "unat soFar + length (concat cbs) = unat blockLen"
  obtains s where "compress_loop C sz cbs b = b @ s"
    "\<forall>rest out. decompress_chunks C blockLen soFar (s @ rest) out = Ok (rest, out @ concat cbs, blockLen)"
  using assms
proof (induction "length (concat cbs)" arbitrary: cbs b soFar thesis rule: less_induct)
  case less
  obtain src cbs' where read: "buffers_Read sz cbs [] = (src, cbs')" by fastforce
  have src: "src = take sz (concat cbs)" "concat cbs' = drop sz (concat cbs)"
    using buffers_Read_concat [of sz cbs] read by auto
  show ?case
  proof (cases "src = []")
    case True
    then have "concat cbs = []" using src(1) less.prems(3) by auto
    moreover from this have "unat soFar = unat blockLen" using less.prems(4) by (simp only: list.size)
    then have "soFar = blockLen" by (simp add: word_unat_eq_iff)
    moreover have "compress_loop C sz cbs b = b @ []"
      using read True by (subst compress_loop.simps) simp
    ultimately show ?thesis
      by (intro less.prems(1) [of "[]"]) (simp_all add: decompress_chunks_done)
  next
    case False
    have len: "length src + length (concat cbs') = length (concat cbs)" "length src \<le> sz" using src by auto
    let ?soFar = "soFar + word_of_nat (length src)"
    obtain t where step: "compress_loop C sz cbs b = (if cbs' = [] then b @ t else compress_loop C sz cbs' (b @ t))"
      and pos: "unat ?soFar = unat soFar + length src"
      and first: "\<And>rest out. decompress_chunks C blockLen soFar (t @ rest) out
        = decompress_chunks C blockLen ?soFar rest (out @ src)"
      using compress_loop_chunk [OF less.prems(2,4) read False] by blast
    show ?thesis
    proof (cases "cbs' = []")
      case True
      then have "concat cbs = src" using src by (metis append.right_neutral append_take_drop_id concat.simps(1))
      moreover from this have "?soFar = blockLen" using pos less.prems(4) by (simp add: word_unat_eq_iff)
      ultimately show ?thesis using step True
        by (intro less.prems(1) [of t]) (simp_all add: first decompress_chunks_done)
    next
      case False
      have rest: "length (concat cbs') < length (concat cbs)" "unat ?soFar + length (concat cbs') = unat blockLen"
        "0 < sz \<or> concat cbs' = []"
        using \<open>src \<noteq> []\<close> len pos less.prems(3,4) by (auto simp flip: length_greater_0_conv)
      obtain s where "compress_loop C sz cbs' (b @ t) = (b @ t) @ s"
        "\<forall>rest out. decompress_chunks C blockLen ?soFar (s @ rest) out = Ok (rest, out @ concat cbs', blockLen)"
        using less.hyps [OF rest(1) _ less.prems(2) rest(3,2)] by blast
      moreover have "src @ concat cbs' = concat cbs" using src by simp
      ultimately show ?thesis using step False
        by (intro less.prems(1) [of "t @ s"]) (simp_all add: first)
    qed
  qed
qed

lemma compress_block_parts:
  assumes "length (concat cbs) = unat ulen"
  obtains s where "compressCellblocks C cbs ulen = put_uint32 ulen @ s"
    "\<forall>rest out. decompress_chunks C ulen 0 (s @ rest) out = Ok (rest, out @ concat cbs, ulen)"
proof -
  let ?sz = "go_min ulen (ChunkLen C)"
  have sz: "?sz \<le> unat (ChunkLen C)" "0 < ?sz \<or> concat cbs = []"
    using assms chunk_len_pos by (auto simp: go_min_def word_less_nat_alt not_less)
  have "unat (0 :: u32) + length (concat cbs) = unat ulen" using assms by (simp only: unat_0)
  then obtain s where "compress_loop C ?sz cbs (put_uint32 ulen) = put_uint32 ulen @ s"
    "\<forall>rest out. decompress_chunks C ulen 0 (s @ rest) out = Ok (rest, out @ concat cbs, ulen)"
    by (rule compress_loop_chunks [OF sz])
  then show thesis by (intro that) (simp_all add: compressCellblocks_def)
qed

lemma decompress_block:
  assumes "length (concat cbs) = unat ulen"
  shows "decompress_blocks C (compressCellblocks C cbs ulen @ rest) out = decompress_blocks C rest (out @ concat cbs)"
proof -
  obtain s where s: "compressCellblocks C cbs ulen = put_uint32 ulen @ s"
    "\<forall>rest out. decompress_chunks C ulen 0 (s @ rest) out = Ok (rest, out @ concat cbs, ulen)"
    using assms by (rule compress_block_parts)
  have "readUint32 (put_uint32 ulen @ s @ rest) = Ok (ulen, s @ rest)" by (simp add: readUint32_Ok)
  then show ?thesis
    using s by (subst decompress_blocks.simps) simp
qed

end

text \<open>
  The snappy codec keeps the contract when the snappy library does: a block it encodes is
  decoded to itself and fits a 32-bit length. It is interpreted with snappy's encoding of a
  block as one literal, here the block itself.
\<close>

lemma snappyChunkLen_value: "snappyChunkLen = 218421"
  by code_simp

lemma snappy_codec:
  assumes "\<And>src. length src \<le> unat snappyChunkLen \<Longrightarrow> decode (encode src) = Inr src \<and> length (encode src) < 2 ^ 32"
  shows "codec (snappyCodec encode decode)"
  using assms
  by unfold_locales
    (auto simp: snappyCodec_def snappy_Encode_def snappy_Decode_def snappyChunkLen_value Let_def)

interpretation snappy_literal: codec "snappyCodec (\<lambda>src. src) Inr"
  by (rule snappy_codec) (simp add: snappyChunkLen_value)

section \<open>Properties\<close>

text \<open>
  C27. Cell blocks survive compression: for any codec that keeps its contract, decompressing
  the stream that the client writes for the cell blocks of several requests, one block
  each, gives back their bytes in order, whatever the buffers they are held in and however
  the chunks cut them.
\<close>

theorem compress_decompress:
  assumes "codec C" "\<forall>(cbs, ulen) \<in> set blocks. length (concat cbs) = unat ulen"
  shows "decompressCellblocks C (concat (map (\<lambda>(cbs, ulen). compressCellblocks C cbs ulen) blocks)) =
    Ok (concat (map (\<lambda>(cbs, ulen). concat cbs) blocks))"
proof -
  have "decompress_blocks C (concat (map (\<lambda>(cbs, ulen). compressCellblocks C cbs ulen) blocks)) out =
    Ok (out @ concat (map (\<lambda>(cbs, ulen). concat cbs) blocks))" for out
    using assms(2)
  proof (induction blocks arbitrary: out)
    case Nil
    show ?case by (simp add: decompress_blocks.simps)
  next
    case (Cons blk blocks)
    then show ?case using codec.decompress_block [OF assms(1)] by (cases blk) simp
  qed
  from this [of "[]"] show ?thesis by (simp add: decompressCellblocks_def)
qed

theorem compress_decompress_witness:
  "decompressCellblocks (snappyCodec (\<lambda>src. src) Inr)
     (concat (map (\<lambda>(cbs, ulen). compressCellblocks (snappyCodec (\<lambda>src. src) Inr) cbs ulen)
       [([str ''ab'', [], str ''c''], 3), ([], 0)])) =
    Ok (concat (map (\<lambda>(cbs, ulen). concat cbs) [([str ''ab'', [], str ''c''], 3), ([], 0 :: u32)]))"
  by (rule compress_decompress [OF snappy_literal.codec_axioms]) (simp add: str_def)

text \<open>
  A compressed block that is cut anywhere is refused: no proper, non-empty part of the
  stream of a block decompresses.
\<close>

theorem decompress_truncated:
  assumes "codec C" "length (concat cbs) = unat ulen" "0 < k" "k < length (compressCellblocks C cbs ulen)"
  shows "\<not> (\<exists>out. decompressCellblocks C (take k (compressCellblocks C cbs ulen)) = Ok out)"
proof -
  obtain s where s: "compressCellblocks C cbs ulen = put_uint32 ulen @ s"
    "\<forall>rest out. decompress_chunks C ulen 0 (s @ rest) out = Ok (rest, out @ concat cbs, ulen)"
    using assms(1,2) by (rule codec.compress_block_parts)
  show ?thesis
  proof (cases "k < 4")
    case True
    then have "length (take k (compressCellblocks C cbs ulen)) = k" using assms(4) by simp
    then show ?thesis using True assms(3)
      by (subst decompressCellblocks_def, subst decompress_blocks.simps) (auto simp: readUint32_Ok dest!: arg_cong [where f = length])
  next
    case False
    define p q where "p = take (k - 4) s" and "q = drop (k - 4) s"
    have pq: "s = p @ q" "q \<noteq> []" using False assms(4) s(1) by (auto simp: p_def q_def)
    have "\<not> (\<exists>b' out' n. decompress_chunks C ulen 0 p [] = Ok (b', out', n))"
    proof clarify
      fix b' out' n assume "decompress_chunks C ulen 0 p [] = Ok (b', out', n)"
      then have "decompress_chunks C ulen 0 (p @ q) [] = Ok (b' @ q, out', n)"
        by (rule decompress_chunks_append)
      with s(2) [rule_format, of "[]" "[]"] pq show False by simp
    qed
    moreover have "take k (compressCellblocks C cbs ulen) = put_uint32 ulen @ p"
      using False s(1) by (simp add: p_def)
    moreover have "readUint32 (put_uint32 ulen @ p) = Ok (ulen, p)" by (simp add: readUint32_Ok)
    ultimately show ?thesis by (subst decompressCellblocks_def, subst decompress_blocks.simps) auto
  qed
qed

theorem decompress_truncated_witness:
  "\<not> (\<exists>out. decompressCellblocks (snappyCodec (\<lambda>src. src) Inr)
      (take 3 (compressCellblocks (snappyCodec (\<lambda>src. src) Inr) [str ''ab''] 2)) = Ok out)"
proof (rule decompress_truncated [OF snappy_literal.codec_axioms])
  have "length (concat [str ''ab'']) = unat (2 :: u32)" by (simp add: str_def)
  then obtain s where s: "compressCellblocks (snappyCodec (\<lambda>src. src) Inr) [str ''ab''] 2 = put_uint32 2 @ s"
    "\<forall>rest out. decompress_chunks (snappyCodec (\<lambda>src. src) Inr) 2 0 (s @ rest) out =
      Ok (rest, out @ concat [str ''ab''], 2)"
    by (rule snappy_literal.compress_block_parts)
  then show "3 < length (compressCellblocks (snappyCodec (\<lambda>src. src) Inr) [str ''ab''] 2)" by simp
qed (simp_all add: str_def)

end
