(* ===== verification/Buffers.thy ===== *)
theory Buffers
  imports Compressor
begin

text \<open>
  The buffers behind compression (\<^verbatim>\<open>newBuffer\<close> and \<^verbatim>\<open>freeBuffer\<close> of \<^verbatim>\<open>src/region/client.go\<close>,
  \<^verbatim>\<open>growBuffer\<close>, \<^verbatim>\<open>resizeBufferCap\<close> and the two functions of \<^verbatim>\<open>src/region/compressor.go\<close>, the slices of
  \<^verbatim>\<open>src/compression/snappy/snappy.go\<close>). A slice has a capacity, and what lies between its length and
  its capacity is what an earlier request left there. The functions on slices are shown to be those of
  Compressor on their elements, whatever the buffers of the pool contain.
\<close>

section \<open>Slices with a capacity\<close>

record gslice =
  elems :: bytes
  spare :: bytes

definition capacity :: "gslice \<Rightarrow> nat" where
  "capacity b = length (elems b) + length (spare b)"

text \<open>\<^verbatim>\<open>b[:n]\<close>, up to the capacity.\<close>

definition reslice :: "gslice \<Rightarrow> nat \<Rightarrow> gslice" where
  "reslice b n = \<lparr>elems = take n (elems b @ spare b), spare = drop n (elems b @ spare b)\<rparr>"

text \<open>
  \<^verbatim>\<open>append\<close>: in place when there is room, otherwise in a new array, which is larger than needed
  by as much as the runtime chooses, \<open>grow\<close>.
\<close>

definition go_append :: "(nat \<Rightarrow> nat) \<Rightarrow> gslice \<Rightarrow> bytes \<Rightarrow> gslice" where
  "go_append grow b xs =
     (if length xs \<le> length (spare b) then \<lparr>elems = elems b @ xs, spare = drop (length xs) (spare b)\<rparr>
      else \<lparr>elems = elems b @ xs, spare = replicate (grow (length (elems b) + length xs)) 0\<rparr>)"

section \<open>The pool\<close>

text \<open>\<open>v\<close> is what the pool gives out.\<close>

definition newBuffer :: "(nat \<Rightarrow> nat) \<Rightarrow> gslice option \<Rightarrow> nat \<Rightarrow> gslice" where
  "newBuffer grow v size' =
     (let b = (case v of None \<Rightarrow> \<lparr>elems = [], spare = []\<rparr> | Some b \<Rightarrow> b) in
      if capacity b < size' then reslice (go_append grow (reslice b 0) (replicate size' 0)) size'
      else reslice b size')"

definition freeBuffer :: "gslice \<Rightarrow> gslice list \<Rightarrow> gslice list" where
  "freeBuffer b pool = reslice b 0 # pool"

definition growBuffer_cap :: "(nat \<Rightarrow> nat) \<Rightarrow> gslice \<Rightarrow> nat \<Rightarrow> gslice" where
  "growBuffer_cap grow b sz =
     (let l = length (elems b) + sz in
      if l \<le> capacity b then reslice b l else go_append grow b (replicate sz 0))"

definition resizeBufferCap :: "(nat \<Rightarrow> nat) \<Rightarrow> gslice \<Rightarrow> nat \<Rightarrow> gslice" where
  "resizeBufferCap grow b cp =
     (if cp \<le> capacity b then b
      else let l = length (elems b) in reslice (go_append grow b (replicate (cp - l) 0)) l)"

lemma elems_append [simp]: "elems (go_append grow b xs) = elems b @ xs"
  by (simp add: go_append_def)

lemma length_newBuffer [simp]: "length (elems (newBuffer grow v n)) = n"
  by (auto simp: newBuffer_def Let_def reslice_def capacity_def)

lemma elems_growBuffer: "\<exists>stale. elems (growBuffer_cap grow b sz) = elems b @ stale \<and> length stale = sz"
  by (auto simp: growBuffer_cap_def Let_def reslice_def capacity_def intro: exI [of _ "take sz (spare b)"])

lemma elems_resize [simp]: "elems (resizeBufferCap grow b cp) = elems b"
  by (simp add: resizeBufferCap_def Let_def reslice_def)

section \<open>The codec on slices\<close>

text \<open>
  The library uses the room behind \<^verbatim>\<open>dst\<close> as scratch space and returns the chunk there or elsewhere;
  \<open>scribble\<close> is what it leaves in it.
\<close>

definition snappy_Encode_cap :: "(nat \<Rightarrow> nat) \<Rightarrow> (bytes \<Rightarrow> bytes) \<Rightarrow> (bytes \<Rightarrow> bytes \<Rightarrow> bytes) \<Rightarrow> bytes \<Rightarrow> gslice \<Rightarrow> gslice \<times> u32" where
  "snappy_Encode_cap grow encode scribble src dst =
     (let chunk = encode src; dst' = dst\<lparr>spare := scribble (spare dst) src\<rparr>
      in (go_append grow dst' chunk, word_of_nat (length chunk)))"

definition snappy_Decode_cap ::
  "(nat \<Rightarrow> nat) \<Rightarrow> (bytes \<Rightarrow> string + bytes) \<Rightarrow> (bytes \<Rightarrow> bytes \<Rightarrow> bytes) \<Rightarrow> bytes \<Rightarrow> gslice
     \<Rightarrow> (string, gslice \<times> u32) outcome" where
  "snappy_Decode_cap grow decode scribble src dst =
     (case decode src of
        Inl err \<Rightarrow> Err err
      | Inr chunk \<Rightarrow> Ok (go_append grow (dst\<lparr>spare := scribble (spare dst) src\<rparr>) chunk, word_of_nat (length chunk)))"

section \<open>Compressing and decompressing in buffers\<close>

text \<open>\<^verbatim>\<open>binary.BigEndian.PutUint32(b[off:], v)\<close>, and reading into a buffer.\<close>

definition put_at :: "nat \<Rightarrow> u32 \<Rightarrow> gslice \<Rightarrow> gslice" where
  "put_at off v b = b\<lparr>elems := put_uint32_at off v (elems b)\<rparr>"

definition read_into :: "gslice \<Rightarrow> bytes list \<Rightarrow> nat \<times> gslice \<times> bytes list" where
  "read_into ub cbs =
     (case buffers_Read (length (elems ub)) cbs [] of (got, cbs') \<Rightarrow>
        (length got, ub\<lparr>elems := got @ drop (length got) (elems ub)\<rparr>, cbs'))"

lemma read_into_eq:
  "read_into ub cbs = (n, ub', cbs') \<Longrightarrow> buffers_Read (length (elems ub)) cbs [] = (take n (elems ub'), cbs') \<and>
    n = length (take n (elems ub')) \<and> length (elems ub') = length (elems ub)"
proof -
  assume r: "read_into ub cbs = (n, ub', cbs')"
  obtain got where g: "buffers_Read (length (elems ub)) cbs [] = (got, cbs')" "n = length got"
      "ub' = ub\<lparr>elems := got @ drop (length got) (elems ub)\<rparr>"
    using r by (auto simp: read_into_def split: prod.splits)
  moreover have "length got \<le> length (elems ub)"
    using buffers_Read_concat(1) [of "length (elems ub)" cbs] g(1) by simp
  ultimately show ?thesis by simp
qed

function compress_buffers ::
  "(nat \<Rightarrow> nat) \<Rightarrow> (bytes \<Rightarrow> bytes) \<Rightarrow> (bytes \<Rightarrow> bytes \<Rightarrow> bytes) \<Rightarrow> gslice \<Rightarrow> bytes list \<Rightarrow> gslice \<Rightarrow> gslice \<times> gslice" where
  "compress_buffers grow encode scribble ub cbs b =
     (case read_into ub cbs of (n, ub', cbs') \<Rightarrow>
        if n = 0 then (b, ub')
        else
          let lenOffset = length (elems b);
              b1 = growBuffer_cap grow b 4;
              (b2, chunkLen) = snappy_Encode_cap grow encode scribble (take n (elems ub')) b1;
              b3 = put_at lenOffset chunkLen b2
          in if cbs' = [] then (b3, ub') else compress_buffers grow encode scribble ub' cbs' b3)"
  by pat_completeness auto
termination
proof (relation "measure (\<lambda>(_, _, _, ub, cbs, _). length (concat cbs))", goal_cases)
  case (2 grow encode scribble ub cbs b n ub' cbs')
  then show ?case
    using buffers_Read_concat [of "length (elems ub)" cbs] by (auto simp: read_into_def split: prod.splits)
qed simp

declare compress_buffers.simps [simp del]

text \<open>The result is what is sent and the pool afterwards.\<close>

definition compress_pooled ::
  "(nat \<Rightarrow> nat) \<Rightarrow> (bytes \<Rightarrow> bytes) \<Rightarrow> (bytes \<Rightarrow> bytes \<Rightarrow> bytes) \<Rightarrow> gslice option \<Rightarrow> gslice option \<Rightarrow> gslice list
     \<Rightarrow> bytes list \<Rightarrow> u32 \<Rightarrow> gslice \<times> gslice list" where
  "compress_pooled grow encode scribble v1 v2 pool cbs uncompressedLen =
     (let b = put_at 0 uncompressedLen (newBuffer grow v1 4);
          uncompressedBuffer = newBuffer grow v2 (go_min uncompressedLen snappyChunkLen)
      in case compress_buffers grow encode scribble uncompressedBuffer cbs b of (b', ub') \<Rightarrow>
        (b', freeBuffer ub' pool))"

function decompress_chunks_cap ::
  "(nat \<Rightarrow> nat) \<Rightarrow> (bytes \<Rightarrow> string + bytes) \<Rightarrow> (bytes \<Rightarrow> bytes \<Rightarrow> bytes) \<Rightarrow> u32 \<Rightarrow> u32 \<Rightarrow> bytes \<Rightarrow> gslice
     \<Rightarrow> (decompress_error, bytes \<times> gslice \<times> u32) outcome" where
  "decompress_chunks_cap grow decode scribble blockLen soFar b out =
     (if soFar < blockLen then
        and_then (wrap_err ChunkLength (readUint32 b)) (\<lambda>(chunkLen, b1).
        and_then (wrap_err ChunkBytes (readN b1 (unat chunkLen))) (\<lambda>(chunk, b2).
        and_then (wrap_err ChunkDecode (snappy_Decode_cap grow decode scribble chunk out)) (\<lambda>(out', n).
          decompress_chunks_cap grow decode scribble blockLen (soFar + n) b2 out')))
      else Ok (b, out, soFar))"
  by pat_completeness auto
termination
  by (relation "measure (\<lambda>(_, _, _, _, _, b, _). length b)") (auto simp: readUint32_Ok readN_Ok)

declare decompress_chunks_cap.simps [simp del]

text \<open>The slices have the elements that the reference has, on every branch.\<close>

definition elems_of :: "('e, bytes \<times> gslice \<times> u32) outcome \<Rightarrow> ('e, bytes \<times> bytes \<times> u32) outcome" where
  "elems_of r = and_then r (\<lambda>(b, out, n). Ok (b, elems out, n))"

lemma elems_of_simps [simp]:
  "elems_of (Ok (b, out, n)) = Ok (b, elems out, n)" "elems_of (Err e) = Err e" "elems_of (Panic p) = Panic p"
  by (simp_all add: elems_of_def)

lemma decompress_chunks_refines:
  "elems_of (decompress_chunks_cap grow decode scribble blockLen soFar b out) =
    decompress_chunks (snappyCodec encode decode) blockLen soFar b (elems out)"
proof (induction grow decode scribble blockLen soFar b out rule: decompress_chunks_cap.induct)
  case (1 grow decode scribble blockLen soFar b out)
  have step: "elems_of (and_then (wrap_err ChunkDecode (snappy_Decode_cap grow decode scribble chunk out)) (\<lambda>(out', n).
        decompress_chunks_cap grow decode scribble blockLen (soFar + n) b2 out')) =
      and_then (wrap_err ChunkDecode (Decode (snappyCodec encode decode) chunk (elems out))) (\<lambda>(out', n).
        decompress_chunks (snappyCodec encode decode) blockLen (soFar + n) b2 out')"
    if "soFar < blockLen" "readUint32 b = Ok (k, b1)" "readN b1 (unat k) = Ok (chunk, b2)" for k b1 chunk b2
  proof (cases "decode chunk")
    case (Inr x)
    then show ?thesis using 1 that by (simp add: snappyCodec_def snappy_Decode_def snappy_Decode_cap_def)
  qed (simp add: snappyCodec_def snappy_Decode_def snappy_Decode_cap_def)
  show ?case
  proof (cases "soFar < blockLen \<and> (\<exists>k b1 chunk b2. readUint32 b = Ok (k, b1) \<and> readN b1 (unat k) = Ok (chunk, b2))")
    case True
    then show ?thesis using step by (subst decompress_chunks_cap.simps, subst decompress_chunks.simps) auto
  next
    case False
    then show ?thesis
      by (subst decompress_chunks_cap.simps, subst decompress_chunks.simps)
        (cases "readUint32 b"; auto simp: readN_def split: if_splits)
  qed
qed

lemma decompress_chunks_cap_shorter:
  "decompress_chunks_cap grow decode scribble blockLen soFar b out = Ok (b', out', n) \<Longrightarrow> length b' \<le> length b"
  using decompress_chunks_refines [of grow decode scribble blockLen soFar b out id]
  by (auto dest: decompress_chunks_shorter [OF sym])

function decompress_blocks_cap ::
  "(nat \<Rightarrow> nat) \<Rightarrow> (bytes \<Rightarrow> string + bytes) \<Rightarrow> (bytes \<Rightarrow> bytes \<Rightarrow> bytes) \<Rightarrow> bytes \<Rightarrow> gslice \<Rightarrow> (decompress_error, gslice) outcome" where
  "decompress_blocks_cap grow decode scribble b out =
     (if length b > 0 then
        and_then (wrap_err BlockLength (readUint32 b)) (\<lambda>(blockLen, b1).
        and_then (decompress_chunks_cap grow decode scribble blockLen 0 b1
            (resizeBufferCap grow out (length (elems out) + unat blockLen))) (\<lambda>(b2, out', soFar).
          if soFar > blockLen then Err (UncompressedTooMuch blockLen soFar)
          else decompress_blocks_cap grow decode scribble b2 out'))
      else Ok out)"
  by pat_completeness auto
termination
  by (relation "measure (\<lambda>(_, _, _, b, _). length b)") (auto simp: readUint32_Ok dest: decompress_chunks_cap_shorter)

declare decompress_blocks_cap.simps [simp del]

definition decompress_pooled ::
  "(nat \<Rightarrow> nat) \<Rightarrow> (bytes \<Rightarrow> string + bytes) \<Rightarrow> (bytes \<Rightarrow> bytes \<Rightarrow> bytes) \<Rightarrow> bytes \<Rightarrow> (decompress_error, gslice) outcome" where
  "decompress_pooled grow decode scribble b = decompress_blocks_cap grow decode scribble b \<lparr>elems = [], spare = []\<rparr>"

lemma decompress_blocks_refines:
  "and_then (decompress_blocks_cap grow decode scribble b out) (\<lambda>out'. Ok (elems out')) =
    decompress_blocks (snappyCodec encode decode) b (elems out)"
proof (induction grow decode scribble b out rule: decompress_blocks_cap.induct)
  case (1 grow decode scribble b out)
  show ?case
  proof (cases "length b > 0 \<and> (\<exists>blockLen b1. readUint32 b = Ok (blockLen, b1))")
    case True
    then obtain blockLen b1 where r: "length b > 0" "readUint32 b = Ok (blockLen, b1)" by blast
    let ?out = "resizeBufferCap grow out (length (elems out) + unat blockLen)"
    let ?cap = "decompress_chunks_cap grow decode scribble blockLen 0 b1 ?out"
    have c: "decompress_chunks (snappyCodec encode decode) blockLen 0 b1 (elems out) = elems_of ?cap"
      using decompress_chunks_refines [of grow decode scribble blockLen 0 b1 ?out encode] by simp
    show ?thesis
      using 1 r c by (subst decompress_blocks_cap.simps, subst decompress_blocks.simps) (cases ?cap; auto)
  next
    case False
    then show ?thesis
      by (subst decompress_blocks_cap.simps, subst decompress_blocks.simps) (cases "readUint32 b"; auto)
  qed
qed

section \<open>Compressing\<close>

lemma put_over_stale:
  "length stale = 4 \<Longrightarrow> put_uint32_at (length b) v (b @ stale @ chunk) = b @ put_uint32 v @ chunk"
  by (simp add: put_uint32_at_def)

lemma compress_buffers_refines:
  "elems (fst (compress_buffers grow encode scribble ub cbs b)) =
    compress_loop (snappyCodec encode decode) (length (elems ub)) cbs (elems b)"
proof (induction grow encode scribble ub cbs b rule: compress_buffers.induct)
  case (1 grow encode scribble ub cbs b)
  obtain n ub' cbs' where r: "read_into ub cbs = (n, ub', cbs')" by (metis prod_cases3)
  note rd = read_into_eq [OF r]
  obtain stale where st: "elems (growBuffer_cap grow b 4) = elems b @ stale" "length stale = 4"
    using elems_growBuffer [of grow b 4] by blast
  define src where "src = take n (elems ub')"
  obtain b2 where e: "snappy_Encode_cap grow encode scribble src (growBuffer_cap grow b 4) = (b2, word_of_nat (length (encode src)))"
      "elems b2 = elems b @ stale @ encode src"
    using st(1) by (simp add: snappy_Encode_cap_def Let_def)
  have ref: "Encode (snappyCodec encode decode) src (growBuffer (elems b) 4) = (elems b @ replicate 4 0 @ encode src, word_of_nat (length (encode src)))"
    by (simp add: snappyCodec_def snappy_Encode_def growBuffer_def Let_def)
  let ?b3 = "put_at (length (elems b)) (word_of_nat (length (encode src))) b2"
  have b3: "elems ?b3 = elems b @ put_uint32 (word_of_nat (length (encode src))) @ encode src"
    using put_over_stale [OF st(2)] e(2) by (simp add: put_at_def)
  show ?case
  proof (cases "n = 0")
    case True
    then show ?thesis using r rd by (subst compress_buffers.simps, subst compress_loop.simps) auto
  next
    case False
    then have IH: "cbs' \<noteq> [] \<Longrightarrow> elems (fst (compress_buffers grow encode scribble ub' cbs' ?b3)) =
        compress_loop (snappyCodec encode decode) (length (elems ub')) cbs' (elems ?b3)"
      using 1 [OF r [symmetric] refl False refl refl] e(1) unfolding src_def by simp
    have "put_uint32_at (length (elems b)) (word_of_nat (length (encode src))) (elems b @ replicate 4 0 @ encode src) = elems ?b3"
      using put_over_stale [of "replicate 4 0" "elems b"] b3 by simp
    moreover have "take n (elems ub') = src" "buffers_Read (length (elems ub)) cbs [] = (src, cbs')" "src \<noteq> []"
        "length (elems ub') = length (elems ub)" using rd False by (auto simp: src_def)
    ultimately show ?thesis using r False e(1) ref IH
      by (subst compress_buffers.simps, subst compress_loop.simps) (simp add: Let_def)
  qed
qed

section \<open>Properties\<close>

text \<open>
  C28. No byte that an earlier request left in a buffer gets into a message: whatever the buffers
  out of the pool contain, however the runtime grows a slice and whatever the snappy library leaves
  in its scratch space, the bytes that are sent are those of the reference, and so are the bytes
  and the errors of decompression.
\<close>

theorem buffers_clean:
  "elems (fst (compress_pooled grow encode scribble v1 v2 pool cbs uncompressedLen)) =
     compressCellblocks (snappyCodec encode decode) cbs uncompressedLen \<and>
   and_then (decompress_pooled grow decode scribble b) (\<lambda>out. Ok (elems out)) = decompressCellblocks (snappyCodec encode decode) b"
proof -
  let ?b = "newBuffer grow v1 4"
  have "elems (put_at 0 uncompressedLen ?b) = put_uint32 uncompressedLen"
    by (simp add: put_at_def put_uint32_at_def)
  then show ?thesis
    using compress_buffers_refines [of grow encode scribble "newBuffer grow v2 (go_min uncompressedLen snappyChunkLen)" cbs "put_at 0 uncompressedLen ?b" decode]
      decompress_blocks_refines [of grow decode scribble b "\<lparr>elems = [], spare = []\<rparr>" encode]
    by (simp add: compress_pooled_def compressCellblocks_def decompress_pooled_def decompressCellblocks_def split_beta Let_def)
      (simp add: snappyCodec_def)
qed

end
