(* ===== verification/Pb.thy ===== *)
theory Pb
  imports Prelude
begin

text \<open>
  The protobuf messages of \<^verbatim>\<open>src/pb\<close> that the client reads and writes, as records with
  the generated structs' fields: an optional scalar (\<^verbatim>\<open>*bool\<close>, \<^verbatim>\<open>*uint64\<close>) is an
  \<^typ>\<open>'a option\<close>, a repeated field a list, a \<^verbatim>\<open>[]byte\<close> field a \<^typ>\<open>bytes\<close> with
  \<^verbatim>\<open>nil\<close> and the empty slice identified. Fields that the client neither sets nor reads
  are left out. Marshalling is the protobuf runtime's and stays a parameter wherever it
  is used.
\<close>

section \<open>Cells and results\<close>

record cell =
  Row :: bytes
  Family :: bytes
  Qualifier :: bytes
  Timestamp :: "u64 option"
  CellType :: "byte option"
  Value :: bytes

record result =
  Cell :: "cell list"
  AssociatedCellCount :: "u32 option"
  Exists :: "bool option"
  Stale :: "bool option"
  Partial :: "bool option"

definition GetPartial :: "result \<Rightarrow> bool" where
  "GetPartial r = (Partial r = Some True)"

definition GetStale :: "result \<Rightarrow> bool" where
  "GetStale r = (Stale r = Some True)"

definition GetAssociatedCellCount :: "result \<Rightarrow> u32" where
  "GetAssociatedCellCount r = (case AssociatedCellCount r of None \<Rightarrow> 0 | Some n \<Rightarrow> n)"

section \<open>Regions\<close>

record table_name =
  Namespace :: bytes
  TableQualifier :: bytes

record region_info =
  RegionId :: "u64 option"
  TableName :: "table_name option"
  StartKey :: bytes
  EndKey :: bytes
  Offline :: "bool option"

definition GetOffline :: "region_info \<Rightarrow> bool" where
  "GetOffline r = (Offline r = Some True)"

definition GetRegionId :: "region_info \<Rightarrow> u64" where
  "GetRegionId r = (case RegionId r of None \<Rightarrow> 0 | Some n \<Rightarrow> n)"

datatype specifier_type = REGION_NAME | ENCODED_REGION_NAME

record region_specifier =
  SpecType :: specifier_type
  SpecValue :: bytes

end
