(* ===== verification/Region_Info.thy ===== *)
theory Region_Info
  imports Pb
begin

text \<open>
  \<^verbatim>\<open>src/region/info.go\<close>: region descriptors, parsing them from a row of
  \<^verbatim>\<open>hbase:meta\<close>, the availability protocol of a region, and the comparison of region
  names by which the region cache is ordered.
\<close>

section \<open>Region descriptors\<close>

text \<open>
  The attributes of \<^verbatim>\<open>info\<close> that are fixed at creation, with the identity of the object
  (\<open>ri_ptr\<close>: the code compares regions by pointer). The namespace is an option because
  \<^verbatim>\<open>fullyQualifiedTable\<close> tests it for \<^verbatim>\<open>nil\<close>.
\<close>

record region =
  ri_ptr :: nat
  ri_id :: u64
  ri_namespace :: "bytes option"
  ri_table :: bytes
  ri_name :: bytes
  ri_startKey :: bytes
  ri_stopKey :: bytes
  ri_specifier :: region_specifier

definition defaultNamespace :: bytes where
  "defaultNamespace = str ''default''"

definition NewInfo ::
  "nat \<Rightarrow> u64 \<Rightarrow> bytes option \<Rightarrow> bytes \<Rightarrow> bytes \<Rightarrow> bytes \<Rightarrow> bytes \<Rightarrow> region" where
  "NewInfo p rid namespace table name startKey stopKey =
     \<lparr>ri_ptr = p, ri_id = rid, ri_namespace = namespace, ri_table = table, ri_name = name,
      ri_startKey = startKey, ri_stopKey = stopKey,
      ri_specifier = \<lparr>SpecType = REGION_NAME, SpecValue = name\<rparr>\<rparr>"

datatype info_error =
    EmptyValue
  | UnsupportedVersion byte
  | InvalidMagic
  | DecodeFailed string
  | OfflineRegionError bytes
  | MetaNoRegion
  | MetaNoServer

definition pbufMagic :: u32 where "pbufMagic = 1346524486"

text \<open>
  \<^verbatim>\<open>infoFromCell\<close>: \<open>unmarshal\<close> is \<^verbatim>\<open>proto.Unmarshal\<close> into a \<^verbatim>\<open>pb.RegionInfo\<close>, and
  \<open>p\<close> the identity of the region object it allocates.
\<close>

definition infoFromCell ::
  "(bytes \<Rightarrow> string + region_info) \<Rightarrow> nat \<Rightarrow> cell \<Rightarrow> (info_error, region) outcome" where
  "infoFromCell unmarshal p cl =
     (let v = Value cl in
      if length v = 0 then Err EmptyValue
      else if v ! 0 \<noteq> of_char (CHR ''P'') then Err (UnsupportedVersion (v ! 0))
      else and_then (slice v 0 4) (\<lambda>m.
        and_then (uint32 m) (\<lambda>magic.
        if magic \<noteq> pbufMagic then Err InvalidMagic
        else case unmarshal (drop 4 v) of
          Inl e \<Rightarrow> Err (DecodeFailed e)
        | Inr regInfo \<Rightarrow>
            if GetOffline regInfo then Err (OfflineRegionError (Row cl))
            else case TableName regInfo of
              None \<Rightarrow> Panic NilDereference
            | Some tn \<Rightarrow>
                Ok (NewInfo p (GetRegionId regInfo)
                  (if Namespace tn \<noteq> defaultNamespace then Some (Namespace tn) else None)
                  (TableQualifier tn) (Row cl) (StartKey regInfo) (EndKey regInfo)))))"

text \<open>The loop of \<^verbatim>\<open>ParseRegionInfo\<close> over the cells of a meta row.\<close>

fun parse_cells ::
  "(bytes \<Rightarrow> string + region_info) \<Rightarrow> nat \<Rightarrow> cell list \<Rightarrow> region option \<Rightarrow> bytes
     \<Rightarrow> (info_error, region option \<times> bytes) outcome" where
  "parse_cells unmarshal p [] reg addr = Ok (reg, addr)"
| "parse_cells unmarshal p (cl # cls) reg addr =
     (if Qualifier cl = str ''regioninfo'' then
        and_then (infoFromCell unmarshal p cl) (\<lambda>r. parse_cells unmarshal p cls (Some r) addr)
      else if Qualifier cl = str ''server'' then
        (if length (Value cl) = 0 then parse_cells unmarshal p cls reg addr
         else parse_cells unmarshal p cls reg (Value cl))
      else parse_cells unmarshal p cls reg addr)"

definition ParseRegionInfo ::
  "(bytes \<Rightarrow> string + region_info) \<Rightarrow> nat \<Rightarrow> cell list \<Rightarrow> (info_error, region \<times> bytes) outcome" where
  "ParseRegionInfo unmarshal p cls =
     and_then (parse_cells unmarshal p cls None []) (\<lambda>(reg, addr).
       case reg of
         None \<Rightarrow> Err MetaNoRegion
       | Some r \<Rightarrow> if length addr = 0 then Err MetaNoServer else Ok (r, addr))"

section \<open>Comparing region names\<close>

text \<open>
  \<^verbatim>\<open>Compare\<close>'s first loop runs over the common length and stops at the comma that ends
  the table name (\<open>Inr i\<close>) or at the first difference (\<open>Inl\<close> with the result).
\<close>

function compare_table :: "bytes \<Rightarrow> bytes \<Rightarrow> nat \<Rightarrow> nat \<Rightarrow> int + nat" where
  "compare_table a b len i =
     (if i < len then
        (let ai = a ! i; bi = b ! i in
         if ai \<noteq> bi then
           (if ai = comma then Inl (-1001)
            else if bi = comma then Inl 1001
            else Inl (int (unat ai) - int (unat bi)))
         else if ai = comma then Inr i
         else compare_table a b len (Suc i))
      else Inr i)"
  by pat_completeness auto
termination
  by (relation "measure (\<lambda>(a, b, len, i). len - i)") auto

text \<open>The loops over the keys and over the rest of the names.\<close>

function compare_from :: "bytes \<Rightarrow> bytes \<Rightarrow> nat \<Rightarrow> nat \<Rightarrow> int + nat" where
  "compare_from a b stop i =
     (if i < stop then
        (let ai = a ! i; bi = b ! i in
         if ai \<noteq> bi then Inl (int (unat ai) - int (unat bi))
         else compare_from a b stop (Suc i))
      else Inr i)"
  by pat_completeness auto
termination
  by (relation "measure (\<lambda>(a, b, stop, i). stop - i)") auto

declare compare_table.simps [simp del] compare_from.simps [simp del]

text \<open>
  \<^verbatim>\<open>findCommaFromEnd\<close>: the loop counter \<open>i\<close> of the code is the predecessor of the
  recursion's argument, which starts at \<open>length b\<close>.
\<close>

fun find_comma_down :: "bytes \<Rightarrow> nat \<Rightarrow> nat \<Rightarrow> nat option" where
  "find_comma_down b offset 0 = None"
| "find_comma_down b offset (Suc i) =
     (if offset < i then (if b ! i = comma then Some i else find_comma_down b offset i) else None)"

definition findCommaFromEnd :: "bytes \<Rightarrow> nat \<Rightarrow> ('e, nat) outcome" where
  "findCommaFromEnd b offset =
     (case find_comma_down b offset (length b) of
        None \<Rightarrow> Panic (Explicit ''no comma found'')
      | Some i \<Rightarrow> Ok i)"

definition Compare :: "bytes \<Rightarrow> bytes \<Rightarrow> ('e, int) outcome" where
  "Compare a b =
     (let len = (if length a < length b then length a else length b) in
      case compare_table a b len 0 of
        Inl r \<Rightarrow> Ok r
      | Inr i \<Rightarrow>
          and_then (findCommaFromEnd a i) (\<lambda>aComma.
          and_then (findCommaFromEnd b i) (\<lambda>bComma.
            let firstComma = (if aComma < bComma then aComma else bComma) in
            case compare_from a b firstComma (Suc i) of
              Inl r \<Rightarrow> Ok r
            | Inr j \<Rightarrow>
                if aComma < bComma then Ok (-1002)
                else if bComma < aComma then Ok 1002
                else case compare_from a b len j of
                  Inl r \<Rightarrow> Ok r
                | Inr k \<Rightarrow> Ok (int (length a) - int (length b)))))"

subsection \<open>The order Compare implements\<close>

text \<open>
  Region names are \<open>table,start_key,suffix\<close>; neither the table nor the suffix (the
  creation timestamp and an MD5 digest, or the \<^verbatim>\<open>:\<close> of a search key) holds a comma,
  while the start key may.
\<close>

definition region_name :: "bytes \<Rightarrow> bytes \<Rightarrow> bytes \<Rightarrow> bytes" where
  "region_name t k s = t @ comma # k @ comma # s"

definition no_comma :: "bytes \<Rightarrow> bool" where
  "no_comma b \<longleftrightarrow> comma \<notin> set b"

lemma compare_table_skip:
  assumes "i \<le> j" "j \<le> len" "\<And>l. i \<le> l \<Longrightarrow> l < j \<Longrightarrow> a ! l = b ! l \<and> a ! l \<noteq> comma"
  shows "compare_table a b len i = compare_table a b len j"
  using assms
proof (induction "j - i" arbitrary: i)
  case 0
  then show ?case by simp
next
  case (Suc n)
  then have "n = j - Suc i" "Suc i \<le> j" by auto
  then have "compare_table a b len (Suc i) = compare_table a b len j"
    by (rule Suc.hyps(1)) (use Suc.prems in \<open>metis Suc_leD\<close>)+
  moreover have "compare_table a b len i = compare_table a b len (Suc i)"
    using \<open>Suc i \<le> j\<close> Suc.prems(2) Suc.prems(3) [of i] by (subst compare_table.simps) auto
  ultimately show ?case by simp
qed

lemma compare_from_skip:
  assumes "i \<le> j" "j \<le> stop" "\<And>l. i \<le> l \<Longrightarrow> l < j \<Longrightarrow> a ! l = b ! l"
  shows "compare_from a b stop i = compare_from a b stop j"
  using assms
proof (induction "j - i" arbitrary: i)
  case 0
  then show ?case by simp
next
  case (Suc n)
  then have "n = j - Suc i" "Suc i \<le> j" by auto
  then have "compare_from a b stop (Suc i) = compare_from a b stop j"
    by (rule Suc.hyps(1)) (use Suc.prems in \<open>metis Suc_leD\<close>)+
  moreover have "compare_from a b stop i = compare_from a b stop (Suc i)"
    using \<open>Suc i \<le> j\<close> Suc.prems(2) Suc.prems(3) [of i] by (subst compare_from.simps) auto
  ultimately show ?case by simp
qed

text \<open>A comparison result has the sign of the order.\<close>

definition cmp_sign :: "int \<Rightarrow> 'a::linorder \<Rightarrow> 'a \<Rightarrow> bool" where
  "cmp_sign r x y \<longleftrightarrow> (r < 0 \<longleftrightarrow> x < y) \<and> (r = 0 \<longleftrightarrow> x = y)"

lemma cmp_sign_diff:
  fixes xs ys :: bytes
  assumes "diff_at xs ys j"
  shows "cmp_sign (int (unat (xs ! j)) - int (unat (ys ! j))) xs ys"
proof -
  have "xs ! j \<noteq> ys ! j" using assms by (simp add: diff_at_def)
  with diff_at_less [OF assms] show ?thesis
    by (auto simp: cmp_sign_def word_less_alt word_uint_eq_iff)
qed

lemma cmp_sign_prefix:
  fixes xs ys :: "'a::linorder list"
  assumes "length xs < length ys" "take (length xs) ys = xs"
  shows "r < 0 \<Longrightarrow> cmp_sign r xs ys" "0 < r \<Longrightarrow> cmp_sign r ys xs"
  using less_proper_prefix [OF assms] by (auto simp: cmp_sign_def)

lemma nth_prefix: "take (length xs) ys = xs \<Longrightarrow> l < length xs \<Longrightarrow> ys ! l = xs ! l"
  by (metis nth_take)

lemma compare_table_names:
  assumes "no_comma t1" "no_comma t2" "min (length t1) (length t2) < len"
    and "a = t1 @ comma # r1" "b = t2 @ comma # r2"
  shows "if t1 = t2 then compare_table a b len 0 = Inr (length t1)
    else \<exists>r. compare_table a b len 0 = Inl r \<and> cmp_sign r t1 t2"
proof -
  have no: "t ! l \<noteq> comma" if "t = t1 \<or> t = t2" "l < length t" for t l
    using assms(1,2) that by (auto simp: no_comma_def in_set_conv_nth)
  have skip: "compare_table a b len 0 = compare_table a b len j"
    if "j \<le> length t1" "j \<le> length t2" "\<And>l. l < j \<Longrightarrow> t1 ! l = t2 ! l" for j
    using that no assms by (intro compare_table_skip) (auto simp: nth_append)
  note step = skip [THEN trans, OF _ _ _ compare_table.simps]
  show ?thesis
  proof (cases rule: list_compare_cases [of t1 t2])
    case eq
    with step [of "length t1"] assms show ?thesis by simp
  next
    case (diff j)
    with step [of j] assms no cmp_sign_diff [OF diff] diff_at_nth [OF diff]
    show ?thesis by (auto simp: diff_at_def nth_append)
  next
    case prefix
    with step [of "length t1"] assms no [of t2] nth_prefix [OF prefix(2)] cmp_sign_prefix [OF prefix]
    show ?thesis by (auto simp: nth_append)
  next
    case extends
    with step [of "length t2"] assms no [of t1] nth_prefix [OF extends(2)] cmp_sign_prefix [OF extends]
    show ?thesis by (auto simp: nth_append)
  qed
qed

lemma find_comma_down_skip:
  assumes "offset < j" "j \<le> n" "\<And>l. j \<le> l \<Longrightarrow> l < n \<Longrightarrow> b ! l \<noteq> comma"
  shows "find_comma_down b offset n = find_comma_down b offset j"
  using assms
proof (induction n)
  case 0
  then show ?case by simp
next
  case (Suc n)
  show ?case
  proof (cases "j = Suc n")
    case False
    with Suc show ?thesis by auto
  qed simp
qed

lemma findCommaFromEnd_name:
  assumes "no_comma s"
  shows "findCommaFromEnd (region_name t k s) (length t) = Ok (length t + 1 + length k)"
proof -
  let ?n = "region_name t k s" and ?c = "length t + 1 + length k"
  have split: "?n = (t @ comma # k) @ comma # s" by (simp add: region_name_def)
  have suffix: "?n ! l \<noteq> comma" if "Suc ?c \<le> l" "l < length ?n" for l
  proof -
    have "?n ! l = s ! (l - Suc ?c)"
      using that nth_append [of "t @ comma # k @ [comma]" s l] by (simp add: region_name_def)
    moreover have "l - Suc ?c < length s" using that by (simp add: split)
    ultimately show ?thesis using assms by (auto simp: no_comma_def in_set_conv_nth)
  qed
  have "find_comma_down ?n (length t) (length ?n) = find_comma_down ?n (length t) (Suc ?c)"
    using suffix by (intro find_comma_down_skip) (auto simp: split)
  moreover have "?n ! ?c = comma" by (simp add: split nth_append)
  ultimately show ?thesis by (simp add: findCommaFromEnd_def)
qed

text \<open>
  The loops after the table name compare one segment of the names, which starts at the
  same position \<open>n\<close> in both: they find the first difference, or run to the end of the
  shorter segment.
\<close>

definition comparable :: "bytes \<Rightarrow> bytes \<Rightarrow> bool" where
  "comparable x y \<longleftrightarrow> take (length x) y = x \<or> take (length y) x = y"

lemma compare_segments:
  assumes "a = p @ x @ r" "b = q @ y @ s" "length p = n" "length q = n"
    and "stop = n + min (length x) (length y)"
  shows "if comparable x y then compare_from a b stop n = Inr stop
    else \<exists>r. compare_from a b stop n = Inl r \<and> cmp_sign r x y"
proof -
  have nth: "a ! (n + l) = x ! l" "b ! (n + l) = y ! l" if "l < length x" "l < length y" for l
    using that assms by (auto simp: nth_append)
  have skip: "compare_from a b stop n = compare_from a b stop (n + j)"
    if "j \<le> length x" "j \<le> length y" "\<And>l. l < j \<Longrightarrow> x ! l = y ! l" for j
  proof (rule compare_from_skip)
    fix l assume l: "n \<le> l" "l < n + j"
    then have "l = n + (l - n)" "l - n < j" by auto
    with that nth show "a ! l = b ! l" by (metis order.strict_trans2)
  qed (use that assms in auto)
  note step = skip [THEN trans, OF _ _ _ compare_from.simps]
  show ?thesis
  proof (cases rule: list_compare_cases [of x y])
    case eq
    with step [of "length x"] assms show ?thesis by (simp add: comparable_def)
  next
    case (diff j)
    then have "\<not> comparable x y"
      unfolding diff_at_def comparable_def by (metis nth_take)
    with diff step [of j] assms nth [of j] cmp_sign_diff [OF diff] diff_at_nth [OF diff]
    show ?thesis by (auto simp: diff_at_def)
  next
    case prefix
    with step [of "length x"] assms nth_prefix [OF prefix(2)] show ?thesis
      by (simp add: comparable_def)
  next
    case extends
    with step [of "length y"] assms nth_prefix [OF extends(2)] show ?thesis
      by (simp add: comparable_def)
  qed
qed

lemma comparable_sign:
  assumes "comparable x y"
  shows "cmp_sign (int (length x) - int (length y)) x y"
proof (cases rule: list_compare_cases [of x y])
  case eq
  then show ?thesis by (simp add: cmp_sign_def)
next
  case (diff j)
  then have False using assms unfolding diff_at_def comparable_def by (metis nth_take)
  then show ?thesis ..
next
  case prefix
  then show ?thesis by (intro cmp_sign_prefix(1)) auto
next
  case extends
  then show ?thesis by (intro cmp_sign_prefix(2)) auto
qed

text \<open>
  \<^verbatim>\<open>Compare\<close> on well-formed names is the lexicographic order of table, start key and
  suffix; in particular it does not panic on them.
\<close>

text \<open>
  Once the tables are the same, \<^verbatim>\<open>Compare\<close> compares the start keys up to the end of the shorter one
  and, when both are the same, what follows them.
\<close>

lemma Compare_same_table:
  fixes t k1 k2 s1 s2
  defines "a \<equiv> region_name t k1 s1" and "b \<equiv> region_name t k2 s2"
  defines "len \<equiv> if length a < length b then length a else length b"
    and "stop \<equiv> Suc (length t) + min (length k1) (length k2)"
  assumes "compare_table a b len 0 = Inr (length t)" "no_comma s1" "no_comma s2"
  shows "Compare a b = (case compare_from a b stop (Suc (length t)) of
      Inl r \<Rightarrow> Ok r
    | Inr j \<Rightarrow> if length k1 < length k2 then Ok (-1002)
        else if length k2 < length k1 then Ok 1002
        else case compare_from a b len j of
          Inl r \<Rightarrow> Ok r | Inr k \<Rightarrow> Ok (int (length a) - int (length b)))"
proof -
  let ?n = "Suc (length t)"
  have comma: "findCommaFromEnd a (length t) = Ok (?n + length k1)" "findCommaFromEnd b (length t) = Ok (?n + length k2)"
    using findCommaFromEnd_name assms(6,7) by (simp_all add: a_def b_def)
  have first: "(if length k1 < length k2 then ?n + length k1 else ?n + length k2) = stop"
    by (simp add: stop_def)
  show ?thesis
    unfolding Compare_def Let_def len_def [symmetric] assms(5) sum.case comma and_then.simps add_less_cancel_left first
    by (rule refl)
qed

lemma compare_suffixes:
  fixes t k s1 s2
  defines "a \<equiv> region_name t k s1" and "b \<equiv> region_name t k s2"
  defines "len \<equiv> if length a < length b then length a else length b" and "stop \<equiv> Suc (length t) + length k"
  shows "\<exists>r. (case compare_from a b len stop of Inl r \<Rightarrow> Ok r | Inr k \<Rightarrow> Ok (int (length a) - int (length b))) =
      (Ok r :: ('e, int) outcome) \<and> cmp_sign r s1 s2"
proof -
  let ?p = "t @ comma # k @ [comma]"
  have ab: "a = ?p @ s1" "b = ?p @ s2" by (simp_all add: a_def b_def region_name_def)
  have stop: "Suc stop = length ?p" by (simp add: stop_def)
  have len: "len = Suc stop + min (length s1) (length s2)" unfolding len_def ab stop by simp
  have "compare_from a b len stop = compare_from a b len (Suc stop)"
    unfolding ab by (rule compare_from_skip) (auto simp: stop_def len nth_append)
  moreover have "if comparable s1 s2 then compare_from a b len (Suc stop) = Inr len
    else \<exists>r. compare_from a b len (Suc stop) = Inl r \<and> cmp_sign r s1 s2"
    by (rule compare_segments [where p = ?p and q = ?p and r = "[]" and s = "[]"])
      (simp_all only: append_Nil2 stop [symmetric] ab(1)[symmetric] ab(2)[symmetric] len)
  moreover have "int (length a) - int (length b) = int (length s1) - int (length s2)"
    unfolding ab by simp
  ultimately show ?thesis using comparable_sign [of s1 s2]
    by (cases "comparable s1 s2") (auto simp del: length_append)
qed

lemma Compare_names:
  assumes t: "no_comma t1" "no_comma t2" and s: "no_comma s1" "no_comma s2"
  shows "\<exists>r. Compare (region_name t1 k1 s1) (region_name t2 k2 s2) = Ok r
    \<and> cmp_sign r (t1, k1, s1) (t2, k2, s2)"
proof -
  let ?a = "region_name t1 k1 s1" and ?b = "region_name t2 k2 s2"
  let ?len = "if length ?a < length ?b then length ?a else length ?b"
  have tbl: "if t1 = t2 then compare_table ?a ?b ?len 0 = Inr (length t1)
    else \<exists>r. compare_table ?a ?b ?len 0 = Inl r \<and> cmp_sign r t1 t2"
    using t by (intro compare_table_names) (auto simp: region_name_def)
  show ?thesis
  proof (cases "t1 = t2")
    case False
    with tbl show ?thesis by (auto simp: Compare_def Let_def cmp_sign_def)
  next
    case t12: True
    let ?n = "Suc (length t1)"
    let ?stop = "?n + min (length k1) (length k2)"
    have keys: "if comparable k1 k2 then compare_from ?a ?b ?stop ?n = Inr ?stop
      else \<exists>r. compare_from ?a ?b ?stop ?n = Inl r \<and> cmp_sign r k1 k2"
      by (rule compare_segments [where p = "t1 @ [comma]" and q = "t2 @ [comma]"])
        (auto simp: region_name_def t12)
    have "compare_table ?a ?b ?len 0 = Inr (length t1)" using tbl t12 by simp
    then have eq: "Compare ?a ?b = (case compare_from ?a ?b ?stop ?n of
        Inl r \<Rightarrow> Ok r
      | Inr j \<Rightarrow> if length k1 < length k2 then Ok (-1002)
          else if length k2 < length k1 then Ok 1002
          else case compare_from ?a ?b ?len j of
            Inl r \<Rightarrow> Ok r | Inr k \<Rightarrow> Ok (int (length ?a) - int (length ?b)))"
      using s unfolding t12 by (intro Compare_same_table)
    show ?thesis
    proof (cases "k1 = k2")
      case False
      then have "\<exists>r. Compare ?a ?b = Ok r \<and> cmp_sign r k1 k2"
        using keys comparable_sign [of k1 k2]
        by (cases "comparable k1 k2") (auto simp: eq cmp_sign_def)
      with False t12 show ?thesis by (auto simp: cmp_sign_def)
    next
      case k12: True
      have "compare_from ?a ?b ?stop ?n = Inr ?stop" using keys k12 by (simp add: comparable_def)
      then have "\<exists>r. Compare ?a ?b = Ok r \<and> cmp_sign r s1 s2"
        unfolding eq using compare_suffixes [of t1 k1 s1 s2] unfolding t12 k12 by simp
      with t12 k12 show ?thesis by (auto simp: cmp_sign_def)
    qed
  qed
qed

text \<open>
  A well-formed name determines its parts: the table ends at the first comma and the
  suffix starts after the last.
\<close>

definition name_parts :: "bytes \<Rightarrow> bytes \<times> bytes \<times> bytes" where
  "name_parts n =
     (let t = takeWhile (\<lambda>x. x \<noteq> comma) n;
          r = drop (Suc (length t)) n;
          s = rev (takeWhile (\<lambda>x. x \<noteq> comma) (rev r))
      in (t, take (length r - Suc (length s)) r, s))"

definition wf_name :: "bytes \<Rightarrow> bool" where
  "wf_name n \<longleftrightarrow> (case name_parts n of (t, k, s) \<Rightarrow> n = region_name t k s)"

definition name_less :: "bytes \<Rightarrow> bytes \<Rightarrow> bool" where
  "name_less a b \<longleftrightarrow> name_parts a < name_parts b"

lemma name_parts_region_name [simp]:
  assumes "no_comma t" "no_comma s"
  shows "name_parts (region_name t k s) = (t, k, s)"
proof -
  have t: "takeWhile (\<lambda>x. x \<noteq> comma) (t @ comma # k @ comma # s) = t"
    using assms(1) by (subst takeWhile_append2) (auto simp: no_comma_def)
  have s: "takeWhile (\<lambda>x. x \<noteq> comma) (rev s @ comma # rev k) = rev s"
    using assms(2) by (subst takeWhile_append2) (auto simp: no_comma_def)
  show ?thesis by (simp add: name_parts_def region_name_def Let_def t s)
qed

lemma wf_name_region_name [simp]:
  "no_comma t \<Longrightarrow> no_comma s \<Longrightarrow> wf_name (region_name t k s)"
  by (simp add: wf_name_def)

lemma wf_nameE:
  assumes "wf_name n"
  obtains t k s where "no_comma t" "no_comma s" "n = region_name t k s" "name_parts n = (t, k, s)"
proof -
  obtain t k s where p: "name_parts n = (t, k, s)" by (cases "name_parts n")
  then have "no_comma t" "no_comma s"
    by (auto simp: name_parts_def Let_def no_comma_def dest: set_takeWhileD)
  with p assms show ?thesis by (intro that) (auto simp: wf_name_def)
qed

lemma name_parts_inj: "wf_name a \<Longrightarrow> wf_name b \<Longrightarrow> name_parts a = name_parts b \<Longrightarrow> a = b"
  by (elim wf_nameE) auto

lemma Compare_wf_names:
  assumes "wf_name a" "wf_name b"
  shows "\<exists>r. (Compare a b :: ('e, int) outcome) = Ok r \<and> (r < 0 \<longleftrightarrow> name_less a b) \<and> (r = 0 \<longleftrightarrow> a = b)
    \<and> (r > 0 \<longleftrightarrow> name_less b a)"
proof -
  from assms(1) obtain t1 k1 s1 where a: "no_comma t1" "no_comma s1" "a = region_name t1 k1 s1"
    "name_parts a = (t1, k1, s1)" by (rule wf_nameE)
  from assms(2) obtain t2 k2 s2 where b: "no_comma t2" "no_comma s2" "b = region_name t2 k2 s2"
    "name_parts b = (t2, k2, s2)" by (rule wf_nameE)
  obtain r where r: "(Compare a b :: ('e, int) outcome) = Ok r" "cmp_sign r (name_parts a) (name_parts b)"
    using Compare_names [of t1 t2 s1 s2 k1 k2] a b by auto
  moreover have "a = b \<longleftrightarrow> name_parts a = name_parts b" using assms name_parts_inj by blast
  ultimately show ?thesis unfolding cmp_sign_def name_less_def
    by (intro exI [of _ r]) (auto simp: not_less)
qed

lemma name_less_trans: "name_less a b \<Longrightarrow> name_less b c \<Longrightarrow> name_less a c"
  by (auto simp: name_less_def)

lemma name_less_irrefl [simp]: "\<not> name_less a a"
  by (simp add: name_less_def)

lemma name_less_asym: "name_less a b \<Longrightarrow> \<not> name_less b a"
  by (auto simp: name_less_def)

lemma name_less_linear: "wf_name a \<Longrightarrow> wf_name b \<Longrightarrow> a \<noteq> b \<Longrightarrow> name_less a b \<or> name_less b a"
  using name_parts_inj unfolding name_less_def by (metis linorder_neqE)

section \<open>Parsing a row of hbase:meta\<close>

definition regioninfo_cells :: "cell list \<Rightarrow> cell list" where
  "regioninfo_cells cls = filter (\<lambda>c. Qualifier c = str ''regioninfo'') cls"

definition server_cells :: "cell list \<Rightarrow> cell list" where
  "server_cells cls = filter (\<lambda>c. Qualifier c = str ''server'' \<and> Value c \<noteq> []) cls"

lemma qualifiers_distinct: "str ''regioninfo'' \<noteq> str ''server''"
  by (simp add: str_def)

lemma parse_cells_Ok_iff:
  "parse_cells u p cls reg addr = Ok (reg', addr') \<longleftrightarrow>
     (\<forall>c \<in> set (regioninfo_cells cls). \<exists>r. infoFromCell u p c = Ok r) \<and>
     (if regioninfo_cells cls = [] then reg' = reg
      else \<exists>r. infoFromCell u p (last (regioninfo_cells cls)) = Ok r \<and> reg' = Some r) \<and>
     addr' = (if server_cells cls = [] then addr else Value (last (server_cells cls)))"
  using qualifiers_distinct
  by (induction cls arbitrary: reg addr) (auto simp: regioninfo_cells_def server_cells_def)

section \<open>Availability of a region\<close>

text \<open>
  The attributes of \<^verbatim>\<open>info\<close> that change: the region client, the channel a waiter reads
  while the region is unavailable, and whether the region's context was cancelled. They
  live in a heap indexed by the region's identity; each operation of the code runs under
  the region's mutex and is one atomic step. Channels are numbered in the order they are
  made; closing one twice, or closing \<^verbatim>\<open>nil\<close>, panics.
\<close>

record region_state =
  rs_client :: "nat option"
  rs_available :: "nat option"
  rs_dead :: bool

record region_heap =
  rh_states :: "nat \<Rightarrow> region_state"
  rh_closed :: "nat set"
  rh_next :: nat

definition new_region_state :: region_state where
  "new_region_state = \<lparr>rs_client = None, rs_available = None, rs_dead = False\<rparr>"

definition init_heap :: region_heap where
  "init_heap = \<lparr>rh_states = (\<lambda>_. new_region_state), rh_closed = {}, rh_next = 0\<rparr>"

definition state_of :: "region_heap \<Rightarrow> region \<Rightarrow> region_state" where
  "state_of h r = rh_states h (ri_ptr r)"

definition upd_state :: "region \<Rightarrow> (region_state \<Rightarrow> region_state) \<Rightarrow> region_heap \<Rightarrow> region_heap" where
  "upd_state r f h = h\<lparr>rh_states := (rh_states h)(ri_ptr r := f (state_of h r))\<rparr>"

definition IsUnavailable :: "region_heap \<Rightarrow> region \<Rightarrow> bool" where
  "IsUnavailable h r = (rs_available (state_of h r) \<noteq> None)"

definition AvailabilityChan :: "region_heap \<Rightarrow> region \<Rightarrow> nat option" where
  "AvailabilityChan h r = rs_available (state_of h r)"

definition MarkUnavailable :: "region \<Rightarrow> region_heap \<Rightarrow> bool \<times> region_heap" where
  "MarkUnavailable r h =
     (if rs_available (state_of h r) = None
      then (True, upd_state r (\<lambda>s. s\<lparr>rs_available := Some (rh_next h)\<rparr>) (h\<lparr>rh_next := Suc (rh_next h)\<rparr>))
      else (False, h))"

definition close_chan :: "nat option \<Rightarrow> region_heap \<Rightarrow> ('e, region_heap) outcome" where
  "close_chan ch h =
     (case ch of
        None \<Rightarrow> Panic CloseOfNilChannel
      | Some c \<Rightarrow> if c \<in> rh_closed h then Panic CloseOfClosedChannel
          else Ok (h\<lparr>rh_closed := insert c (rh_closed h)\<rparr>))"

definition MarkAvailable :: "region \<Rightarrow> region_heap \<Rightarrow> ('e, region_heap) outcome" where
  "MarkAvailable r h =
     (let ch = rs_available (state_of h r);
          h1 = upd_state r (\<lambda>s. s\<lparr>rs_available := None\<rparr>) h
      in close_chan ch h1)"

definition MarkDead :: "region \<Rightarrow> region_heap \<Rightarrow> region_heap" where
  "MarkDead r h = upd_state r (\<lambda>s. s\<lparr>rs_dead := True\<rparr>) h"

definition ContextDone :: "region_heap \<Rightarrow> region \<Rightarrow> bool" where
  "ContextDone h r = rs_dead (state_of h r)"

definition Client :: "region_heap \<Rightarrow> region \<Rightarrow> nat option" where
  "Client h r = rs_client (state_of h r)"

definition SetClient :: "region \<Rightarrow> nat option \<Rightarrow> region_heap \<Rightarrow> region_heap" where
  "SetClient r c h = upd_state r (\<lambda>s. s\<lparr>rs_client := c\<rparr>) h"

subsection \<open>The availability protocol\<close>

text \<open>
  What the operations keep true: the channel of an unavailable region was made, is open,
  and belongs to no other region.
\<close>

definition heap_inv :: "region_heap \<Rightarrow> bool" where
  "heap_inv h \<longleftrightarrow>
     (\<forall>p c. rs_available (rh_states h p) = Some c \<longrightarrow> c < rh_next h \<and> c \<notin> rh_closed h) \<and>
     (\<forall>p q c. rs_available (rh_states h p) = Some c \<longrightarrow> rs_available (rh_states h q) = Some c \<longrightarrow> p = q) \<and>
     (\<forall>c \<in> rh_closed h. c < rh_next h)"

declare state_of_def [region_heap_defs]
  upd_state_def [region_heap_defs]
  IsUnavailable_def [region_heap_defs]
  AvailabilityChan_def [region_heap_defs]
  MarkUnavailable_def [region_heap_defs]
  MarkAvailable_def [region_heap_defs]
  MarkDead_def [region_heap_defs]
  ContextDone_def [region_heap_defs]
  Client_def [region_heap_defs]
  SetClient_def [region_heap_defs]
  close_chan_def [region_heap_defs]
  Let_def [region_heap_defs]

inductive region_step :: "region_heap \<Rightarrow> region_heap \<Rightarrow> bool" where
  mark_unavailable: "MarkUnavailable r h = (created, h') \<Longrightarrow> region_step h h'"
| mark_available: "(MarkAvailable r h :: (unit, region_heap) outcome) = Ok h' \<Longrightarrow> region_step h h'"
| mark_dead: "h' = MarkDead r h \<Longrightarrow> region_step h h'"
| set_client: "h' = SetClient r c h \<Longrightarrow> region_step h h'"

inductive_cases region_stepE: "region_step h h'"

lemma heap_inv_init: "heap_inv init_heap"
  by (simp add: heap_inv_def init_heap_def new_region_state_def)

lemma heap_inv_MarkUnavailable: "heap_inv h \<Longrightarrow> MarkUnavailable r h = (b, h') \<Longrightarrow> heap_inv h'"
  by (auto simp: heap_inv_def region_heap_defs split: if_splits) (force dest: less_SucI)+

lemma heap_inv_MarkAvailable: "heap_inv h \<Longrightarrow> MarkAvailable r h = Ok h' \<Longrightarrow> heap_inv h'"
  by (auto simp: heap_inv_def region_heap_defs split: option.splits if_splits)

lemma heap_inv_frame:
  assumes "\<And>p. rs_available (rh_states h' p) = rs_available (rh_states h p)"
    and "rh_closed h' = rh_closed h" "rh_next h' = rh_next h"
  shows "heap_inv h' \<longleftrightarrow> heap_inv h"
  by (simp add: heap_inv_def assms)

lemma heap_inv_MarkDead: "heap_inv (MarkDead r h) \<longleftrightarrow> heap_inv h"
  by (rule heap_inv_frame) (auto simp: region_heap_defs)

lemma heap_inv_SetClient: "heap_inv (SetClient r c h) \<longleftrightarrow> heap_inv h"
  by (rule heap_inv_frame) (auto simp: region_heap_defs)

lemma region_step_inv: "region_step h h' \<Longrightarrow> heap_inv h \<Longrightarrow> heap_inv h'"
  by (elim region_stepE)
    (auto simp: heap_inv_MarkDead heap_inv_SetClient
      dest: heap_inv_MarkUnavailable heap_inv_MarkAvailable)

lemma MarkUnavailable_result:
  assumes "MarkUnavailable r h = (created, h')"
  shows "created \<longleftrightarrow> \<not> IsUnavailable h r" "IsUnavailable h' r"
  using assms by (auto simp: region_heap_defs split: if_splits)

lemma MarkAvailable_cases:
  assumes "heap_inv h"
  shows "MarkAvailable r h =
    (case AvailabilityChan h r of
       None \<Rightarrow> Panic CloseOfNilChannel
     | Some c \<Rightarrow> Ok (upd_state r (\<lambda>s. s\<lparr>rs_available := None\<rparr>)
                     (h\<lparr>rh_closed := insert c (rh_closed h)\<rparr>)))"
  using assms by (auto simp: heap_inv_def region_heap_defs split: option.splits)

lemma region_step_waiter:
  assumes "region_step h h'" "heap_inv h"
    and "AvailabilityChan h r = Some c \<or> c \<in> rh_closed h"
  shows "AvailabilityChan h' r = Some c \<or> c \<in> rh_closed h'"
  using assms by (elim region_stepE) (auto simp: region_heap_defs split: if_splits option.splits)

lemma region_step_dead: "region_step h h' \<Longrightarrow> ContextDone h r \<Longrightarrow> ContextDone h' r"
  by (elim region_stepE) (auto simp: region_heap_defs split: if_splits option.splits)

lemma region_step_closed: "region_step h h' \<Longrightarrow> c \<in> rh_closed h \<Longrightarrow> c \<in> rh_closed h'"
  by (elim region_stepE) (auto simp: region_heap_defs split: if_splits option.splits)

interpretation heap: step_invariant region_step heap_inv
  by unfold_locales (rule region_step_inv)

interpretation waiter: step_invariant region_step
  "\<lambda>h. heap_inv h \<and> (AvailabilityChan h r = Some c \<or> c \<in> rh_closed h)" for r c
  by unfold_locales (blast intro: region_step_inv dest: region_step_waiter)

interpretation dead: step_invariant region_step "\<lambda>h. ContextDone h r" for r
  by unfold_locales (rule region_step_dead)

interpretation closed_chan: step_invariant region_step "\<lambda>h. c \<in> rh_closed h" for c
  by unfold_locales (rule region_step_closed)

section \<open>Properties\<close>

text \<open>
  C25. The comparison of region names is total on region names (it never panics) and its sign
  is that of the lexicographic comparison of table, start key and suffix, also when the
  start key holds commas and when one name extends the other.
\<close>

theorem Compare_lexicographic:
  assumes "no_comma t1" "no_comma t2" "no_comma s1" "no_comma s2"
  shows "\<exists>r. (Compare (region_name t1 k1 s1) (region_name t2 k2 s2) :: ('e, int) outcome) = Ok r \<and>
    (r < 0 \<longleftrightarrow> (t1, k1, s1) < (t2, k2, s2)) \<and> (r = 0 \<longleftrightarrow> (t1, k1, s1) = (t2, k2, s2)) \<and>
    (r > 0 \<longleftrightarrow> (t2, k2, s2) < (t1, k1, s1))"
proof -
  have "name_less (region_name t1 k1 s1) (region_name t2 k2 s2) \<longleftrightarrow> (t1, k1, s1) < (t2, k2, s2)"
    "name_less (region_name t2 k2 s2) (region_name t1 k1 s1) \<longleftrightarrow> (t2, k2, s2) < (t1, k1, s1)"
    using assms by (simp_all add: name_less_def)
  moreover have "region_name t1 k1 s1 = region_name t2 k2 s2 \<longleftrightarrow> (t1, k1, s1) = (t2, k2, s2)"
    using name_parts_region_name [OF assms(1,3)] name_parts_region_name [OF assms(2,4)]
    by (auto dest: arg_cong [where f = name_parts])
  ultimately show ?thesis
    using Compare_wf_names [of "region_name t1 k1 s1" "region_name t2 k2 s2"] assms by simp
qed

theorem Compare_lexicographic_witness:
  "\<exists>r. (Compare (region_name (str ''t'') (str ''a,b'') (str ''1.x.'')) (region_name (str ''t'') (str ''a'') [colon])
        :: (unit, int) outcome) = Ok r \<and>
    (r < 0 \<longleftrightarrow> (str ''t'', str ''a,b'', str ''1.x.'') < (str ''t'', str ''a'', [colon])) \<and>
    (r = 0 \<longleftrightarrow> (str ''t'', str ''a,b'', str ''1.x.'') = (str ''t'', str ''a'', [colon])) \<and>
    (r > 0 \<longleftrightarrow> (str ''t'', str ''a'', [colon]) < (str ''t'', str ''a,b'', str ''1.x.''))"
  by (rule Compare_lexicographic) code_simp+

text \<open>
  C26. A row of \<^verbatim>\<open>hbase:meta\<close> parses exactly when it has a \<^verbatim>\<open>regioninfo\<close> cell and a
  \<^verbatim>\<open>server\<close> cell with a value, and every \<^verbatim>\<open>regioninfo\<close> cell decodes; the region is that
  of the last \<^verbatim>\<open>regioninfo\<close> cell and the address the value of the last non-empty
  \<^verbatim>\<open>server\<close> cell.
\<close>

theorem ParseRegionInfo_exact:
  "ParseRegionInfo unmarshal p cls = Ok (reg, addr) \<longleftrightarrow>
     regioninfo_cells cls \<noteq> [] \<and> server_cells cls \<noteq> [] \<and>
     (\<forall>c \<in> set (regioninfo_cells cls). \<exists>r. infoFromCell unmarshal p c = Ok r) \<and>
     infoFromCell unmarshal p (last (regioninfo_cells cls)) = Ok reg \<and>
     addr = Value (last (server_cells cls))"
proof -
  have "Value (last (server_cells cls)) \<noteq> []" if "server_cells cls \<noteq> []"
    using last_in_set [OF that] by (simp add: server_cells_def)
  then show ?thesis
    by (auto simp: ParseRegionInfo_def parse_cells_Ok_iff split: option.splits if_splits)
qed

definition sample_meta_row :: "cell list" where
  "sample_meta_row = [
     \<lparr>Row = str ''t,,1.a.'', Family = str ''info'', Qualifier = str ''regioninfo'', Timestamp = None,
       CellType = None, Value = str ''PBUF''\<rparr>,
     \<lparr>Row = str ''t,,1.a.'', Family = str ''info'', Qualifier = str ''server'', Timestamp = None,
       CellType = None, Value = str ''host:1''\<rparr>]"

definition sample_unmarshal :: "bytes \<Rightarrow> string + region_info" where
  "sample_unmarshal b = Inr \<lparr>RegionId = Some 1,
     TableName = Some \<lparr>Namespace = str ''default'', TableQualifier = str ''t''\<rparr>,
     StartKey = [], EndKey = [], Offline = None\<rparr>"

theorem ParseRegionInfo_exact_witness:
  "regioninfo_cells sample_meta_row \<noteq> [] \<and> server_cells sample_meta_row \<noteq> [] \<and>
     infoFromCell sample_unmarshal 7 (last (regioninfo_cells sample_meta_row)) =
       Ok (NewInfo 7 1 None (str ''t'') (str ''t,,1.a.'') [] []) \<and>
     str ''host:1'' = Value (last (server_cells sample_meta_row))"
proof -
  have "ParseRegionInfo sample_unmarshal 7 sample_meta_row =
      Ok (NewInfo 7 1 None (str ''t'') (str ''t,,1.a.'') [] [], str ''host:1'')"
    by (simp add: ParseRegionInfo_def sample_meta_row_def sample_unmarshal_def infoFromCell_def str_def
      slice_def uint32_def pbufMagic_def GetOffline_def GetRegionId_def defaultNamespace_def)
  from ParseRegionInfo_exact [THEN iffD1, OF this] show ?thesis by blast
qed

text \<open>
  C20. No wake-up is lost: from any state the operations reach, whatever regions they act on
  and in whatever order, a goroutine that took the availability channel of an unavailable
  region either finds this channel still in place or finds it closed. Marking a region
  available closes exactly its channel and can only panic when the region is available.
\<close>

theorem availability_no_lost_wakeup:
  assumes "region_step\<^sup>*\<^sup>* init_heap h" "AvailabilityChan h r = Some c" "region_step\<^sup>*\<^sup>* h h'"
  shows "(AvailabilityChan h' r = Some c \<or> c \<in> rh_closed h') \<and>
    (AvailabilityChan h' r = Some c \<longrightarrow> c \<notin> rh_closed h' \<and>
      (\<exists>h2. (MarkAvailable r h' :: ('e, region_heap) outcome) = Ok h2 \<and> \<not> IsUnavailable h2 r \<and>
        rh_closed h2 = insert c (rh_closed h')))"
proof -
  have h: "heap_inv h"
    using assms(1) heap_inv_init by (rule heap.run_inv)
  have h': "heap_inv h'" "AvailabilityChan h' r = Some c \<or> c \<in> rh_closed h'"
    using waiter.run_inv [OF assms(3), of r c] h assms(2) by auto
  then show ?thesis
    using MarkAvailable_cases [OF h'(1), of r, where 'a = 'e]
    by (auto simp: heap_inv_def AvailabilityChan_def IsUnavailable_def state_of_def upd_state_def)
qed

theorem availability_no_lost_wakeup_witness:
  "let r = NewInfo 1 1 None [] [] [] []; h = snd (MarkUnavailable r init_heap) in
   (AvailabilityChan h r = Some 0 \<or> 0 \<in> rh_closed h) \<and>
   (AvailabilityChan h r = Some 0 \<longrightarrow> 0 \<notin> rh_closed h \<and>
     (\<exists>h2. (MarkAvailable r h :: (unit, region_heap) outcome) = Ok h2 \<and> \<not> IsUnavailable h2 r \<and>
       rh_closed h2 = insert 0 (rh_closed h)))"
  unfolding Let_def
proof (rule availability_no_lost_wakeup [OF r_into_rtranclp _ rtranclp.rtrancl_refl])
  show "region_step init_heap (snd (MarkUnavailable (NewInfo 1 1 None [] [] [] []) init_heap))"
    by (rule mark_unavailable [OF prod.collapse [symmetric]])
qed (simp add: region_heap_defs init_heap_def new_region_state_def)

text \<open>
  Among goroutines that mark the same available region unavailable only the first is told
  that it did, until the region is marked available again; so one goroutine re-establishes it.
\<close>

theorem MarkUnavailable_single_winner:
  assumes "\<not> IsUnavailable h r" "MarkUnavailable r h = (b1, h1)" "MarkUnavailable r h1 = (b2, h2)"
  shows "b1 \<and> \<not> b2 \<and> h2 = h1 \<and> IsUnavailable h1 r \<and> (\<forall>r'. ri_ptr r' \<noteq> ri_ptr r \<longrightarrow> state_of h1 r' = state_of h r')"
  using assms by (auto simp: region_heap_defs split: if_splits)

theorem MarkUnavailable_single_winner_witness:
  "let r = NewInfo 1 1 None [] [] [] []; h1 = snd (MarkUnavailable r init_heap) in
   True \<and> \<not> False \<and> h1 = h1 \<and> IsUnavailable h1 r \<and>
   (\<forall>r'. ri_ptr r' \<noteq> ri_ptr r \<longrightarrow> state_of h1 r' = state_of init_heap r')"
  unfolding Let_def
  by (rule MarkUnavailable_single_winner)
    (simp_all add: region_heap_defs init_heap_def new_region_state_def)

end
