(* ===== verification/Cellblock.thy ===== *)
theory Cellblock
  imports Pb
begin

text \<open>
  Cell blocks: the binary form in which HBase sends and receives cells beside a protobuf
  message. Decoding is \<^verbatim>\<open>cellFromCellBlock\<close> and \<^verbatim>\<open>deserializeCellBlocks\<close> of
  \<^verbatim>\<open>src/hrpc/call.go\<close>, encoding \<^verbatim>\<open>cellblockLen\<close> and \<^verbatim>\<open>appendCellblock\<close> of
  \<^verbatim>\<open>src/hrpc/mutate.go\<close>. Lengths are 32-bit words as in the code, so the sums wrap.
\<close>

section \<open>Decoding\<close>

datatype cell_error =
    BufferTooSmall int int
  | LiedAboutLength u32 u32

definition cellFromCellBlock :: "bytes \<Rightarrow> (cell_error, cell \<times> u32) outcome" where
  "cellFromCellBlock b =
     (if length b < 4 then Err (BufferTooSmall 4 (int (length b)))
      else and_then (slice b 0 4) (\<lambda>b0. and_then (uint32 b0) (\<lambda>kvLen.
        if length b < unat kvLen + 4
        then Err (BufferTooSmall (int (unat kvLen) + 4) (int (length b)))
        else
          and_then (slice b 4 8) (\<lambda>b4. and_then (uint32 b4) (\<lambda>rowKeyLen.
          and_then (slice b 8 12) (\<lambda>b8. and_then (uint32 b8) (\<lambda>valueLen.
          and_then (slice b 12 14) (\<lambda>b12. and_then (uint16 b12) (\<lambda>keyLen.
          and_then (slice_from b 14) (\<lambda>b.
          and_then (split_at (unat keyLen) b) (\<lambda>(key, b).
          and_then (index b 0) (\<lambda>familyLen.
          and_then (slice_from b 1) (\<lambda>b.
          and_then (split_at (unat familyLen) b) (\<lambda>(family, b).
            let qualifierLen = rowKeyLen - ucast keyLen - ucast familyLen - 2 - 1 - 8 - 1;
                expected = 4 + 4 + 2 + ucast keyLen + 1 + ucast familyLen + qualifierLen + 8 + 1 + valueLen
            in if expected \<noteq> kvLen then Err (LiedAboutLength kvLen expected)
            else
              and_then (split_at (unat qualifierLen) b) (\<lambda>(qualifier, b).
              and_then (slice b 0 8) (\<lambda>t. and_then (uint64 t) (\<lambda>timestamp.
              and_then (slice_from b 8) (\<lambda>b.
              and_then (index b 0) (\<lambda>cellType.
              and_then (slice_from b 1) (\<lambda>b.
              and_then (slice b 0 (unat valueLen)) (\<lambda>value.
                Ok (\<lparr>Row = key, Family = family, Qualifier = qualifier, Timestamp = Some timestamp,
                     CellType = Some cellType, Value = value\<rparr>, kvLen + 4))))))))))))))))))))))"

text \<open>
  The loop of \<^verbatim>\<open>deserializeCellBlocks\<close>: \<open>n\<close> cells remain, \<open>cells\<close> and \<open>readLen\<close> are
  what was read.
\<close>

fun deserialize_cells ::
  "nat \<Rightarrow> bytes \<Rightarrow> cell list \<Rightarrow> u32 \<Rightarrow> (cell_error, cell list \<times> u32) outcome" where
  "deserialize_cells 0 b cells readLen = Ok (cells, readLen)"
| "deserialize_cells (Suc n) b cells readLen =
     and_then (slice_from b (unat readLen)) (\<lambda>rest.
     and_then (cellFromCellBlock rest) (\<lambda>(c, l).
       deserialize_cells n b (cells @ [c]) (readLen + l)))"

definition deserializeCellBlocks :: "bytes \<Rightarrow> u32 \<Rightarrow> (cell_error, cell list \<times> u32) outcome" where
  "deserializeCellBlocks b cellsLen = deserialize_cells (unat cellsLen) b [] 0"

section \<open>Encoding\<close>

definition cellblockLen :: "nat \<Rightarrow> nat \<Rightarrow> nat \<Rightarrow> nat \<Rightarrow> nat" where
  "cellblockLen rowLen familyLen qualifierLen valueLen =
     (let keyLength = 2 + rowLen + 1 + familyLen + qualifierLen + 8 + 1;
          keyValueLength = 4 + 4 + keyLength + valueLen
      in 4 + keyValueLength)"

definition appendCellblock ::
  "bytes \<Rightarrow> bytes \<Rightarrow> bytes \<Rightarrow> bytes \<Rightarrow> u64 \<Rightarrow> byte \<Rightarrow> bytes \<Rightarrow> bytes" where
  "appendCellblock row family qualifier value ts typ cbs =
     (let keylength = 2 + length row + 1 + length family + length qualifier + 8 + 1;
          valuelength = length value;
          keyvaluelength = 4 + 4 + keylength + valuelength
      in cbs
         @ put_uint32 (word_of_nat keyvaluelength)
         @ put_uint32 (word_of_nat keylength)
         @ put_uint32 (word_of_nat valuelength)
         @ put_uint16 (word_of_nat (length row))
         @ row
         @ [word_of_nat (length family)]
         @ family
         @ qualifier
         @ put_uint64 ts
         @ [typ]
         @ value)"

lemma length_appendCellblock:
  "length (appendCellblock row family qualifier value ts typ cbs) =
    length cbs + cellblockLen (length row) (length family) (length qualifier) (length value)"
  by (simp add: appendCellblock_def cellblockLen_def Let_def)

lemma appendCellblock_append:
  "appendCellblock row family qualifier value ts typ cbs =
    cbs @ appendCellblock row family qualifier value ts typ []"
  by (simp add: appendCellblock_def Let_def)

text \<open>The encoding of a decoded cell, and the bounds under which its length fields are exact.\<close>

definition encode_cell :: "cell \<Rightarrow> bytes" where
  "encode_cell c = appendCellblock (Row c) (Family c) (Qualifier c) (Value c)
     (the (Timestamp c)) (the (CellType c)) []"

definition cell_len :: "cell \<Rightarrow> nat" where
  "cell_len c = cellblockLen (length (Row c)) (length (Family c)) (length (Qualifier c)) (length (Value c))"

definition encodable :: "cell \<Rightarrow> bool" where
  "encodable c \<longleftrightarrow> length (Row c) < 2 ^ 16 \<and> length (Family c) < 2 ^ 8 \<and> cell_len c < 2 ^ 32 \<and>
     Timestamp c \<noteq> None \<and> CellType c \<noteq> None"

lemma length_encode_cell [simp]: "length (encode_cell c) = cell_len c"
  by (simp add: encode_cell_def cell_len_def length_appendCellblock)

lemma cell_len_pos: "24 \<le> cell_len c"
  by (simp add: cell_len_def cellblockLen_def Let_def)

section \<open>Decoding inverts encoding\<close>

text \<open>
  The layout a successful decoding finds: the length fields, the parts they measure, and
  what follows. This is what decoding does, with every bounds check resolved.
\<close>

lemma slice_0_eq_Ok: "slice b 0 n = Ok x \<longleftrightarrow> (\<exists>r. b = x @ r \<and> length x = n)"
  by (auto simp: slice_def) (metis append_take_drop_id)

lemma slice_eq_Ok:
  "slice b lo hi = Ok x \<longleftrightarrow> (\<exists>p r. b = p @ x @ r \<and> length p = lo \<and> lo + length x = hi)"
proof
  assume "slice b lo hi = Ok x"
  then have "lo \<le> hi" "hi \<le> length b" "x = take (hi - lo) (drop lo b)" by (auto simp: slice_def split: if_splits)
  moreover have "b = take lo b @ take (hi - lo) (drop lo b) @ drop (hi - lo) (drop lo b)"
    by (simp only: append_take_drop_id)
  ultimately show "\<exists>p r. b = p @ x @ r \<and> length p = lo \<and> lo + length x = hi"
    by (intro exI [of _ "take lo b"] exI [of _ "drop (hi - lo) (drop lo b)"]) simp
qed (auto simp: slice_def)

lemma slice_from_eq_Ok: "slice_from b n = Ok y \<longleftrightarrow> (\<exists>x. b = x @ y \<and> length x = n)"
  by (auto simp: slice_from_def) (metis append_take_drop_id length_take min.absorb2)

lemma cellFromCellBlock_parts:
  assumes q: "ql = rl - ucast kl - ucast fl - 2 - 1 - 8 - 1"
    and len: "4 + 4 + 2 + ucast kl + 1 + ucast fl + ql + 8 + 1 + vl = kv"
    and b: "b = put_uint32 kv @ put_uint32 rl @ put_uint32 vl @ put_uint16 kl @ row @ [fl] @ fam
      @ qual @ put_uint64 ts @ [typ] @ val @ rest"
    and parts: "length row = unat kl" "length fam = unat fl" "length qual = unat ql" "length val = unat vl"
    and kv: "unat kv + 4 \<le> length b"
  shows "cellFromCellBlock b = Ok (\<lparr>Row = row, Family = fam, Qualifier = qual, Timestamp = Some ts,
    CellType = Some typ, Value = val\<rparr>, kv + 4)"
proof -
  let ?r5 = "val @ rest" let ?r4 = "put_uint64 ts @ typ # ?r5" let ?r3 = "fam @ qual @ ?r4"
  have s: "slice b 0 4 = Ok (put_uint32 kv)" "slice b 4 8 = Ok (put_uint32 rl)"
    "slice b 8 12 = Ok (put_uint32 vl)" "slice b 12 14 = Ok (put_uint16 kl)"
    "slice_from b 14 = Ok (row @ fl # ?r3)"
    unfolding b by (simp_all add: slice_def slice_from_def)
  have parts': "split_at (unat kl) (row @ fl # ?r3) = Ok (row, fl # ?r3)"
    "split_at (unat fl) ?r3 = Ok (fam, qual @ ?r4)" "split_at (unat ql) (qual @ ?r4) = Ok (qual, ?r4)"
    "slice ?r4 0 8 = Ok (put_uint64 ts)" "slice_from ?r4 8 = Ok (typ # ?r5)" "slice ?r5 0 (unat vl) = Ok val"
    using parts by (simp_all add: split_at_appendI slice_appendI slice_from_appendI)
  have "\<not> length b < 4" "\<not> length b < unat kv + 4" using kv by simp_all
  then show ?thesis
    unfolding cellFromCellBlock_def q [symmetric]
    by (simp only: s parts' and_then.simps if_False prod.case Let_def len not_True_eq_False simp_thms
        uint32_put_Nil uint16_put_Nil uint64_put_Nil index_Cons_0 slice_from_Cons_1 q [symmetric])
qed

abbreviation CellOk :: "'a \<Rightarrow> (cell_error, 'a) outcome" where "CellOk \<equiv> Ok"

lemma cellFromCellBlock_stmts:
  assumes "cellFromCellBlock b = Ok (c, n)"
  obtains b0 kv b4 rl b8 vl b12 kl b14 key r1 fl r2 fam r3 ql qual r4 t ts r5 ty r6 val where
    "slice b 0 4 = CellOk b0" "uint32 b0 = CellOk kv" "\<not> length b < unat kv + 4"
      "slice b 4 8 = CellOk b4" "uint32 b4 = CellOk rl" "slice b 8 12 = CellOk b8" "uint32 b8 = CellOk vl"
      "slice b 12 14 = CellOk b12" "uint16 b12 = CellOk kl" "slice_from b 14 = CellOk b14"
      "split_at (unat kl) b14 = CellOk (key, r1)" "index r1 0 = CellOk fl" "slice_from r1 1 = CellOk r2"
      "split_at (unat fl) r2 = CellOk (fam, r3)"
      "ql = rl - ucast kl - ucast fl - 2 - 1 - 8 - 1"
      "4 + 4 + 2 + ucast kl + 1 + ucast fl + ql + 8 + 1 + vl = kv"
      "split_at (unat ql) r3 = CellOk (qual, r4)" "slice r4 0 8 = CellOk t" "uint64 t = CellOk ts"
      "slice_from r4 8 = CellOk r5" "index r5 0 = CellOk ty" "slice_from r5 1 = CellOk r6"
      "slice r6 0 (unat vl) = CellOk val" "n = kv + 4"
      "c = \<lparr>Row = key, Family = fam, Qualifier = qual, Timestamp = Some ts, CellType = Some ty, Value = val\<rparr>"
proof -
  show thesis using assms unfolding cellFromCellBlock_def Let_def
    by (elim ok_elims) (rule that, (assumption | rule refl | erule notnotD | simp)+)
qed

lemma cellFromCellBlock_Ok:
  assumes "cellFromCellBlock b = Ok (c, n)"
  obtains kv rl vl kl fl ql ts ty rest where
    "ql = rl - ucast kl - ucast fl - 2 - 1 - 8 - 1"
    "4 + 4 + 2 + ucast kl + 1 + ucast fl + ql + 8 + 1 + vl = kv"
    "b = put_uint32 kv @ put_uint32 rl @ put_uint32 vl @ put_uint16 kl @ Row c @ [fl] @ Family c
      @ Qualifier c @ put_uint64 ts @ [ty] @ Value c @ rest"
    "length (Row c) = unat kl" "length (Family c) = unat fl" "length (Qualifier c) = unat ql"
    "length (Value c) = unat vl" "unat kv + 4 \<le> length b" "n = kv + 4"
    "Timestamp c = Some ts" "CellType c = Some ty"
proof -
  from assms obtain b0 kv b4 rl b8 vl b12 kl b14 key r1 fl r2 fam r3 ql qual r4 t ts r5 ty r6 val where
    0: "slice b 0 4 = CellOk b0" "uint32 b0 = CellOk kv" "\<not> length b < unat kv + 4"
      "slice b 4 8 = CellOk b4" "uint32 b4 = CellOk rl" "slice b 8 12 = CellOk b8" "uint32 b8 = CellOk vl"
      "slice b 12 14 = CellOk b12" "uint16 b12 = CellOk kl" "slice_from b 14 = CellOk b14"
    and 1: "split_at (unat kl) b14 = CellOk (key, r1)" "index r1 0 = CellOk fl" "slice_from r1 1 = CellOk r2"
      "split_at (unat fl) r2 = CellOk (fam, r3)"
    and 2: "ql = rl - ucast kl - ucast fl - 2 - 1 - 8 - 1"
      "4 + 4 + 2 + ucast kl + 1 + ucast fl + ql + 8 + 1 + vl = kv"
    and 3: "split_at (unat ql) r3 = CellOk (qual, r4)" "slice r4 0 8 = CellOk t" "uint64 t = CellOk ts"
      "slice_from r4 8 = CellOk r5" "index r5 0 = CellOk ty" "slice_from r5 1 = CellOk r6"
      "slice r6 0 (unat vl) = CellOk val" "n = kv + 4"
    and c: "c = \<lparr>Row = key, Family = fam, Qualifier = qual, Timestamp = Some ts, CellType = Some ty, Value = val\<rparr>"
    by (rule cellFromCellBlock_stmts)
  have r1: "r1 = fl # r2" using 1(2,3) by (cases r1) (auto simp: index_def slice_from_def split: if_splits)
  have r5: "r5 = ty # r6" using 3(5,6) by (cases r5) (auto simp: index_def slice_from_def split: if_splits)
  obtain rest where r6: "r6 = val @ rest" "length val = unat vl" using 3(7) by (auto simp: slice_0_eq_Ok)
  have r4: "r4 = put_uint64 ts @ r5"
    using 3(2-4) put_uint64_get [of t ts] by (auto simp: slice_0_eq_Ok slice_from_eq_Ok)
  have step: "drop n b = take m (drop n b) @ drop (n + m) b" for n m
    by (metis add.commute append_take_drop_id drop_drop)
  have "b0 = take 4 b" "b4 = take 4 (drop 4 b)" "b8 = take 4 (drop 8 b)" "b12 = take 2 (drop 12 b)"
    "b14 = drop 14 b"
    using 0(1,4,6,8,10) by (simp_all add: slice_def slice_from_def split: if_splits)
  moreover have "b = take 4 b @ drop 4 b" "drop 4 b = take 4 (drop 4 b) @ drop 8 b"
    "drop 8 b = take 4 (drop 8 b) @ drop 12 b" "drop 12 b = take 2 (drop 12 b) @ drop 14 b"
    using step [of 0 4] step [of 4 4] step [of 8 4] step [of 12 2] by simp_all
  ultimately have "b = b0 @ b4 @ b8 @ b12 @ b14" by metis
  moreover have "length b0 = 4" "length b4 = 4" "length b8 = 4" "length b12 = 2"
    using 0 by (auto simp: slice_eq_Ok)
  ultimately have b: "b = put_uint32 kv @ put_uint32 rl @ put_uint32 vl @ put_uint16 kl @ b14"
    using 0 by (simp add: put_uint32_get put_uint16_get)
  show thesis
    by (rule that [OF 2, where rest = rest and ts = ts and ty = ty])
      (use b 0(3) 1 3 r1 r5 r6 r4 in \<open>simp_all add: c split_at_eq_Ok\<close>)
qed

lemma ucast_word_of_nat:
  assumes "n < 2 ^ LENGTH('a)" "LENGTH('a) \<le> LENGTH('b)"
  shows "(ucast (word_of_nat n :: 'a::len word) :: 'b::len word) = word_of_nat n"
proof -
  have "unat (word_of_nat n :: 'a word) = n"
    using assms(1) by (simp add: unsigned_of_nat take_bit_eq_mod)
  then show ?thesis by (metis of_nat_unat)
qed

lemma unat_word_of_nat: "n < 2 ^ LENGTH('a) \<Longrightarrow> unat (word_of_nat n :: 'a::len word) = n"
  by (simp add: unsigned_of_nat take_bit_eq_mod)

lemma cellFromCellBlock_encode:
  assumes "encodable c"
  shows "cellFromCellBlock (encode_cell c @ rest) = Ok (c, word_of_nat (cell_len c))"
proof -
  obtain ts ty where c: "Timestamp c = Some ts" "CellType c = Some ty"
    using assms by (auto simp: encodable_def)
  define lr lf lq lv where "lr = length (Row c)" and "lf = length (Family c)"
    and "lq = length (Qualifier c)" and "lv = length (Value c)"
  note lens = lr_def lf_def lq_def lv_def
  have bnd: "lr < 2 ^ 16" "lf < 2 ^ 8" "8 + (12 + lr + lf + lq) + lv + 4 < 2 ^ 32"
    using assms by (auto simp: encodable_def cell_len_def cellblockLen_def lens Let_def)
  let ?kv = "word_of_nat (8 + (12 + lr + lf + lq) + lv) :: u32" and ?rl = "word_of_nat (12 + lr + lf + lq) :: u32"
    and ?vl = "word_of_nat lv :: u32" and ?kl = "word_of_nat lr :: u16" and ?fl = "word_of_nat lf :: byte"
    and ?ql = "word_of_nat lq :: u32"
  have u: "(ucast ?kl :: u32) = word_of_nat lr" "(ucast ?fl :: u32) = word_of_nat lf"
    using bnd by (simp_all add: ucast_word_of_nat)
  have "cellFromCellBlock (encode_cell c @ rest) = Ok (\<lparr>Row = Row c, Family = Family c,
    Qualifier = Qualifier c, Timestamp = Some ts, CellType = Some ty, Value = Value c\<rparr>, ?kv + 4)"
  proof (rule cellFromCellBlock_parts [where rl = ?rl and kl = ?kl and fl = ?fl and ql = ?ql and vl = ?vl])
    show "encode_cell c @ rest = put_uint32 ?kv @ put_uint32 ?rl @ put_uint32 ?vl @ put_uint16 ?kl @ Row c
      @ [?fl] @ Family c @ Qualifier c @ put_uint64 ts @ [ty] @ Value c @ rest"
      by (simp add: encode_cell_def appendCellblock_def c lens Let_def add_ac)
    have "unat ?kv = 8 + (12 + lr + lf + lq) + lv" using bnd by (intro unat_word_of_nat) simp
    then show "unat ?kv + 4 \<le> length (encode_cell c @ rest)"
      by (simp only:) (simp add: cell_len_def cellblockLen_def lens Let_def)
  qed (use bnd in \<open>simp_all add: u unat_word_of_nat flip: lens\<close>)
  moreover have "?kv + 4 = word_of_nat (cell_len c)"
    by (simp add: cell_len_def cellblockLen_def lens Let_def)
  ultimately show ?thesis using c by (cases c) simp
qed

lemma cellFromCellBlock_decode:
  assumes "cellFromCellBlock b = Ok (c, n)" "length b < 2 ^ 32"
  shows "encodable c \<and> n = word_of_nat (cell_len c) \<and> (\<exists>rest. b = encode_cell c @ rest)"
  using assms(1)
proof (rule cellFromCellBlock_Ok)
  fix kv rl vl kl fl ql ts ty rest
  assume q: "ql = rl - ucast kl - ucast fl - 2 - 1 - 8 - 1"
    and kv: "4 + 4 + 2 + ucast kl + 1 + ucast fl + ql + 8 + 1 + vl = kv"
    and b: "b = put_uint32 kv @ put_uint32 rl @ put_uint32 vl @ put_uint16 kl @ Row c @ [fl] @ Family c
      @ Qualifier c @ put_uint64 ts @ [ty] @ Value c @ rest"
    and parts: "length (Row c) = unat kl" "length (Family c) = unat fl" "length (Qualifier c) = unat ql"
    "length (Value c) = unat vl" and n: "n = kv + 4" "Timestamp c = Some ts" "CellType c = Some ty"
  have len: "length b = cell_len c + length rest"
    by (simp add: b cell_len_def cellblockLen_def Let_def)
  have words: "word_of_nat (length (Row c)) = (ucast kl :: u32)" "word_of_nat (length (Row c)) = kl"
    "word_of_nat (length (Family c)) = (ucast fl :: u32)" "word_of_nat (length (Family c)) = fl"
    "word_of_nat (length (Qualifier c)) = ql" "word_of_nat (length (Value c)) = vl"
    unfolding parts by (simp_all add: of_nat_unat)
  have "b = encode_cell c @ rest"
    using n by (simp add: b encode_cell_def appendCellblock_def Let_def words q flip: kv) 
  moreover have "n = word_of_nat (cell_len c)"
    by (simp add: n(1) cell_len_def cellblockLen_def Let_def words flip: kv)
  moreover have "encodable c"
    using assms(2) len unat_less [of kl] unat_less [of fl] n by (simp add: encodable_def parts)
  ultimately show ?thesis by blast
qed

text \<open>Decoding on buffers shorter than four gigabytes: exactly the encodings are accepted.\<close>

lemma cellFromCellBlock_iff:
  assumes "length b < 2 ^ 32"
  shows "cellFromCellBlock b = Ok (c, n) \<longleftrightarrow>
    encodable c \<and> n = word_of_nat (cell_len c) \<and> (\<exists>rest. b = encode_cell c @ rest)"
  using cellFromCellBlock_decode [OF _ assms] cellFromCellBlock_encode by blast

section \<open>Buffers that end early\<close>

lemma cellFromCellBlock_head:
  assumes "unat kv \<le> length r" "length r < 10"
  shows "cellFromCellBlock (put_uint32 kv @ r) = Panic IndexOutOfRange"
  using assms by (simp add: cellFromCellBlock_def slice_appendI slice_def slice_from_def) (simp add: uint32_def)

text \<open>What decoding does once the fixed fields were read.\<close>

lemma cellFromCellBlock_tail:
  assumes "unat kv \<le> 10 + length r"
  shows "cellFromCellBlock (put_uint32 kv @ put_uint32 rl @ put_uint32 vl @ put_uint16 kl @ r) =
    and_then (split_at (unat kl) r) (\<lambda>(key, b).
    and_then (index b 0) (\<lambda>fl.
    and_then (slice_from b 1) (\<lambda>b.
    and_then (split_at (unat fl) b) (\<lambda>(family, b).
      if 8 + rl + vl \<noteq> kv then Err (LiedAboutLength kv (8 + rl + vl))
      else
        and_then (split_at (unat (rl - 12 - ucast kl - ucast fl)) b) (\<lambda>(qualifier, b).
        and_then (slice b 0 8) (\<lambda>t. and_then (uint64 t) (\<lambda>timestamp.
        and_then (slice_from b 8) (\<lambda>b.
        and_then (index b 0) (\<lambda>cellType.
        and_then (slice_from b 1) (\<lambda>b.
        and_then (slice b 0 (unat vl)) (\<lambda>value.
          Ok (\<lparr>Row = key, Family = family, Qualifier = qualifier, Timestamp = Some timestamp,
               CellType = Some cellType, Value = value\<rparr>, kv + 4))))))))))))"
proof -
  let ?b = "put_uint32 kv @ put_uint32 rl @ put_uint32 vl @ put_uint16 kl @ r"
  have s: "slice ?b 0 4 = CellOk (put_uint32 kv)" "slice ?b 4 8 = CellOk (put_uint32 rl)"
    "slice ?b 8 12 = CellOk (put_uint32 vl)" "slice ?b 12 14 = CellOk (put_uint16 kl)" "slice_from ?b 14 = CellOk r"
    by (simp_all add: slice_def slice_from_def)
  have len: "\<not> length ?b < 4" "\<not> length ?b < unat kv + 4" using assms by simp_all
  have w: "rl - ucast kl - ucast fl - 2 - 1 - 8 - 1 = rl - 12 - ucast kl - ucast fl"
    "4 + 4 + 2 + ucast kl + 1 + ucast fl + (rl - 12 - ucast kl - ucast fl) + 8 + 1 + vl = 8 + rl + vl" for fl :: byte
    by (simp_all add: algebra_simps)
  show ?thesis
    unfolding cellFromCellBlock_def Let_def
    by (simp only: s len and_then.simps if_False uint32_put_Nil uint16_put_Nil w)
qed

lemma bytes_split4: "4 \<le> length b \<Longrightarrow> \<exists>w r. b = put_uint32 w @ r"
proof -
  assume b: "4 \<le> length b"
  then obtain w where "uint32 (take 4 b) = CellOk w" by (auto simp: uint32_def)
  then have "take 4 b = put_uint32 w" using b by (auto simp: put_uint32_get)
  then show ?thesis by (metis append_take_drop_id)
qed

lemma bytes_split2: "2 \<le> length b \<Longrightarrow> \<exists>w r. b = put_uint16 w @ r"
proof -
  assume b: "2 \<le> length b"
  then obtain w where "uint16 (take 2 b) = CellOk w" by (auto simp: uint16_def)
  then have "take 2 b = put_uint16 w" using b by (auto simp: put_uint16_get)
  then show ?thesis by (metis append_take_drop_id)
qed

lemma fixed_fields:
  assumes "10 \<le> length r"
  obtains rl vl kl r' where "r = put_uint32 rl @ put_uint32 vl @ put_uint16 kl @ r'"
proof -
  obtain rl r1 where r1: "r = put_uint32 rl @ r1" using bytes_split4 [of r] assms by auto
  then obtain vl r2 where r2: "r1 = put_uint32 vl @ r2" using bytes_split4 [of r1] assms by auto
  then obtain kl r3 where "r2 = put_uint16 kl @ r3" using bytes_split2 [of r2] assms r1 by auto
  then show thesis using that r1 r2 by simp
qed

text \<open>
  A block whose parts reach beyond the buffer although its announced length does not: the
  buffer ends within the fixed fields, the row, the length of the family or the family; or,
  the announced length being the sum of the announced parts modulo \<open>2 ^ 32\<close>, within the
  qualifier, the timestamp, the type or the value.
\<close>

definition overrun :: "u32 \<Rightarrow> u32 \<Rightarrow> u32 \<Rightarrow> u16 \<Rightarrow> byte \<Rightarrow> bytes \<Rightarrow> bool" where
  "overrun kv rl vl kl fl b \<longleftrightarrow> length b < unat fl \<or>
     8 + rl + vl = kv \<and> length b < unat fl + unat (rl - 12 - ucast kl - ucast fl) + 9 + unat vl"

lemma cellFromCellBlock_row:
  assumes "unat kv \<le> 10 + length r"
  shows "length r \<le> unat kl \<Longrightarrow>
      cellFromCellBlock (put_uint32 kv @ put_uint32 rl @ put_uint32 vl @ put_uint16 kl @ r) = Panic IndexOutOfRange"
    and "r = row @ fl # b \<Longrightarrow> length row = unat kl \<Longrightarrow>
      cellFromCellBlock (put_uint32 kv @ put_uint32 rl @ put_uint32 vl @ put_uint16 kl @ r) = Panic p \<longleftrightarrow>
        p = IndexOutOfRange \<and> overrun kv rl vl kl fl b"
proof -
  let ?b = "put_uint32 kv @ put_uint32 rl @ put_uint32 vl @ put_uint16 kl @ r"
  show "cellFromCellBlock ?b = Panic IndexOutOfRange" if "length r \<le> unat kl"
    using that unfolding cellFromCellBlock_tail [OF assms] by (auto simp: split_at_def index_def)
  assume "r = row @ fl # b" "length row = unat kl"
  then have at: "split_at (unat kl) r = CellOk (row, fl # b)" by (simp add: split_at_eq_Ok)
  show "cellFromCellBlock ?b = Panic p \<longleftrightarrow> p = IndexOutOfRange \<and> overrun kv rl vl kl fl b"
    unfolding cellFromCellBlock_tail [OF assms] at and_then.simps prod.case index_Cons_0 slice_from_Cons_1 overrun_def
    by (auto simp: split_at_def index_def slice_def slice_from_def uint64_def)
qed

definition truncated_cell :: "bytes \<Rightarrow> bool" where
  "truncated_cell b \<longleftrightarrow> (\<exists>kv r. b = put_uint32 kv @ r \<and> unat kv \<le> length r \<and>
     (length r < 10 \<or> (\<exists>rl vl kl r'. r = put_uint32 rl @ put_uint32 vl @ put_uint16 kl @ r' \<and>
        (length r' \<le> unat kl \<or>
         (\<exists>row fl r''. r' = row @ fl # r'' \<and> length row = unat kl \<and> overrun kv rl vl kl fl r'')))))"

section \<open>Several cells\<close>

definition encode_cells :: "cell list \<Rightarrow> bytes" where
  "encode_cells cs = concat (map encode_cell cs)"

lemma encode_cells_simps [simp]:
  "encode_cells [] = []" "encode_cells (c # cs) = encode_cell c @ encode_cells cs"
  by (simp_all add: encode_cells_def)

lemma deserialize_cells_iff:
  assumes "length (pre @ b) < 2 ^ 32"
  shows "deserialize_cells n (pre @ b) acc (word_of_nat (length pre)) = Ok (cells, read) \<longleftrightarrow>
    (\<exists>cs rest. cells = acc @ cs \<and> length cs = n \<and> (\<forall>c \<in> set cs. encodable c) \<and>
      b = encode_cells cs @ rest \<and> read = word_of_nat (length pre + length (encode_cells cs)))"
  using assms
proof (induction n arbitrary: pre b acc)
  case 0
  then show ?case by auto
next
  case (Suc n)
  have pos: "unat (word_of_nat (length pre) :: u32) = length pre"
    using Suc.prems by (intro unat_word_of_nat) simp
  have slice: "(slice_from (pre @ b) (length pre) :: (cell_error, bytes) outcome) = Ok b" by simp
  have step: "deserialize_cells (Suc n) (pre @ b) acc (word_of_nat (length pre)) = Ok (cells, read) \<longleftrightarrow>
    (\<exists>c rest. encodable c \<and> b = encode_cell c @ rest \<and>
      deserialize_cells n ((pre @ encode_cell c) @ rest) (acc @ [c]) (word_of_nat (length (pre @ encode_cell c)))
        = Ok (cells, read))"
    using Suc.prems by (auto simp: pos slice cellFromCellBlock_iff) 
  have IH: "deserialize_cells n ((pre @ encode_cell c) @ rest) (acc @ [c]) (word_of_nat (length (pre @ encode_cell c)))
      = Ok (cells, read) \<longleftrightarrow>
    (\<exists>cs r. cells = (acc @ [c]) @ cs \<and> length cs = n \<and> (\<forall>c \<in> set cs. encodable c) \<and>
      rest = encode_cells cs @ r \<and> read = word_of_nat (length (pre @ encode_cell c) + length (encode_cells cs)))"
    if "b = encode_cell c @ rest" for c rest
    using Suc.prems that by (intro Suc.IH) simp
  show ?case unfolding step
  proof safe
    fix c rest
    assume c: "encodable c" "b = encode_cell c @ rest" "deserialize_cells n ((pre @ encode_cell c) @ rest) (acc @ [c])
      (word_of_nat (length (pre @ encode_cell c))) = Ok (cells, read)"
    from IH [OF c(2), THEN iffD1, OF c(3)] obtain cs r where
      "cells = (acc @ [c]) @ cs" "length cs = n" "\<forall>c \<in> set cs. encodable c" "rest = encode_cells cs @ r"
      "read = word_of_nat (length (pre @ encode_cell c) + length (encode_cells cs))" by blast
    with c(1) show "\<exists>cs rest'. cells = acc @ cs \<and> length cs = Suc n \<and> (\<forall>c \<in> set cs. encodable c) \<and>
      encode_cell c @ rest = encode_cells cs @ rest' \<and> read = word_of_nat (length pre + length (encode_cells cs))"
      by (intro exI [of _ "c # cs"] exI [of _ r]) (simp add: add.assoc)
  next
    fix cs rest
    assume "length cs = Suc n" "\<forall>c \<in> set cs. encodable c" "b = encode_cells cs @ rest" "cells = acc @ cs"
      "read = word_of_nat (length pre + length (encode_cells cs))"
    then show "\<exists>c rest'. encodable c \<and> encode_cells cs @ rest = encode_cell c @ rest' \<and>
      deserialize_cells n ((pre @ encode_cell c) @ rest') (acc @ [c]) (word_of_nat (length (pre @ encode_cell c)))
        = Ok (acc @ cs, word_of_nat (length pre + length (encode_cells cs)))"
      using IH by (cases cs) (auto intro!: exI)
  qed
qed

section \<open>Properties\<close>

text \<open>
  C23. Decoding the cells of a response accepts exactly the buffers that start with the
  encodings of the requested number of cells, returns these cells in order, and reports the
  number of bytes they take; no length field can make it return anything else. The buffer
  is shorter than four gigabytes, so that no 32-bit length wraps.
\<close>

theorem deserializeCellBlocks_exact:
  assumes "length b < 2 ^ 32"
  shows "deserializeCellBlocks b n = Ok (cells, read) \<longleftrightarrow>
    length cells = unat n \<and> (\<forall>c \<in> set cells. encodable c) \<and>
    (\<exists>rest. b = encode_cells cells @ rest \<and> read = word_of_nat (length (encode_cells cells)))"
  using deserialize_cells_iff [of "[]" b "unat n" "[]"] assms
  by (auto simp: deserializeCellBlocks_def)

definition sample_cell :: cell where
  "sample_cell = \<lparr>Row = str ''r'', Family = str ''f'', Qualifier = [], Timestamp = Some 5,
     CellType = Some 4, Value = str ''v''\<rparr>"

lemma encodable_sample_cell: "encodable sample_cell"
  by (simp add: sample_cell_def encodable_def cell_len_def cellblockLen_def str_def)

theorem deserializeCellBlocks_exact_witness:
  "deserializeCellBlocks (encode_cells [sample_cell]) 1 =
     Ok ([sample_cell], word_of_nat (length (encode_cells [sample_cell]))) \<longleftrightarrow>
    length [sample_cell] = unat (1 :: u32) \<and> (\<forall>c \<in> set [sample_cell]. encodable c) \<and>
    (\<exists>rest. encode_cells [sample_cell] = encode_cells [sample_cell] @ rest \<and>
      (word_of_nat (length (encode_cells [sample_cell])) :: u32) = word_of_nat (length (encode_cells [sample_cell])))"
  by (rule deserializeCellBlocks_exact)
    (simp add: sample_cell_def cell_len_def cellblockLen_def str_def)

text \<open>
  A cell whose parts fit their length fields is written in \<^verbatim>\<open>cellblockLen\<close> bytes after what
  the buffer holds, and reading at that place gives the cell back with the number of bytes
  it takes.
\<close>

theorem cellblock_roundtrip:
  assumes "length row < 2 ^ 16" "length family < 2 ^ 8"
    and "cellblockLen (length row) (length family) (length qualifier) (length value) < 2 ^ 32"
  shows "\<exists>cb. appendCellblock row family qualifier value ts ty cbs = cbs @ cb \<and>
    length cb = cellblockLen (length row) (length family) (length qualifier) (length value) \<and>
    cellFromCellBlock (cb @ rest) =
      Ok (\<lparr>Row = row, Family = family, Qualifier = qualifier, Timestamp = Some ts, CellType = Some ty,
           Value = value\<rparr>, word_of_nat (length cb))"
proof -
  let ?c = "\<lparr>Row = row, Family = family, Qualifier = qualifier, Timestamp = Some ts, CellType = Some ty, Value = value\<rparr>"
  have "encodable ?c" using assms by (simp add: encodable_def cell_len_def)
  from cellFromCellBlock_encode [OF this, of rest] show ?thesis
    by (intro exI [of _ "encode_cell ?c"]) (simp add: encode_cell_def cell_len_def length_appendCellblock flip: appendCellblock_append)
qed

theorem cellblock_roundtrip_witness:
  "\<exists>cb. appendCellblock (str ''r'') (str ''f'') (str ''q'') (str ''v'') 5 4 (str ''x'') = str ''x'' @ cb \<and>
    length cb = cellblockLen (length (str ''r'')) (length (str ''f'')) (length (str ''q'')) (length (str ''v'')) \<and>
    cellFromCellBlock (cb @ str ''y'') =
      Ok (\<lparr>Row = str ''r'', Family = str ''f'', Qualifier = str ''q'', Timestamp = Some 5, CellType = Some 4,
           Value = str ''v''\<rparr>, word_of_nat (length cb))"
  by (rule cellblock_roundtrip) (simp_all add: str_def cellblockLen_def)

text \<open>
  C37. Decoding a cell panics, instead of returning an error, exactly on these buffers: the
  announced length is compared with the buffer before the parts are read, but with the parts
  only after the row and the family were read, and modulo \<open>2 ^ 32\<close>. On every other buffer a cell
  or an error is returned.
\<close>

theorem cellFromCellBlock_panics:
  "cellFromCellBlock b = Panic p \<longleftrightarrow> p = IndexOutOfRange \<and> truncated_cell b"
proof
  assume panic: "cellFromCellBlock b = Panic p"
  then have "4 \<le> length b" by (auto simp: cellFromCellBlock_def split: if_splits)
  then obtain kv r where b: "b = put_uint32 kv @ r" using bytes_split4 by blast
  have kv: "unat kv \<le> length r"
    using panic by (auto simp: b cellFromCellBlock_def slice_appendI split: if_splits)
  show "p = IndexOutOfRange \<and> truncated_cell b"
  proof (cases "length r < 10")
    case True
    then show ?thesis using panic cellFromCellBlock_head [OF kv] kv b by (auto simp: truncated_cell_def)
  next
    case False
    then have "10 \<le> length r" by simp
    then obtain rl vl kl r' where r: "r = put_uint32 rl @ put_uint32 vl @ put_uint16 kl @ r'" by (rule fixed_fields)
    then have kv': "unat kv \<le> 10 + length r'" using kv by simp
    show ?thesis
    proof (cases "length r' \<le> unat kl")
      case True
      then show ?thesis using panic cellFromCellBlock_row(1) [OF kv' True, of rl vl] kv b r
        unfolding truncated_cell_def by auto
    next
      case False
      then obtain row fl r'' where "r' = row @ fl # r''" "length row = unat kl"
        using id_take_nth_drop [of "unat kl" r'] by (metis length_take min.absorb4 not_le)
      then show ?thesis using panic cellFromCellBlock_row(2) [OF kv', of row fl r'' kl rl vl p] kv b r
        unfolding truncated_cell_def by blast
    qed
  qed
next
  assume "p = IndexOutOfRange \<and> truncated_cell b"
  then show "cellFromCellBlock b = Panic p"
    unfolding truncated_cell_def using cellFromCellBlock_head cellFromCellBlock_row by auto
qed

text \<open>
  An announced length of zero with nothing behind it panics; twelve zero bytes are refused with an
  error.
\<close>

lemma cellFromCellBlock_samples:
  "cellFromCellBlock (put_uint32 0) = Panic IndexOutOfRange"
  "cellFromCellBlock (put_uint32 12 @ put_uint32 0 @ put_uint32 0 @ put_uint16 0 @ [0, 0]) = Err (LiedAboutLength 12 8)"
proof -
  show "cellFromCellBlock (put_uint32 0) = Panic IndexOutOfRange"
    using cellFromCellBlock_head [of 0 "[]"] by simp
  show "cellFromCellBlock (put_uint32 12 @ put_uint32 0 @ put_uint32 0 @ put_uint16 0 @ [0, 0]) = Err (LiedAboutLength 12 8)"
    by (subst cellFromCellBlock_tail) (simp_all add: split_at_def slice_from_def)
qed

end
