(* ===== verification/Calls.thy ===== *)
theory Calls
  imports Region_Info Cellblock
begin

text \<open>
  The calls of \<^verbatim>\<open>src/hrpc\<close> on rows: \<^verbatim>\<open>Get\<close>, \<^verbatim>\<open>Scan\<close>, \<^verbatim>\<open>Mutate\<close> and \<^verbatim>\<open>CheckAndPut\<close>,
  their options, their conversion to protobuf messages and cell blocks, and the decoding
  of their responses. Go strings are byte strings. A Go map is an association list in the
  order in which the iteration happens to visit it, with distinct keys.
\<close>

type_synonym gostring = bytes

section \<open>Calls\<close>

text \<open>
  \<^verbatim>\<open>base\<close>: \<open>b_id\<close> is the identity of the call, which also identifies its result channel,
  and \<open>b_ctx\<close> that of its context. The options a call was made with are passed beside it
  where they are needed again.
\<close>

record base =
  b_id :: nat
  b_ctx :: nat
  b_table :: bytes
  b_key :: bytes
  b_region :: "region option"

text \<open>\<^verbatim>\<open>ConsistencyType\<close> is an integer with three named values; an application can pass any other.\<close>

type_synonym consistency = int

definition DefaultConsistency :: consistency where "DefaultConsistency = 0"
definition StrongConsistency :: consistency where "StrongConsistency = 1"
definition TimelineConsistency :: consistency where "TimelineConsistency = 2"

lemmas consistency_values = DefaultConsistency_def StrongConsistency_def TimelineConsistency_def

datatype pb_consistency = Consistency_STRONG | Consistency_TIMELINE

record pb_filter =
  pf_name :: gostring
  pf_serialized :: bytes

record pb_comparator =
  pc_name :: gostring
  pc_serialized :: bytes

record baseQuery =
  families :: "(gostring \<times> gostring list) list"
  q_filter :: "pb_filter option"
  fromTimestamp :: u64
  toTimestamp :: u64
  maxVersions :: u32
  storeLimit :: u32
  storeOffset :: u32
  cacheBlocks :: bool
  consistency :: consistency

record get =
  g_base :: base
  g_query :: baseQuery
  existsOnly :: bool
  g_skipbatch :: bool

record scan =
  s_base :: base
  s_query :: baseQuery
  startRow :: bytes
  stopRow :: bytes
  scannerID :: u64
  maxResultSize :: u64
  numberOfRows :: u32
  reversed :: bool
  closeScanner :: bool
  allowPartialResults :: bool

datatype mutation_type = APPEND | INCREMENT | PUT | DELETE

datatype durability = UseDefault | SkipWal | AsyncWal | SyncWal | FsyncWal

text \<open>The inner map of \<open>values\<close> is \<open>None\<close> when it is \<^verbatim>\<open>nil\<close>.\<close>

record mutate =
  m_base :: base
  mutationType :: mutation_type
  m_values :: "(gostring \<times> (gostring \<times> bytes) list option) list"
  ttl :: bytes
  m_timestamp :: u64
  m_durability :: durability
  deleteOneVersion :: bool
  m_skipbatch :: bool

record checkandput =
  cp_put :: mutate
  cp_family :: bytes
  cp_qualifier :: bytes
  cp_comparator :: pb_comparator

text \<open>Calls to the master; every struct of the code also embeds a \<^verbatim>\<open>base\<close>.\<close>

datatype snapshot_type = DISABLED | FLUSH | SKIPFLUSH

record snap =
  snap_name :: gostring
  snap_table :: gostring
  snapshotType :: "snapshot_type option"
  snap_version :: "32 word"
  snap_owner :: gostring

record server_name =
  HostName :: gostring
  Port :: u32
  StartCode :: u64

record move_region_request =
  mr_region :: region_specifier
  DestServerName :: "server_name option"

record create_table =
  ct_attributes :: "(gostring \<times> gostring) list"
  ct_families :: "(gostring \<times> (gostring \<times> gostring) list) list"
  ct_splitKeys :: "bytes list"

record list_table_names =
  lt_regex :: gostring
  lt_includeSysTables :: bool
  lt_namespace :: gostring

datatype admin_call =
    CreateTable create_table
  | CreateNamespace gostring
  | DeleteTable
  | DisableTable
  | EnableTable
  | ListTableNames list_table_names
  | MoveRegion move_region_request
  | Snapshot snap
  | SnapshotDone snap
  | DeleteSnapshot snap
  | ListSnapshots
  | RestoreSnapshot snap
  | RestoreSnapshotDone snap
  | ClusterStatus
  | GetProcedureState u64
  | SetBalancer bool

datatype call = Get get | Scan scan | Mutate mutate | CheckAndPut checkandput | Admin base admin_call

fun call_base :: "call \<Rightarrow> base" where
  "call_base (Get g) = g_base g"
| "call_base (Scan s) = s_base s"
| "call_base (Mutate m) = m_base m"
| "call_base (CheckAndPut cp) = m_base (cp_put cp)"
| "call_base (Admin b a) = b"

fun SetRegion :: "call \<Rightarrow> region \<Rightarrow> call" where
  "SetRegion (Get g) r = Get (g\<lparr>g_base := (g_base g)\<lparr>b_region := Some r\<rparr>\<rparr>)"
| "SetRegion (Scan s) r = Scan (s\<lparr>s_base := (s_base s)\<lparr>b_region := Some r\<rparr>\<rparr>)"
| "SetRegion (Mutate m) r = Mutate (m\<lparr>m_base := (m_base m)\<lparr>b_region := Some r\<rparr>\<rparr>)"
| "SetRegion (CheckAndPut cp) r =
     CheckAndPut (cp\<lparr>cp_put := (cp_put cp)\<lparr>m_base := (m_base (cp_put cp))\<lparr>b_region := Some r\<rparr>\<rparr>\<rparr>)"
| "SetRegion (Admin b a) r = Admin (b\<lparr>b_region := Some r\<rparr>) a"

fun admin_name :: "admin_call \<Rightarrow> string" where
  "admin_name (CreateTable _) = ''CreateTable''"
| "admin_name (CreateNamespace _) = ''CreateNamespace''"
| "admin_name DeleteTable = ''DeleteTable''"
| "admin_name DisableTable = ''DisableTable''"
| "admin_name EnableTable = ''EnableTable''"
| "admin_name (ListTableNames _) = ''GetTableNames''"
| "admin_name (MoveRegion _) = ''MoveRegion''"
| "admin_name (Snapshot _) = ''Snapshot''"
| "admin_name (SnapshotDone _) = ''IsSnapshotDone''"
| "admin_name (DeleteSnapshot _) = ''DeleteSnapshot''"
| "admin_name ListSnapshots = ''GetCompletedSnapshots''"
| "admin_name (RestoreSnapshot _) = ''RestoreSnapshot''"
| "admin_name (RestoreSnapshotDone _) = ''IsRestoreSnapshotDone''"
| "admin_name ClusterStatus = ''GetClusterStatus''"
| "admin_name (GetProcedureState _) = ''getProcedureResult''"
| "admin_name (SetBalancer _) = ''SetBalancerRunning''"

fun call_name :: "call \<Rightarrow> string" where
  "call_name (Get g) = ''Get''"
| "call_name (Scan s) = ''Scan''"
| "call_name (Mutate m) = ''Mutate''"
| "call_name (CheckAndPut cp) = ''Mutate''"
| "call_name (Admin b a) = admin_name a"

text \<open>\<^verbatim>\<open>SkipBatch\<close> of the \<^verbatim>\<open>Batchable\<close> interface; \<open>None\<close> for calls that do not implement it.\<close>

fun SkipBatch_of :: "call \<Rightarrow> bool option" where
  "SkipBatch_of (Get g) = Some (g_skipbatch g)"
| "SkipBatch_of (Scan s) = None"
| "SkipBatch_of (Mutate m) = Some (m_skipbatch m)"
| "SkipBatch_of (CheckAndPut cp) = Some (m_skipbatch (cp_put cp))"
| "SkipBatch_of (Admin b a) = None"

definition regionSpecifier :: "base \<Rightarrow> ('e, region_specifier) outcome" where
  "regionSpecifier b =
     (case b_region b of None \<Rightarrow> Panic NilDereference | Some r \<Rightarrow> Ok (ri_specifier r))"

definition parseTableName :: "bytes \<Rightarrow> bytes \<times> bytes" where
  "parseTableName table =
     (if colon \<in> set table
      then (takeWhile (\<lambda>x. x \<noteq> colon) table, drop (Suc (length (takeWhile (\<lambda>x. x \<noteq> colon) table))) table)
      else (str ''default'', table))"

section \<open>Options\<close>

type_synonym call_option = "call \<Rightarrow> (string, call) outcome"

text \<open>\<^verbatim>\<open>applyOptions\<close> stops at the first option that fails.\<close>

fun applyOptions :: "call \<Rightarrow> call_option list \<Rightarrow> (string, call) outcome" where
  "applyOptions c [] = Ok c"
| "applyOptions c (option # options) = and_then (option c) (\<lambda>c'. applyOptions c' options)"

fun SkipBatch :: call_option where
  "SkipBatch (Get g) = Ok (Get (g\<lparr>g_skipbatch := True\<rparr>))"
| "SkipBatch (Mutate m) = Ok (Mutate (m\<lparr>m_skipbatch := True\<rparr>))"
| "SkipBatch (CheckAndPut cp) = Ok (CheckAndPut (cp\<lparr>cp_put := (cp_put cp)\<lparr>m_skipbatch := True\<rparr>\<rparr>))"
| "SkipBatch (Admin b a) = Err ''SkipBatch option only works with Get and Mutate requests''"
| "SkipBatch (Scan s) = Err ''SkipBatch option only works with Get and Mutate requests''"

text \<open>Options of queries: calls that implement \<^verbatim>\<open>hasQueryOptions\<close> are \<^verbatim>\<open>Get\<close> and \<^verbatim>\<open>Scan\<close>.\<close>

fun upd_query :: "string \<Rightarrow> (baseQuery \<Rightarrow> baseQuery) \<Rightarrow> call_option" where
  "upd_query msg f (Get g) = Ok (Get (g\<lparr>g_query := f (g_query g)\<rparr>))"
| "upd_query msg f (Scan s) = Ok (Scan (s\<lparr>s_query := f (s_query s)\<rparr>))"
| "upd_query msg f (Mutate m) = Err msg"
| "upd_query msg f (CheckAndPut cp) = Err msg"
| "upd_query msg f (Admin b a) = Err msg"

fun hasQueryOptions :: "call \<Rightarrow> bool" where
  "hasQueryOptions (Get g) = True"
| "hasQueryOptions (Scan s) = True"
| "hasQueryOptions (Mutate m) = False"
| "hasQueryOptions (CheckAndPut cp) = False"
| "hasQueryOptions (Admin b a) = False"

definition MaxInt32 :: nat where "MaxInt32 = 2147483647"

definition Families :: "(gostring \<times> gostring list) list \<Rightarrow> call_option" where
  "Families f hc = upd_query ''Families option can only be used with Get or Scan request''
     (\<lambda>q. q\<lparr>families := f\<rparr>) hc"

text \<open>\<^verbatim>\<open>Filters\<close> takes the result of the filter's \<^verbatim>\<open>ConstructPBFilter\<close>.\<close>

definition Filters :: "(string, pb_filter) outcome \<Rightarrow> call_option" where
  "Filters construct hc =
     (if hasQueryOptions hc
      then and_then construct (\<lambda>pbF. upd_query '''' (\<lambda>q. q\<lparr>q_filter := Some pbF\<rparr>) hc)
      else Err ''Filters option can only be used with Get or Scan request'')"

definition TimeRangeUint64 :: "u64 \<Rightarrow> u64 \<Rightarrow> call_option" where
  "TimeRangeUint64 from to hc =
     (if hasQueryOptions hc then
        (if from \<ge> to then Err ''from timestamp is greater or equal to to timestamp''
         else upd_query '''' (\<lambda>q. q\<lparr>fromTimestamp := from, toTimestamp := to\<rparr>) hc)
      else Err ''TimeRange option can only be used with Get or Scan request'')"

text \<open>\<^verbatim>\<open>int64\<close> division truncates; the arguments are \<^verbatim>\<open>UnixNano\<close> of the two times.\<close>

definition go_div :: "int \<Rightarrow> int \<Rightarrow> int" where
  "go_div a b = sgn a * sgn b * (\<bar>a\<bar> div \<bar>b\<bar>)"

definition TimeRange :: "int \<Rightarrow> int \<Rightarrow> call_option" where
  "TimeRange from to = TimeRangeUint64 (word_of_int (go_div from 1000000)) (word_of_int (go_div to 1000000))"

definition MaxVersions :: "u32 \<Rightarrow> call_option" where
  "MaxVersions versions hc =
     (if hasQueryOptions hc then
        (if unat versions > MaxInt32 then Err ''MaxVersions exceeds supported number of versions''
         else upd_query '''' (\<lambda>q. q\<lparr>maxVersions := versions\<rparr>) hc)
      else Err ''MaxVersions option can only be used with Get or Scan request'')"

definition MaxResultsPerColumnFamily :: "u32 \<Rightarrow> call_option" where
  "MaxResultsPerColumnFamily maxresults hc =
     (if hasQueryOptions hc then
        (if unat maxresults > MaxInt32
         then Err ''MaxResultsPerColumnFamily exceeds supported number of value results''
         else upd_query '''' (\<lambda>q. q\<lparr>storeLimit := maxresults\<rparr>) hc)
      else Err ''MaxResultsPerColumnFamily option can only be used with Get or Scan request'')"

definition ResultOffset :: "u32 \<Rightarrow> call_option" where
  "ResultOffset offset hc =
     (if hasQueryOptions hc then
        (if unat offset > MaxInt32 then Err ''ResultOffset exceeds supported offset value''
         else upd_query '''' (\<lambda>q. q\<lparr>storeOffset := offset\<rparr>) hc)
      else Err ''ResultOffset option can only be used with Get or Scan request'')"

definition CacheBlocks :: "bool \<Rightarrow> call_option" where
  "CacheBlocks v hc = upd_query ''CacheBlocks option can only be used with Get or Scan request''
     (\<lambda>q. q\<lparr>cacheBlocks := v\<rparr>) hc"

definition Consistency :: "consistency \<Rightarrow> call_option" where
  "Consistency v hc = upd_query ''Consistency option can only be used with Get or Scan requests''
     (\<lambda>q. q\<lparr>consistency := v\<rparr>) hc"

text \<open>Options of scans.\<close>

fun upd_scan :: "string \<Rightarrow> (scan \<Rightarrow> scan) \<Rightarrow> call_option" where
  "upd_scan msg f (Scan s) = Ok (Scan (f s))"
| "upd_scan msg f (Get g) = Err msg"
| "upd_scan msg f (Mutate m) = Err msg"
| "upd_scan msg f (CheckAndPut cp) = Err msg"
| "upd_scan msg f (Admin b a) = Err msg"

definition ScannerID :: "u64 \<Rightarrow> call_option" where
  "ScannerID i s = upd_scan ''ScannerID option can only be used with Scan queries'' (\<lambda>s. s\<lparr>scannerID := i\<rparr>) s"

definition CloseScanner :: call_option where
  "CloseScanner s = upd_scan ''Close option can only be used with Scan queries'' (\<lambda>s. s\<lparr>closeScanner := True\<rparr>) s"

definition MaxResultSize :: "u64 \<Rightarrow> call_option" where
  "MaxResultSize n s =
     (case s of
        Scan sc \<Rightarrow> if n = 0 then Err ''MaxResultSize option must be greater than 0''
                   else Ok (Scan (sc\<lparr>maxResultSize := n\<rparr>))
      | _ \<Rightarrow> Err ''MaxResultSize option can only be used with Scan queries'')"

definition NumberOfRows :: "u32 \<Rightarrow> call_option" where
  "NumberOfRows n s = upd_scan ''NumberOfRows option can only be used with Scan queries''
     (\<lambda>s. s\<lparr>numberOfRows := n\<rparr>) s"

definition AllowPartialResults :: call_option where
  "AllowPartialResults s = upd_scan ''AllowPartialResults option can only be used with Scan queries''
     (\<lambda>s. s\<lparr>allowPartialResults := True\<rparr>) s"

definition Reversed :: call_option where
  "Reversed s = upd_scan ''Reversed option can only be used with Scan queries'' (\<lambda>s. s\<lparr>reversed := True\<rparr>) s"

text \<open>Options of mutations; the assertion \<^verbatim>\<open>o.(*Mutate)\<close> fails for a \<^verbatim>\<open>CheckAndPut\<close>.\<close>

fun upd_mutate :: "string \<Rightarrow> (mutate \<Rightarrow> mutate) \<Rightarrow> call_option" where
  "upd_mutate msg f (Mutate m) = Ok (Mutate (f m))"
| "upd_mutate msg f (Get g) = Err msg"
| "upd_mutate msg f (Scan s) = Err msg"
| "upd_mutate msg f (CheckAndPut cp) = Err msg"
| "upd_mutate msg f (Admin b a) = Err msg"

definition TTL :: "int \<Rightarrow> call_option" where
  "TTL nanoseconds c = upd_mutate ''TTL option can only be used with mutation queries''
     (\<lambda>m. m\<lparr>ttl := put_uint64 (word_of_int (go_div nanoseconds 1000000))\<rparr>) c"

definition Timestamp_opt :: "int \<Rightarrow> call_option" where
  "Timestamp_opt unixNano c = upd_mutate ''Timestamp option can only be used with mutation queries''
     (\<lambda>m. m\<lparr>m_timestamp := word_of_int (go_div unixNano 1000000)\<rparr>) c"

definition TimestampUint64 :: "u64 \<Rightarrow> call_option" where
  "TimestampUint64 ts c = upd_mutate ''TimestampUint64 option can only be used with mutation queries''
     (\<lambda>m. m\<lparr>m_timestamp := ts\<rparr>) c"

text \<open>The durability is a number in the code, of which five values are valid.\<close>

definition durability_of :: "int \<Rightarrow> durability option" where
  "durability_of d =
     (if d = 0 then Some UseDefault else if d = 1 then Some SkipWal else if d = 2 then Some AsyncWal
      else if d = 3 then Some SyncWal else if d = 4 then Some FsyncWal else None)"

definition Durability :: "int \<Rightarrow> call_option" where
  "Durability d c =
     (case c of
        Mutate m \<Rightarrow>
          (case durability_of d of
             None \<Rightarrow> Err ''invalid durability value''
           | Some v \<Rightarrow> Ok (Mutate (m\<lparr>m_durability := v\<rparr>)))
      | _ \<Rightarrow> Err ''Durability option can only be used with mutation queries'')"

definition DeleteOneVersion :: call_option where
  "DeleteOneVersion c = upd_mutate ''DeleteOneVersion option can only be used with mutation queries''
     (\<lambda>m. m\<lparr>deleteOneVersion := True\<rparr>) c"

end
