(* ===== verification/Queries.thy ===== *)
theory Queries
  imports Calls
begin

text \<open>
  \<^verbatim>\<open>Get\<close> and \<^verbatim>\<open>Scan\<close> (\<^verbatim>\<open>src/hrpc/get.go\<close>, \<^verbatim>\<open>scan.go\<close>, \<^verbatim>\<open>query.go\<close>): construction with
  options, the protobuf requests, and the decoding of their responses from cell blocks.
\<close>

section \<open>Messages\<close>

record pb_column =
  col_family :: bytes
  col_qualifier :: "bytes list"

record pb_time_range =
  From :: "u64 option"
  To :: "u64 option"

record pb_get =
  pg_row :: bytes
  pg_column :: "pb_column list"
  pg_filter :: "pb_filter option"
  pg_time_range :: pb_time_range
  pg_max_versions :: "u32 option"
  pg_cache_blocks :: "bool option"
  pg_store_limit :: "u32 option"
  pg_store_offset :: "u32 option"
  pg_existence_only :: "bool option"
  pg_consistency :: "pb_consistency option"

record get_request =
  gr_region :: region_specifier
  gr_get :: pb_get

record get_response =
  gresp_result :: "result option"

record pb_scan =
  ps_column :: "pb_column list"
  ps_start_row :: bytes
  ps_stop_row :: bytes
  ps_filter :: "pb_filter option"
  ps_time_range :: pb_time_range
  ps_max_versions :: "u32 option"
  ps_cache_blocks :: "bool option"
  ps_max_result_size :: u64
  ps_store_limit :: "u32 option"
  ps_store_offset :: "u32 option"
  ps_reversed :: "bool option"
  ps_consistency :: "pb_consistency option"

record scan_request =
  sr_region :: region_specifier
  sr_scan :: "pb_scan option"
  sr_scanner_id :: "u64 option"
  sr_number_of_rows :: u32
  sr_close_scanner :: bool
  sr_client_handles_partials :: bool
  sr_client_handles_heartbeats :: bool

text \<open>A result that the code leaves \<^verbatim>\<open>nil\<close> is \<open>None\<close>.\<close>

record scan_response =
  CellsPerResult :: "u32 list"
  ScannerId :: "u64 option"
  MoreResults :: "bool option"
  Results :: "result option list"
  PartialFlagPerResult :: "bool list"
  MoreResultsInRegion :: "bool option"

section \<open>Defaults\<close>

definition DefaultMaxVersions :: u32 where "DefaultMaxVersions = 1"
definition MinTimestamp :: u64 where "MinTimestamp = 0"
definition MaxTimestamp :: u64 where "MaxTimestamp = 18446744073709551615"
definition DefaultMaxResultSize :: u64 where "DefaultMaxResultSize = 2097152"
definition DefaultNumberOfRows :: u32 where "DefaultNumberOfRows = 2147483647"
definition DefaultMaxResultsPerColumnFamily :: u32 where "DefaultMaxResultsPerColumnFamily = 2147483647"
definition DefaultCacheBlocks :: bool where "DefaultCacheBlocks = True"
definition MaxUint64 :: u64 where "MaxUint64 = 18446744073709551615"

lemmas query_defaults = DefaultMaxVersions_def MinTimestamp_def MaxTimestamp_def DefaultMaxResultSize_def
  DefaultNumberOfRows_def DefaultMaxResultsPerColumnFamily_def DefaultCacheBlocks_def MaxUint64_def

definition newBaseQuery :: baseQuery where
  "newBaseQuery = \<lparr>families = [], q_filter = None, fromTimestamp = MinTimestamp, toTimestamp = MaxTimestamp,
     maxVersions = DefaultMaxVersions, storeLimit = DefaultMaxResultsPerColumnFamily, storeOffset = 0,
     cacheBlocks = DefaultCacheBlocks, consistency = DefaultConsistency\<rparr>"

definition consistency_toProto :: "consistency \<Rightarrow> ('e, pb_consistency) outcome" where
  "consistency_toProto c =
     (if c = TimelineConsistency then Ok Consistency_TIMELINE
      else if c = StrongConsistency then Ok Consistency_STRONG
      else if c = DefaultConsistency then Panic (Explicit ''default consistency depends on context'')
      else Panic (Explicit ''invalid value for ConsistencyType''))"

section \<open>Get\<close>

text \<open>The constructors apply the options to the new call; \<open>i\<close> is its identity.\<close>

definition as_get :: "(string, call) outcome \<Rightarrow> (string, get) outcome" where
  "as_get r = and_then r (\<lambda>c. case c of Get g \<Rightarrow> Ok g | _ \<Rightarrow> Err ''not a Get'')"

definition baseGet :: "nat \<Rightarrow> nat \<Rightarrow> bytes \<Rightarrow> bytes \<Rightarrow> call_option list \<Rightarrow> (string, get) outcome" where
  "baseGet i ctx table key options =
     as_get (applyOptions (Get \<lparr>g_base = \<lparr>b_id = i, b_ctx = ctx, b_table = table, b_key = key, b_region = None\<rparr>,
        g_query = newBaseQuery, existsOnly = False, g_skipbatch = False\<rparr>) options)"

definition NewGet :: "nat \<Rightarrow> nat \<Rightarrow> bytes \<Rightarrow> bytes \<Rightarrow> call_option list \<Rightarrow> (string, get) outcome" where
  "NewGet i ctx table key options = baseGet i ctx table key options"

definition NewGetStr :: "nat \<Rightarrow> nat \<Rightarrow> gostring \<Rightarrow> gostring \<Rightarrow> call_option list \<Rightarrow> (string, get) outcome" where
  "NewGetStr i ctx table key options = NewGet i ctx table key options"

definition ExistsOnly :: "get \<Rightarrow> get" where
  "ExistsOnly g = g\<lparr>existsOnly := True\<rparr>"

definition familiesToColumn :: "(gostring \<times> gostring list) list \<Rightarrow> pb_column list" where
  "familiesToColumn fs = map (\<lambda>(family, qualifiers). \<lparr>col_family = family, col_qualifier = qualifiers\<rparr>) fs"

text \<open>A field that holds the default is left out of the message.\<close>

definition unless :: "'a \<Rightarrow> 'a \<Rightarrow> 'a option" where
  "unless d v = (if v \<noteq> d then Some v else None)"

definition consistency_field :: "consistency \<Rightarrow> ('e, pb_consistency option) outcome" where
  "consistency_field c =
     (if c \<noteq> DefaultConsistency then and_then (consistency_toProto c) (\<lambda>p. Ok (Some p)) else Ok None)"

definition Get_ToProto :: "get \<Rightarrow> ('e, get_request) outcome" where
  "Get_ToProto g =
     (let q = g_query g in
      and_then (regionSpecifier (g_base g)) (\<lambda>reg.
      and_then (consistency_field (consistency q)) (\<lambda>cons.
        Ok \<lparr>gr_region = reg, gr_get = \<lparr>
          pg_row = b_key (g_base g),
          pg_column = familiesToColumn (families q),
          pg_filter = q_filter q,
          pg_time_range = \<lparr>From = unless MinTimestamp (fromTimestamp q), To = unless MaxTimestamp (toTimestamp q)\<rparr>,
          pg_max_versions = unless DefaultMaxVersions (maxVersions q),
          pg_cache_blocks = unless DefaultCacheBlocks (cacheBlocks q),
          pg_store_limit = unless DefaultMaxResultsPerColumnFamily (storeLimit q),
          pg_store_offset = unless 0 (storeOffset q),
          pg_existence_only = (if existsOnly g then Some True else None),
          pg_consistency = cons\<rparr>\<rparr>)))"

definition Get_DeserializeCellBlocks :: "get_response \<Rightarrow> bytes \<Rightarrow> (cell_error, get_response \<times> u32) outcome" where
  "Get_DeserializeCellBlocks resp b =
     (case gresp_result resp of
        None \<Rightarrow> Ok (resp, 0)
      | Some r \<Rightarrow>
          and_then (deserializeCellBlocks b (GetAssociatedCellCount r)) (\<lambda>(cells, read).
            Ok (resp\<lparr>gresp_result := Some (r\<lparr>Cell := Cell r @ cells\<rparr>)\<rparr>, read)))"

section \<open>Scan\<close>

definition as_scan :: "(string, call) outcome \<Rightarrow> (string, scan) outcome" where
  "as_scan r = and_then r (\<lambda>c. case c of Scan s \<Rightarrow> Ok s | _ \<Rightarrow> Err ''not a Scan'')"

definition baseScan :: "nat \<Rightarrow> nat \<Rightarrow> bytes \<Rightarrow> call_option list \<Rightarrow> (string, scan) outcome" where
  "baseScan i ctx table options =
     as_scan (applyOptions (Scan \<lparr>s_base = \<lparr>b_id = i, b_ctx = ctx, b_table = table, b_key = [], b_region = None\<rparr>,
        s_query = newBaseQuery, startRow = [], stopRow = [], scannerID = MaxUint64,
        maxResultSize = DefaultMaxResultSize, numberOfRows = DefaultNumberOfRows, reversed = False,
        closeScanner = False, allowPartialResults = False\<rparr>) options)"

definition NewScan :: "nat \<Rightarrow> nat \<Rightarrow> bytes \<Rightarrow> call_option list \<Rightarrow> (string, scan) outcome" where
  "NewScan i ctx table options = baseScan i ctx table options"

definition NewScanRange ::
  "nat \<Rightarrow> nat \<Rightarrow> bytes \<Rightarrow> bytes \<Rightarrow> bytes \<Rightarrow> call_option list \<Rightarrow> (string, scan) outcome" where
  "NewScanRange i ctx table start stop options =
     and_then (baseScan i ctx table options) (\<lambda>s.
       Ok (s\<lparr>startRow := start, stopRow := stop, s_base := (s_base s)\<lparr>b_key := start\<rparr>\<rparr>))"

definition NewScanStr :: "nat \<Rightarrow> nat \<Rightarrow> gostring \<Rightarrow> call_option list \<Rightarrow> (string, scan) outcome" where
  "NewScanStr i ctx table options = NewScan i ctx table options"

definition NewScanRangeStr ::
  "nat \<Rightarrow> nat \<Rightarrow> gostring \<Rightarrow> gostring \<Rightarrow> gostring \<Rightarrow> call_option list \<Rightarrow> (string, scan) outcome" where
  "NewScanRangeStr i ctx table start stop options = NewScanRange i ctx table start stop options"

definition Scan_ToProto :: "scan \<Rightarrow> ('e, scan_request) outcome" where
  "Scan_ToProto s =
     (let q = s_query s in
      and_then (regionSpecifier (s_base s)) (\<lambda>reg.
        let req = \<lparr>sr_region = reg, sr_scan = None, sr_scanner_id = None, sr_number_of_rows = numberOfRows s,
          sr_close_scanner = closeScanner s, sr_client_handles_partials = True, sr_client_handles_heartbeats = True\<rparr>
        in if scannerID s \<noteq> MaxUint64 then Ok (req\<lparr>sr_scanner_id := Some (scannerID s)\<rparr>)
        else and_then (consistency_field (consistency q)) (\<lambda>cons.
          Ok (req\<lparr>sr_scan := Some \<lparr>
            ps_column = familiesToColumn (families q),
            ps_start_row = startRow s,
            ps_stop_row = stopRow s,
            ps_filter = q_filter q,
            ps_time_range = \<lparr>From = unless MinTimestamp (fromTimestamp q), To = unless MaxTimestamp (toTimestamp q)\<rparr>,
            ps_max_versions = unless DefaultMaxVersions (maxVersions q),
            ps_cache_blocks = unless DefaultCacheBlocks (cacheBlocks q),
            ps_max_result_size = maxResultSize s,
            ps_store_limit = unless DefaultMaxResultsPerColumnFamily (storeLimit q),
            ps_store_offset = unless 0 (storeOffset q),
            ps_reversed = (if reversed s then Some True else None),
            ps_consistency = cons\<rparr>\<rparr>))))"

definition scan_result :: "cell list \<Rightarrow> bool \<Rightarrow> result" where
  "scan_result cells p =
     \<lparr>Cell = cells, AssociatedCellCount = None, Exists = None, Stale = None, Partial = Some p\<rparr>"

text \<open>The loop of \<^verbatim>\<open>Scan.DeserializeCellBlocks\<close>; \<open>i\<close> is its counter.\<close>

fun scan_results ::
  "bytes \<Rightarrow> bool list \<Rightarrow> nat \<Rightarrow> u32 list \<Rightarrow> result option list \<Rightarrow> u32
     \<Rightarrow> (cell_error, result option list \<times> u32) outcome" where
  "scan_results b partials i [] results readLen = Ok (results, readLen)"
| "scan_results b partials i (numCells # rest) results readLen =
     and_then (slice_from b (unat readLen)) (\<lambda>b'.
     and_then (deserializeCellBlocks b' numCells) (\<lambda>(cells, l).
     and_then (index partials i) (\<lambda>p.
       if i < length results
       then scan_results b partials (Suc i) rest
         (results[i := Some (scan_result cells p)]) (readLen + l)
       else Panic IndexOutOfRange)))"

definition Scan_DeserializeCellBlocks ::
  "scan_response \<Rightarrow> bytes \<Rightarrow> (cell_error, scan_response \<times> u32) outcome" where
  "Scan_DeserializeCellBlocks resp b =
     (let partials = PartialFlagPerResult resp in
      and_then (scan_results b partials 0 (CellsPerResult resp) (replicate (length partials) None) 0)
        (\<lambda>(results, readLen). Ok (resp\<lparr>Results := results\<rparr>, readLen)))"

section \<open>Local results\<close>

record local_result =
  lr_Cells :: "cell list"
  lr_Stale :: bool
  lr_Partial :: bool
  lr_Exists :: "bool option"

definition extractBool :: "bool option \<Rightarrow> bool" where
  "extractBool v = (v = Some True)"

definition toLocalCells :: "result \<Rightarrow> cell list" where
  "toLocalCells pbr = Cell pbr"

definition ToLocalResult :: "result option \<Rightarrow> local_result" where
  "ToLocalResult pbr =
     (case pbr of
        None \<Rightarrow> \<lparr>lr_Cells = [], lr_Stale = False, lr_Partial = False, lr_Exists = None\<rparr>
      | Some r \<Rightarrow> \<lparr>lr_Cells = toLocalCells r, lr_Stale = extractBool (Stale r),
           lr_Partial = extractBool (Partial r), lr_Exists = Exists r\<rparr>)"

section \<open>What the options keep\<close>

text \<open>Every option the library offers for calls on rows.\<close>

inductive library_option :: "call_option \<Rightarrow> bool" where
  "library_option SkipBatch"
| "library_option (Families f)"
| "library_option (Filters r)"
| "library_option (TimeRange t1 t2)"
| "library_option (TimeRangeUint64 from to)"
| "library_option (MaxVersions n)"
| "library_option (MaxResultsPerColumnFamily n)"
| "library_option (ResultOffset n)"
| "library_option (CacheBlocks b)"
| "library_option (Consistency k)"
| "library_option (ScannerID i)"
| "library_option CloseScanner"
| "library_option (MaxResultSize sz)"
| "library_option (NumberOfRows n)"
| "library_option AllowPartialResults"
| "library_option Reversed"
| "library_option (TTL ns)"
| "library_option (Timestamp_opt ns)"
| "library_option (TimestampUint64 ts)"
| "library_option (Durability d)"
| "library_option DeleteOneVersion"

definition wf_query :: "baseQuery \<Rightarrow> bool" where
  "wf_query q \<longleftrightarrow> fromTimestamp q < toTimestamp q \<and> unat (maxVersions q) \<le> MaxInt32 \<and>
     unat (storeLimit q) \<le> MaxInt32 \<and> unat (storeOffset q) \<le> MaxInt32"

fun wf_call :: "call \<Rightarrow> bool" where
  "wf_call (Get g) = wf_query (g_query g)"
| "wf_call (Scan s) = (wf_query (s_query s) \<and> maxResultSize s \<noteq> 0)"
| "wf_call (Mutate m) = True"
| "wf_call (CheckAndPut cp) = True"
| "wf_call (Admin b a) = True"

fun same_kind :: "call \<Rightarrow> call \<Rightarrow> bool" where
  "same_kind (Get g) (Get g') = True"
| "same_kind (Scan s) (Scan s') = (startRow s' = startRow s \<and> stopRow s' = stopRow s)"
| "same_kind (Mutate m) (Mutate m') = (m_values m' = m_values m \<and> mutationType m' = mutationType m)"
| "same_kind (CheckAndPut c) (CheckAndPut c') = True"
| "same_kind (Admin b a) (Admin b' a') = True"
| "same_kind _ _ = False"

declare Families_def [option_defs] Filters_def [option_defs] TimeRange_def [option_defs]
  TimeRangeUint64_def [option_defs] MaxVersions_def [option_defs] MaxResultsPerColumnFamily_def [option_defs]
  ResultOffset_def [option_defs] CacheBlocks_def [option_defs] Consistency_def [option_defs]
  ScannerID_def [option_defs] CloseScanner_def [option_defs] MaxResultSize_def [option_defs]
  NumberOfRows_def [option_defs] AllowPartialResults_def [option_defs] Reversed_def [option_defs]
  TTL_def [option_defs] Timestamp_opt_def [option_defs] TimestampUint64_def [option_defs]
  Durability_def [option_defs] DeleteOneVersion_def [option_defs]

lemma library_option_keeps:
  assumes "library_option opt" "opt c = Ok c'" "wf_call c"
  shows "wf_call c' \<and> call_base c' = call_base c \<and> same_kind c c'"
  using assms
  by (induction rule: library_option.induct; cases c)
    (auto simp: option_defs wf_query_def split: if_splits option.splits)

lemma same_kind_refl: "same_kind c c"
  by (cases c) auto

lemma same_kind_trans: "same_kind a b \<Longrightarrow> same_kind b c \<Longrightarrow> same_kind a c"
  by (cases a; cases b; cases c) auto

lemma applyOptions_keeps:
  assumes "\<forall>opt \<in> set options. library_option opt" "applyOptions c options = Ok c'" "wf_call c"
  shows "wf_call c' \<and> call_base c' = call_base c \<and> same_kind c c'"
  using assms
proof (induction options arbitrary: c)
  case (Cons opt options)
  then obtain c1 where c1: "opt c = Ok c1" "applyOptions c1 options = Ok c'" by auto
  then have "wf_call c1 \<and> call_base c1 = call_base c \<and> same_kind c c1"
    using Cons.prems library_option_keeps [of opt c c1] by simp
  with Cons.IH [of c1] c1 Cons.prems show ?case using same_kind_trans by auto
qed (simp add: same_kind_refl)

lemma wf_newBaseQuery: "wf_query newBaseQuery"
  by (simp add: wf_query_def newBaseQuery_def query_defaults MaxInt32_def)

section \<open>Decoding scan responses\<close>

lemma encode_cells_append: "encode_cells (a @ b) = encode_cells a @ encode_cells b"
  by (simp add: encode_cells_def)

lemma deserializeCellBlocks_iff:
  assumes "length b < 2 ^ 32"
  shows "deserializeCellBlocks b n = Ok (cells, read) \<longleftrightarrow>
    length cells = unat n \<and> (\<forall>c \<in> set cells. encodable c) \<and>
    (\<exists>rest. b = encode_cells cells @ rest \<and> read = word_of_nat (length (encode_cells cells)))"
  using deserialize_cells_iff [of "[]" b "unat n" "[]"] assms
  by (auto simp: deserializeCellBlocks_def)

definition scan_layout :: "bytes \<Rightarrow> u32 list \<Rightarrow> cell list list \<Rightarrow> bool" where
  "scan_layout b counts css \<longleftrightarrow> map length css = map unat counts \<and>
     (\<forall>c \<in> set (concat css). encodable c) \<and> (\<exists>rest. b = encode_cells (concat css) @ rest)"

lemma scan_layout_Cons:
  "scan_layout b (n # counts) css \<longleftrightarrow>
    (\<exists>cs css' b'. css = cs # css' \<and> length cs = unat n \<and> (\<forall>c \<in> set cs. encodable c) \<and>
      b = encode_cells cs @ b' \<and> scan_layout b' counts css')"
  by (cases css) (auto simp: scan_layout_def encode_cells_append)

lemma scan_results_step:
  assumes "length (pre @ b) < 2 ^ 32" "length results = length partials"
  shows "scan_results (pre @ b) partials i (k # counts) results (word_of_nat (length pre)) = Ok (results', n) \<longleftrightarrow>
    i < length partials \<and> (\<exists>cs b'. length cs = unat k \<and> (\<forall>c \<in> set cs. encodable c) \<and> b = encode_cells cs @ b' \<and>
      scan_results ((pre @ encode_cells cs) @ b') partials (Suc i) counts
        (results[i := Some (scan_result cs (partials ! i))]) (word_of_nat (length (pre @ encode_cells cs)))
        = Ok (results', n))"
proof -
  have pos: "unat (word_of_nat (length pre) :: u32) = length pre"
    using assms by (intro unat_word_of_nat) simp
  have slice: "(slice_from (pre @ b) (length pre) :: (cell_error, bytes) outcome) = Ok b" by simp
  show ?thesis using assms by (auto simp: pos slice deserializeCellBlocks_iff index_def split: if_splits)
qed

lemma scan_results_iff:
  assumes "length (pre @ b) < 2 ^ 32" "length results = length partials" "i \<le> length partials"
  shows "scan_results (pre @ b) partials i counts results (word_of_nat (length pre)) = Ok (results', n) \<longleftrightarrow>
    i + length counts \<le> length partials \<and>
    (\<exists>css. scan_layout b counts css \<and> n = word_of_nat (length pre + length (encode_cells (concat css))) \<and>
      results' = take i results @ map2 (\<lambda>cs p. Some (scan_result cs p)) css (drop i partials)
        @ drop (i + length counts) results)"
  using assms
proof (induction counts arbitrary: pre b i results)
  case Nil
  then show ?case by (auto simp: scan_layout_def)
next
  case (Cons k counts)
  note step = scan_results_step [OF Cons.prems(1,2)]
  show ?case
  proof (cases "i < length partials")
    case False
    then show ?thesis unfolding step by simp
  next
    case True
    have IH: "scan_results ((pre @ encode_cells cs) @ b') partials (Suc i) counts
        (results[i := Some (scan_result cs (partials ! i))]) (word_of_nat (length (pre @ encode_cells cs)))
        = Ok (results', n) \<longleftrightarrow>
      Suc i + length counts \<le> length partials \<and> (\<exists>css. scan_layout b' counts css \<and>
        n = word_of_nat (length (pre @ encode_cells cs) + length (encode_cells (concat css))) \<and>
        results' = take (Suc i) (results[i := Some (scan_result cs (partials ! i))])
          @ map2 (\<lambda>cs p. Some (scan_result cs p)) css (drop (Suc i) partials)
          @ drop (Suc i + length counts) (results[i := Some (scan_result cs (partials ! i))]))"
      if "b = encode_cells cs @ b'" for cs b'
      using Cons.prems that True by (intro Cons.IH) simp_all
    have upd: "take (Suc i) (results[i := x]) = take i results @ [x]"
      "drop (Suc i + m) (results[i := x]) = drop (Suc i + m) results" for x m
      using True Cons.prems by (simp_all add: take_Suc_conv_app_nth)
    have drop: "drop i partials = partials ! i # drop (Suc i) partials"
      using True by (simp add: Cons_nth_drop_Suc)
    have "scan_results (pre @ b) partials i (k # counts) results (word_of_nat (length pre)) = Ok (results', n) \<longleftrightarrow>
      (\<exists>cs b'. length cs = unat k \<and> (\<forall>c \<in> set cs. encodable c) \<and> b = encode_cells cs @ b' \<and>
        Suc i + length counts \<le> length partials \<and> (\<exists>css. scan_layout b' counts css \<and>
          n = word_of_nat (length (pre @ encode_cells cs) + length (encode_cells (concat css))) \<and>
          results' = (take i results @ [Some (scan_result cs (partials ! i))])
            @ map2 (\<lambda>cs p. Some (scan_result cs p)) css (drop (Suc i) partials)
            @ drop (Suc i + length counts) results))"
      unfolding step using True IH [unfolded upd] by blast
    then show ?thesis unfolding scan_layout_Cons
      by (fastforce simp: drop encode_cells_append add.assoc)
  qed
qed

section \<open>What the server reads\<close>

text \<open>
  The query a region server reads from a \<^verbatim>\<open>Get\<close> message: absent fields have the defaults of
  the protocol.
\<close>

definition or_default :: "'a \<Rightarrow> 'a option \<Rightarrow> 'a" where
  "or_default d v = (case v of None \<Rightarrow> d | Some x \<Rightarrow> x)"

lemma or_default_unless [simp]: "or_default d (unless d v) = v"
  by (simp add: or_default_def unless_def)

lemma or_default_flag [simp]: "or_default False (if b then Some True else None) = b"
  by (simp add: or_default_def)

definition read_consistency :: "pb_consistency option \<Rightarrow> consistency" where
  "read_consistency v = (case v of None \<Rightarrow> DefaultConsistency
     | Some Consistency_STRONG \<Rightarrow> StrongConsistency | Some Consistency_TIMELINE \<Rightarrow> TimelineConsistency)"

definition read_get :: "pb_get \<Rightarrow> baseQuery" where
  "read_get p = \<lparr>families = map (\<lambda>c. (col_family c, col_qualifier c)) (pg_column p), q_filter = pg_filter p,
     fromTimestamp = or_default MinTimestamp (From (pg_time_range p)),
     toTimestamp = or_default MaxTimestamp (To (pg_time_range p)),
     maxVersions = or_default DefaultMaxVersions (pg_max_versions p),
     storeLimit = or_default DefaultMaxResultsPerColumnFamily (pg_store_limit p),
     storeOffset = or_default 0 (pg_store_offset p),
     cacheBlocks = or_default DefaultCacheBlocks (pg_cache_blocks p),
     consistency = read_consistency (pg_consistency p)\<rparr>"

definition read_scan :: "pb_scan \<Rightarrow> baseQuery" where
  "read_scan p = \<lparr>families = map (\<lambda>c. (col_family c, col_qualifier c)) (ps_column p), q_filter = ps_filter p,
     fromTimestamp = or_default MinTimestamp (From (ps_time_range p)),
     toTimestamp = or_default MaxTimestamp (To (ps_time_range p)),
     maxVersions = or_default DefaultMaxVersions (ps_max_versions p),
     storeLimit = or_default DefaultMaxResultsPerColumnFamily (ps_store_limit p),
     storeOffset = or_default 0 (ps_store_offset p),
     cacheBlocks = or_default DefaultCacheBlocks (ps_cache_blocks p),
     consistency = read_consistency (ps_consistency p)\<rparr>"

definition valid_consistency :: "consistency \<Rightarrow> bool" where
  "valid_consistency c \<longleftrightarrow> c \<in> {0, 1, 2}"

lemma consistency_field_read:
  "valid_consistency c \<Longrightarrow> \<exists>p. consistency_field c = Ok p \<and> read_consistency p = c"
  by (auto simp: valid_consistency_def consistency_field_def consistency_toProto_def read_consistency_def consistency_values)

lemma consistency_field_invalid:
  "\<not> valid_consistency c \<Longrightarrow> consistency_field c = Panic (Explicit ''invalid value for ConsistencyType'')"
  by (auto simp: valid_consistency_def consistency_field_def consistency_toProto_def consistency_values)

lemma read_columns: "map (\<lambda>c. (col_family c, col_qualifier c)) (familiesToColumn fs) = fs"
  by (induction fs) (auto simp: familiesToColumn_def)

section \<open>Properties\<close>

text \<open>
  The request of a \<^verbatim>\<open>Get\<close> that was given a region is addressed to that region and row, and
  carries the query unchanged: reading the message with the protocol's defaults for absent
  fields gives back families, filter, time range, versions, limits, block caching and
  consistency. It exists unless the consistency is none of the three values, which panics.
\<close>

theorem Get_ToProto_lossless:
  assumes "b_region (g_base g) = Some reg"
  shows "if valid_consistency (consistency (g_query g))
    then \<exists>req. (Get_ToProto g :: ('e, get_request) outcome) = Ok req \<and> gr_region req = ri_specifier reg \<and>
      pg_row (gr_get req) = b_key (g_base g) \<and> read_get (gr_get req) = g_query g \<and>
      or_default False (pg_existence_only (gr_get req)) = existsOnly g
    else (Get_ToProto g :: ('e, get_request) outcome) = Panic (Explicit ''invalid value for ConsistencyType'')"
proof (cases "valid_consistency (consistency (g_query g))")
  case True
  from consistency_field_read [OF this] obtain p where
    "(consistency_field (consistency (g_query g)) :: ('e, _) outcome) = Ok p" "read_consistency p = consistency (g_query g)"
    by blast
  then show ?thesis using assms True
    by (auto simp: Get_ToProto_def regionSpecifier_def read_get_def read_columns Let_def)
next
  case False
  then show ?thesis using assms
    by (simp add: consistency_field_invalid Get_ToProto_def regionSpecifier_def Let_def)
qed

definition sample_get :: get where
  "sample_get = \<lparr>g_base = \<lparr>b_id = 0, b_ctx = 0, b_table = str ''t'', b_key = str ''k'',
       b_region = Some (NewInfo 1 1 None (str ''t'') (str ''t,,1.a.'') [] [])\<rparr>,
     g_query = newBaseQuery\<lparr>maxVersions := 3, consistency := TimelineConsistency\<rparr>,
     existsOnly = False, g_skipbatch = False\<rparr>"

theorem Get_ToProto_lossless_witness:
  "\<exists>req. (Get_ToProto sample_get :: (unit, get_request) outcome) = Ok req \<and>
    gr_region req = ri_specifier (NewInfo 1 1 None (str ''t'') (str ''t,,1.a.'') [] []) \<and>
    pg_row (gr_get req) = b_key (g_base sample_get) \<and> read_get (gr_get req) = g_query sample_get \<and>
    or_default False (pg_existence_only (gr_get req)) = existsOnly sample_get"
proof -
  have "b_region (g_base sample_get) = Some (NewInfo 1 1 None (str ''t'') (str ''t,,1.a.'') [] [])"
    "valid_consistency (consistency (g_query sample_get))"
    by (simp_all add: sample_get_def valid_consistency_def consistency_values)
  from Get_ToProto_lossless [OF this(1), where 'e = unit] this(2) show ?thesis by simp
qed

text \<open>
  C31. What of a scan a request carries, in every case. A request that opens a scanner carries the
  range, the direction, the query, the result size, the number of rows and whether to close:
  reading the message with the protocol's defaults for absent fields gives them back. It panics
  exactly when the consistency of the query is none of the three values. A request for an open
  scanner carries the scanner's id, the number of rows and whether to close and nothing of the
  query, so a scanner on the server cannot be redefined midway. Whether the application takes
  partial results is not part of any request: the server is always told to send them, and
  heartbeats.
\<close>

theorem Scan_ToProto_lossless:
  assumes "b_region (s_base s) = Some reg"
  shows "if scannerID s = MaxUint64 \<and> \<not> valid_consistency (consistency (s_query s))
    then (Scan_ToProto s :: ('e, scan_request) outcome) = Panic (Explicit ''invalid value for ConsistencyType'')
    else \<exists>req. (Scan_ToProto s :: ('e, scan_request) outcome) = Ok req \<and> sr_region req = ri_specifier reg \<and>
      sr_number_of_rows req = numberOfRows s \<and> sr_close_scanner req = closeScanner s \<and>
      sr_client_handles_partials req \<and> sr_client_handles_heartbeats req \<and>
      (if scannerID s = MaxUint64
       then sr_scanner_id req = None \<and> (\<exists>p. sr_scan req = Some p \<and> read_scan p = s_query s \<and>
         ps_start_row p = startRow s \<and> ps_stop_row p = stopRow s \<and> ps_max_result_size p = maxResultSize s \<and>
         or_default False (ps_reversed p) = reversed s)
       else sr_scanner_id req = Some (scannerID s) \<and> sr_scan req = None)"
proof (cases "valid_consistency (consistency (s_query s))")
  case True
  from consistency_field_read [OF this] obtain p where
    "(consistency_field (consistency (s_query s)) :: ('e, _) outcome) = Ok p" "read_consistency p = consistency (s_query s)"
    by blast
  then show ?thesis using assms True
    by (auto simp: Scan_ToProto_def regionSpecifier_def read_scan_def read_columns Let_def)
next
  case False
  then show ?thesis using assms
    by (auto simp: consistency_field_invalid Scan_ToProto_def regionSpecifier_def Let_def)
qed

definition sample_scan :: scan where
  "sample_scan = \<lparr>s_base = \<lparr>b_id = 0, b_ctx = 0, b_table = str ''t'', b_key = str ''a'',
       b_region = Some (NewInfo 1 1 None (str ''t'') (str ''t,,1.a.'') [] [])\<rparr>,
     s_query = newBaseQuery, startRow = str ''a'', stopRow = str ''b'', scannerID = MaxUint64,
     maxResultSize = 10, numberOfRows = 2, reversed = False, closeScanner = False, allowPartialResults = False\<rparr>"

text \<open>A scan that is opened, one that goes on, and one with a consistency that is not a value.\<close>

theorem Scan_ToProto_lossless_witness:
  "(\<exists>req p. (Scan_ToProto sample_scan :: (unit, scan_request) outcome) = Ok req \<and> sr_scanner_id req = None \<and>
      sr_scan req = Some p \<and> read_scan p = newBaseQuery \<and> ps_start_row p = str ''a'' \<and> ps_stop_row p = str ''b'' \<and>
      ps_max_result_size p = 10) \<and>
   (\<exists>req. (Scan_ToProto (sample_scan\<lparr>scannerID := 7\<rparr>) :: (unit, scan_request) outcome) = Ok req \<and>
      sr_scanner_id req = Some 7 \<and> sr_scan req = None) \<and>
   (Scan_ToProto (sample_scan\<lparr>s_query := newBaseQuery\<lparr>consistency := 7\<rparr>\<rparr>) :: (unit, scan_request) outcome) =
      Panic (Explicit ''invalid value for ConsistencyType'')"
proof -
  let ?r = "NewInfo 1 1 None (str ''t'') (str ''t,,1.a.'') [] []"
  have reg: "b_region (s_base sample_scan) = Some ?r" "b_region (s_base (sample_scan\<lparr>scannerID := 7\<rparr>)) = Some ?r"
    "b_region (s_base (sample_scan\<lparr>s_query := newBaseQuery\<lparr>consistency := 7\<rparr>\<rparr>)) = Some ?r"
    by (simp_all add: sample_scan_def)
  show ?thesis
    using Scan_ToProto_lossless [OF reg(1), where 'e = unit] Scan_ToProto_lossless [OF reg(2), where 'e = unit]
      Scan_ToProto_lossless [OF reg(3), where 'e = unit]
    by (auto simp: sample_scan_def valid_consistency_def newBaseQuery_def DefaultConsistency_def MaxUint64_def)
qed

text \<open>
  C35. Whatever options of the library a range scan is built with, if it is built then it scans
  the given table and range from its start row, its time range is not empty, its version
  and cell limits are within the supported range and its result size is positive.
\<close>

theorem NewScanRange_wf:
  assumes "\<forall>opt \<in> set options. library_option opt"
    and "NewScanRange i ctx table start stop options = Ok s"
  shows "wf_query (s_query s) \<and> maxResultSize s \<noteq> 0 \<and> startRow s = start \<and> stopRow s = stop \<and>
    s_base s = \<lparr>b_id = i, b_ctx = ctx, b_table = table, b_key = start, b_region = None\<rparr>"
proof -
  let ?s = "Scan \<lparr>s_base = \<lparr>b_id = i, b_ctx = ctx, b_table = table, b_key = [], b_region = None\<rparr>,
        s_query = newBaseQuery, startRow = [], stopRow = [], scannerID = MaxUint64,
        maxResultSize = DefaultMaxResultSize, numberOfRows = DefaultNumberOfRows, reversed = False,
        closeScanner = False, allowPartialResults = False\<rparr>"
  obtain c where c: "applyOptions ?s options = Ok c" and s: "NewScanRange i ctx table start stop options =
    and_then (as_scan (Ok c)) (\<lambda>s. Ok (s\<lparr>startRow := start, stopRow := stop, s_base := (s_base s)\<lparr>b_key := start\<rparr>\<rparr>))"
    using assms(2) by (auto simp: NewScanRange_def baseScan_def as_scan_def)
  have "wf_call ?s" by (simp add: wf_newBaseQuery DefaultMaxResultSize_def)
  with applyOptions_keeps [OF assms(1) c] have "wf_call c" "call_base c = call_base ?s" "same_kind ?s c" by auto
  with s assms(2) show ?thesis by (cases c) (auto simp: as_scan_def)
qed

theorem NewScanRange_wf_witness:
  "\<exists>s. NewScanRange 1 2 (str ''t'') (str ''a'') (str ''b'') [MaxResultSize 5, TimeRangeUint64 3 9] = Ok s \<and>
    wf_query (s_query s) \<and> maxResultSize s \<noteq> 0 \<and> startRow s = str ''a'' \<and> stopRow s = str ''b'' \<and>
    s_base s = \<lparr>b_id = 1, b_ctx = 2, b_table = str ''t'', b_key = str ''a'', b_region = None\<rparr>"
proof -
  have opts: "\<forall>opt \<in> set [MaxResultSize 5, TimeRangeUint64 3 9]. library_option opt"
    by (simp add: library_option.intros)
  obtain s where "NewScanRange 1 2 (str ''t'') (str ''a'') (str ''b'') [MaxResultSize 5, TimeRangeUint64 3 9] = Ok s"
    by (simp add: NewScanRange_def baseScan_def as_scan_def MaxResultSize_def TimeRangeUint64_def)
  with NewScanRange_wf [OF opts this] show ?thesis by blast
qed

text \<open>
  Decoding a scan response from cell blocks succeeds exactly when there is a partial flag
  for every result and the buffer starts with the cells of the results, as many for each as
  the response says. The results then hold these cells in order with their flags, and the
  number of bytes read is the length of their encodings.
\<close>

theorem Scan_DeserializeCellBlocks_exact:
  assumes "length b < 2 ^ 32"
  shows "Scan_DeserializeCellBlocks resp b = Ok (resp', n) \<longleftrightarrow>
    length (CellsPerResult resp) \<le> length (PartialFlagPerResult resp) \<and>
    (\<exists>css. scan_layout b (CellsPerResult resp) css \<and> n = word_of_nat (length (encode_cells (concat css))) \<and>
      resp' = resp\<lparr>Results := map2 (\<lambda>cs p. Some (scan_result cs p)) css (PartialFlagPerResult resp) @
        replicate (length (PartialFlagPerResult resp) - length (CellsPerResult resp)) None\<rparr>)"
proof -
  have "Scan_DeserializeCellBlocks resp b = Ok (resp', n) \<longleftrightarrow>
    (\<exists>results. scan_results ([] @ b) (PartialFlagPerResult resp) 0 (CellsPerResult resp)
      (replicate (length (PartialFlagPerResult resp)) None) (word_of_nat (length ([] :: bytes))) = Ok (results, n) \<and>
      resp' = resp\<lparr>Results := results\<rparr>)"
    by (auto simp: Scan_DeserializeCellBlocks_def Let_def)
  then show ?thesis using assms by (subst (asm) scan_results_iff) auto
qed

theorem Scan_DeserializeCellBlocks_exact_witness:
  "let resp = \<lparr>CellsPerResult = [1], ScannerId = None, MoreResults = None, Results = [],
      PartialFlagPerResult = [False], MoreResultsInRegion = None\<rparr>; b = encode_cells [sample_cell] in
   Scan_DeserializeCellBlocks resp b = Ok (resp\<lparr>Results := [Some (scan_result [sample_cell] False)]\<rparr>, 26) \<longleftrightarrow>
    length (CellsPerResult resp) \<le> length (PartialFlagPerResult resp) \<and>
    (\<exists>css. scan_layout b (CellsPerResult resp) css \<and> (26 :: u32) = word_of_nat (length (encode_cells (concat css))) \<and>
      resp\<lparr>Results := [Some (scan_result [sample_cell] False)]\<rparr> =
      resp\<lparr>Results := map2 (\<lambda>cs p. Some (scan_result cs p)) css (PartialFlagPerResult resp) @
        replicate (length (PartialFlagPerResult resp) - length (CellsPerResult resp)) None\<rparr>)"
  unfolding Let_def
  by (rule Scan_DeserializeCellBlocks_exact)
    (simp add: sample_cell_def cell_len_def cellblockLen_def str_def)

end
