(* ===== verification/Mutation.thy ===== *)
theory Mutation
  imports Queries
begin

text \<open>
  \<^verbatim>\<open>Mutate\<close> and \<^verbatim>\<open>CheckAndPut\<close> (\<^verbatim>\<open>src/hrpc/mutate.go\<close>, \<^verbatim>\<open>checkandput.go\<close>): construction,
  the two forms in which the values travel (protobuf column values, or cell blocks after
  the message), and the decoding of the response. The values are visited twice when they
  are written as cell blocks, once to measure and once to write.
\<close>

section \<open>Messages\<close>

datatype delete_type =
  DELETE_ONE_VERSION | DELETE_MULTIPLE_VERSIONS | DELETE_FAMILY | DELETE_FAMILY_VERSION

record qualifier_value =
  qv_qualifier :: bytes
  qv_value :: bytes
  qv_timestamp :: "u64 option"
  qv_delete_type :: "delete_type option"

record column_value =
  cv_family :: bytes
  cv_qualifier_value :: "qualifier_value list"

record mutation_proto =
  mp_row :: bytes
  mp_mutate_type :: mutation_type
  mp_column_value :: "column_value list"
  mp_timestamp :: "u64 option"
  mp_attribute :: "(gostring \<times> bytes) list"
  mp_durability :: durability
  mp_associated_cell_count :: "u32 option"

datatype compare_type = LESS | LESS_OR_EQUAL | EQUAL | NOT_EQUAL | GREATER_OR_EQUAL | GREATER | NO_OP

record condition =
  cond_row :: bytes
  cond_family :: bytes
  cond_qualifier :: bytes
  cond_compare_type :: compare_type
  cond_comparator :: pb_comparator

record mutate_request =
  mreq_region :: region_specifier
  mreq_mutation :: mutation_proto
  mreq_condition :: "condition option"

record mutate_response =
  mresp_result :: "result option"
  mresp_processed :: "bool option"

section \<open>Construction\<close>

type_synonym family_values = "(gostring \<times> (gostring \<times> bytes) list option) list"

definition putType :: byte where "putType = 4"
definition deleteType :: byte where "deleteType = 8"
definition deleteFamilyVersionType :: byte where "deleteFamilyVersionType = 10"
definition deleteColumnType :: byte where "deleteColumnType = 12"
definition deleteFamilyType :: byte where "deleteFamilyType = 14"

lemmas type_codes = putType_def deleteType_def deleteFamilyVersionType_def deleteColumnType_def
  deleteFamilyType_def

definition emptyQualifier :: "(gostring \<times> bytes) list" where
  "emptyQualifier = [([], [])]"

definition attributeNameTTL :: gostring where "attributeNameTTL = str ''_ttl''"

text \<open>The mutation type of the zero value of \<^verbatim>\<open>Mutate\<close> is \<^verbatim>\<open>MutationProto_APPEND\<close>.\<close>

definition baseMutate ::
  "nat \<Rightarrow> nat \<Rightarrow> bytes \<Rightarrow> bytes \<Rightarrow> family_values \<Rightarrow> call_option list \<Rightarrow> (string, mutate) outcome" where
  "baseMutate i ctx table key vals options =
     and_then (applyOptions (Mutate \<lparr>
         m_base = \<lparr>b_id = i, b_ctx = ctx, b_table = table, b_key = key, b_region = None\<rparr>,
         mutationType = APPEND, m_values = vals, ttl = [], m_timestamp = MaxTimestamp,
         m_durability = UseDefault, deleteOneVersion = False, m_skipbatch = False\<rparr>) options)
       (\<lambda>c. case c of Mutate m \<Rightarrow> Ok m | _ \<Rightarrow> Err ''not a Mutate'')"

definition NewPut ::
  "nat \<Rightarrow> nat \<Rightarrow> bytes \<Rightarrow> bytes \<Rightarrow> family_values \<Rightarrow> call_option list \<Rightarrow> (string, mutate) outcome" where
  "NewPut i ctx table key vals options =
     and_then (baseMutate i ctx table key vals options) (\<lambda>m. Ok (m\<lparr>mutationType := PUT\<rparr>))"

definition NewPutStr ::
  "nat \<Rightarrow> nat \<Rightarrow> gostring \<Rightarrow> gostring \<Rightarrow> family_values \<Rightarrow> call_option list \<Rightarrow> (string, mutate) outcome" where
  "NewPutStr i ctx table key vals options = NewPut i ctx table key vals options"

definition NewDel ::
  "nat \<Rightarrow> nat \<Rightarrow> bytes \<Rightarrow> bytes \<Rightarrow> family_values \<Rightarrow> call_option list \<Rightarrow> (string, mutate) outcome" where
  "NewDel i ctx table key vals options =
     and_then (baseMutate i ctx table key vals options) (\<lambda>m.
       if length (m_values m) = 0 \<and> deleteOneVersion m
       then Err ''DeleteOneVersion option cannot be specified for delete entire row request''
       else Ok (m\<lparr>mutationType := DELETE\<rparr>))"

definition NewDelStr ::
  "nat \<Rightarrow> nat \<Rightarrow> gostring \<Rightarrow> gostring \<Rightarrow> family_values \<Rightarrow> call_option list \<Rightarrow> (string, mutate) outcome" where
  "NewDelStr i ctx table key vals options = NewDel i ctx table key vals options"

definition NewApp ::
  "nat \<Rightarrow> nat \<Rightarrow> bytes \<Rightarrow> bytes \<Rightarrow> family_values \<Rightarrow> call_option list \<Rightarrow> (string, mutate) outcome" where
  "NewApp i ctx table key vals options =
     and_then (baseMutate i ctx table key vals options) (\<lambda>m. Ok (m\<lparr>mutationType := APPEND\<rparr>))"

definition NewAppStr ::
  "nat \<Rightarrow> nat \<Rightarrow> gostring \<Rightarrow> gostring \<Rightarrow> family_values \<Rightarrow> call_option list \<Rightarrow> (string, mutate) outcome" where
  "NewAppStr i ctx table key vals options = NewApp i ctx table key vals options"

definition NewInc ::
  "nat \<Rightarrow> nat \<Rightarrow> bytes \<Rightarrow> bytes \<Rightarrow> family_values \<Rightarrow> call_option list \<Rightarrow> (string, mutate) outcome" where
  "NewInc i ctx table key vals options =
     and_then (baseMutate i ctx table key vals options) (\<lambda>m. Ok (m\<lparr>mutationType := INCREMENT\<rparr>))"

definition NewIncStr ::
  "nat \<Rightarrow> nat \<Rightarrow> gostring \<Rightarrow> gostring \<Rightarrow> family_values \<Rightarrow> call_option list \<Rightarrow> (string, mutate) outcome" where
  "NewIncStr i ctx table key vals options = NewInc i ctx table key vals options"

definition NewIncSingle ::
  "nat \<Rightarrow> nat \<Rightarrow> bytes \<Rightarrow> bytes \<Rightarrow> gostring \<Rightarrow> gostring \<Rightarrow> u64 \<Rightarrow> call_option list \<Rightarrow> (string, mutate) outcome" where
  "NewIncSingle i ctx table key family qualifier amount options =
     NewInc i ctx table key [(family, Some [(qualifier, put_uint64 amount)])] options"

definition NewIncStrSingle ::
  "nat \<Rightarrow> nat \<Rightarrow> gostring \<Rightarrow> gostring \<Rightarrow> gostring \<Rightarrow> gostring \<Rightarrow> u64 \<Rightarrow> call_option list \<Rightarrow> (string, mutate) outcome" where
  "NewIncStrSingle i ctx table key family qualifier amount options =
     NewIncSingle i ctx table key family qualifier amount options"

section \<open>Values as protobuf\<close>

text \<open>\<^verbatim>\<open>len\<close> of a possibly \<^verbatim>\<open>nil\<close> map, and iteration over it.\<close>

definition entries_of :: "(gostring \<times> bytes) list option \<Rightarrow> (gostring \<times> bytes) list" where
  "entries_of v = (case v of None \<Rightarrow> [] | Some xs \<Rightarrow> xs)"

definition family_to_proto ::
  "mutate \<Rightarrow> u64 option \<Rightarrow> gostring \<times> (gostring \<times> bytes) list option \<Rightarrow> column_value" where
  "family_to_proto m ts kv =
     (case kv of (k, v) \<Rightarrow>
        let (dt, v) =
          (if mutationType m = DELETE then
             (if length (entries_of v) = 0
              then (Some (if deleteOneVersion m then DELETE_FAMILY_VERSION else DELETE_FAMILY),
                    if v = None then Some emptyQualifier else v)
              else (Some (if deleteOneVersion m then DELETE_ONE_VERSION else DELETE_MULTIPLE_VERSIONS), v))
           else (None, v))
        in \<lparr>cv_family = k, cv_qualifier_value =
             map (\<lambda>(k1, v1). \<lparr>qv_qualifier = k1, qv_value = v1, qv_timestamp = ts, qv_delete_type = dt\<rparr>)
               (entries_of v)\<rparr>)"

definition valuesToProto :: "mutate \<Rightarrow> u64 option \<Rightarrow> column_value list" where
  "valuesToProto m ts = map (family_to_proto m ts) (m_values m)"

section \<open>Values as cell blocks\<close>

text \<open>The measuring loop, with the length and the number of cells.\<close>

fun measure_values :: "nat \<Rightarrow> family_values \<Rightarrow> nat \<Rightarrow> nat \<Rightarrow> nat \<times> nat" where
  "measure_values keyLen [] cbsLen count = (cbsLen, count)"
| "measure_values keyLen ((family, v) # vs) cbsLen count =
     (let v = (if v = None then emptyQualifier else entries_of v) in
      measure_values keyLen vs
        (cbsLen + sum_list (map (\<lambda>(k1, v1). cellblockLen keyLen (length family) (length k1) (length v1)) v))
        (count + length v))"

definition cell_type :: "mutate \<Rightarrow> (gostring \<times> bytes) list option \<Rightarrow> byte" where
  "cell_type m v =
     (if mutationType m = DELETE then
        (if length (entries_of v) = 0
         then (if deleteOneVersion m then deleteFamilyVersionType else deleteFamilyType)
         else (if deleteOneVersion m then deleteType else deleteColumnType))
      else putType)"

definition written_entries :: "mutate \<Rightarrow> (gostring \<times> bytes) list option \<Rightarrow> (gostring \<times> bytes) list" where
  "written_entries m v = (if mutationType m = DELETE \<and> v = None then emptyQualifier else entries_of v)"

text \<open>The writing loop.\<close>

fun write_values :: "mutate \<Rightarrow> u64 \<Rightarrow> family_values \<Rightarrow> bytes \<Rightarrow> bytes" where
  "write_values m ts [] cbs = cbs"
| "write_values m ts ((family, v) # vs) cbs =
     write_values m ts vs
       (fold (\<lambda>(k1, v1) cbs. appendCellblock (b_key (m_base m)) family k1 v1 ts (cell_type m v) cbs)
         (written_entries m v) cbs)"

definition MaxInt64 :: u64 where "MaxInt64 = 9223372036854775807"

definition valuesToCellblocks :: "mutate \<Rightarrow> ('e, bytes \<times> u32 \<times> u32) outcome" where
  "valuesToCellblocks m =
     (if length (m_values m) = 0 then Ok ([], 0, 0)
      else
        let (cbsLen, count) = measure_values (length (b_key (m_base m))) (m_values m) 0 0;
            ts = (if m_timestamp m = MaxTimestamp then MaxInt64 else m_timestamp m);
            cbs = write_values m ts (m_values m) []
        in if length cbs \<noteq> cbsLen then Panic (Explicit ''cellblocks len mismatch'')
           else Ok (cbs, word_of_nat count, word_of_nat (length cbs)))"

section \<open>The request\<close>

definition Mutate_toProto ::
  "mutate \<Rightarrow> bool \<Rightarrow> bytes list \<Rightarrow> ('e, mutate_request \<times> bytes list \<times> u32) outcome" where
  "Mutate_toProto m isCellblocks cbs =
     (let ts = (if m_timestamp m \<noteq> MaxTimestamp then Some (m_timestamp m) else None);
          mProto = \<lparr>mp_row = b_key (m_base m), mp_mutate_type = mutationType m, mp_column_value = [],
            mp_timestamp = ts, mp_attribute = (if length (ttl m) > 0 then [(attributeNameTTL, ttl m)] else []),
            mp_durability = m_durability m, mp_associated_cell_count = None\<rparr>
      in if isCellblocks then
           and_then (valuesToCellblocks m) (\<lambda>(cellblocks, count, size).
           and_then (regionSpecifier (m_base m)) (\<lambda>reg.
             Ok (\<lparr>mreq_region = reg, mreq_mutation = mProto\<lparr>mp_associated_cell_count := Some count\<rparr>,
                  mreq_condition = None\<rparr>,
                 (if size > 0 then cbs @ [cellblocks] else cbs), size)))
         else
           and_then (regionSpecifier (m_base m)) (\<lambda>reg.
             Ok (\<lparr>mreq_region = reg, mreq_mutation = mProto\<lparr>mp_column_value := valuesToProto m ts\<rparr>,
                  mreq_condition = None\<rparr>, cbs, 0)))"

definition Mutate_ToProto :: "mutate \<Rightarrow> ('e, mutate_request) outcome" where
  "Mutate_ToProto m = and_then (Mutate_toProto m False []) (\<lambda>(p, _, _). Ok p)"

definition Mutate_SerializeCellBlocks ::
  "mutate \<Rightarrow> bytes list \<Rightarrow> ('e, mutate_request \<times> bytes list \<times> u32) outcome" where
  "Mutate_SerializeCellBlocks m cbs = Mutate_toProto m True cbs"

definition Mutate_DeserializeCellBlocks ::
  "mutate_response \<Rightarrow> bytes \<Rightarrow> (cell_error, mutate_response \<times> u32) outcome" where
  "Mutate_DeserializeCellBlocks resp b =
     (case mresp_result resp of
        None \<Rightarrow> Ok (resp, 0)
      | Some r \<Rightarrow>
          and_then (deserializeCellBlocks b (GetAssociatedCellCount r)) (\<lambda>(cells, read).
            Ok (resp\<lparr>mresp_result := Some (r\<lparr>Cell := Cell r @ cells\<rparr>)\<rparr>, read)))"

section \<open>CheckAndPut\<close>

text \<open>\<open>cmp\<close> is what \<^verbatim>\<open>NewBinaryComparator(NewByteArrayComparable(v)).ConstructPBComparator\<close> returns.\<close>

definition NewCheckAndPut ::
  "(bytes \<Rightarrow> (string, pb_comparator) outcome) \<Rightarrow> mutate \<Rightarrow> gostring \<Rightarrow> gostring \<Rightarrow> bytes
     \<Rightarrow> (string, checkandput) outcome" where
  "NewCheckAndPut cmp put family qualifier expectedValue =
     (if mutationType put \<noteq> PUT then Err ''CheckAndPut only takes Put request''
      else and_then (cmp expectedValue) (\<lambda>comparator.
        Ok \<lparr>cp_put = put\<lparr>m_skipbatch := True\<rparr>, cp_family = family, cp_qualifier = qualifier,
            cp_comparator = comparator\<rparr>))"

definition CheckAndPut_ToProto :: "checkandput \<Rightarrow> ('e, mutate_request) outcome" where
  "CheckAndPut_ToProto cp =
     and_then (Mutate_toProto (cp_put cp) False []) (\<lambda>(mutateRequest, _, _).
       Ok (mutateRequest\<lparr>mreq_condition := Some \<lparr>
         cond_row = b_key (m_base (cp_put cp)), cond_family = cp_family cp, cond_qualifier = cp_qualifier cp,
         cond_compare_type = EQUAL, cond_comparator = cp_comparator cp\<rparr>\<rparr>))"

section \<open>The cells a mutation stands for\<close>

definition mutation_ts :: "mutate \<Rightarrow> u64" where
  "mutation_ts m = (if m_timestamp m = MaxTimestamp then MaxInt64 else m_timestamp m)"

text \<open>
  The types of a key in HBase's protocol, by the mutation, whether a deletion names no qualifier
  of the family, and whether it deletes one version only; and the qualifiers and values that the
  cells of a family have: a deletion of a whole family has one cell with an empty qualifier.
\<close>

fun key_type :: "mutation_type \<Rightarrow> bool \<Rightarrow> bool \<Rightarrow> byte" where
  "key_type DELETE False False = 12"
| "key_type DELETE False True = 8"
| "key_type DELETE True False = 14"
| "key_type DELETE True True = 10"
| "key_type _ _ _ = 4"

fun named_values :: "mutation_type \<Rightarrow> (gostring \<times> bytes) list option \<Rightarrow> (gostring \<times> bytes) list" where
  "named_values ty (Some xs) = xs"
| "named_values DELETE None = [([], [])]"
| "named_values _ None = []"

definition family_cells :: "mutate \<Rightarrow> gostring \<times> (gostring \<times> bytes) list option \<Rightarrow> cell list" where
  "family_cells m fv = map (\<lambda>(q, val). \<lparr>Row = b_key (m_base m), Family = fst fv, Qualifier = q,
     Timestamp = Some (mutation_ts m), CellType = Some (key_type (mutationType m) (snd fv \<in> {None, Some []}) (deleteOneVersion m)), Value = val\<rparr>)
     (named_values (mutationType m) (snd fv))"

definition mutation_cells :: "mutate \<Rightarrow> cell list" where
  "mutation_cells m = concat (map (family_cells m) (m_values m))"

text \<open>Only a deletion may name a family with a \<^verbatim>\<open>nil\<close> map.\<close>

definition families_given :: "mutate \<Rightarrow> bool" where
  "families_given m \<longleftrightarrow> mutationType m = DELETE \<or> (\<forall>fv \<in> set (m_values m). snd fv \<noteq> None)"

text \<open>The code writes these types and values.\<close>

lemma cell_type_key_type: "cell_type m v = key_type (mutationType m) (v \<in> {None, Some []}) (deleteOneVersion m)"
  by (cases "mutationType m"; cases "deleteOneVersion m"; cases v)
    (auto simp: cell_type_def entries_of_def type_codes)

lemma written_entries_named: "written_entries m v = named_values (mutationType m) v"
  by (cases "mutationType m"; cases v) (simp_all add: written_entries_def entries_of_def emptyQualifier_def)

lemma family_cells_written:
  "family_cells m fv = map (\<lambda>(q, val). \<lparr>Row = b_key (m_base m), Family = fst fv, Qualifier = q,
     Timestamp = Some (mutation_ts m), CellType = Some (cell_type m (snd fv)), Value = val\<rparr>)
     (written_entries m (snd fv))"
  by (simp add: family_cells_def cell_type_key_type written_entries_named)

lemma fold_appendCellblock:
  "fold (\<lambda>(q, v) cbs. appendCellblock row family q v ts ty cbs) xs cbs =
    cbs @ encode_cells (map (\<lambda>(q, v). \<lparr>Row = row, Family = family, Qualifier = q, Timestamp = Some ts,
      CellType = Some ty, Value = v\<rparr>) xs)"
proof (induction xs arbitrary: cbs)
  case (Cons x xs)
  obtain q v where x: "x = (q, v)" by (cases x)
  have "appendCellblock row family q v ts ty cbs = cbs @ appendCellblock row family q v ts ty []"
    by (rule appendCellblock_append)
  with Cons x show ?case by (simp add: encode_cell_def)
qed simp

lemma write_values_cells:
  "write_values m (mutation_ts m) vs cbs = cbs @ encode_cells (concat (map (family_cells m) vs))"
  by (induction m "mutation_ts m" vs cbs rule: write_values.induct)
    (simp_all add: fold_appendCellblock family_cells_written encode_cells_append)

definition entries_len :: "nat \<Rightarrow> gostring \<Rightarrow> (gostring \<times> bytes) list \<Rightarrow> nat" where
  "entries_len keyLen family xs =
     sum_list (map (\<lambda>(q, v). cellblockLen keyLen (length family) (length q) (length v)) xs)"

lemma length_family_cells:
  "length (encode_cells (family_cells m fv)) =
    entries_len (length (b_key (m_base m))) (fst fv) (written_entries m (snd fv))"
proof -
  have "length (encode_cells (map (\<lambda>(q, v). \<lparr>Row = row, Family = family, Qualifier = q, Timestamp = Some ts,
      CellType = Some ty, Value = v\<rparr>) xs)) = entries_len (length row) family xs" for row family ts ty xs
    by (induction xs) (auto simp: entries_len_def cell_len_def)
  then show ?thesis by (simp add: family_cells_written)
qed

definition measured_entries :: "(gostring \<times> bytes) list option \<Rightarrow> (gostring \<times> bytes) list" where
  "measured_entries v = (if v = None then emptyQualifier else entries_of v)"

lemma measure_values_eq:
  "measure_values keyLen vs l c =
    (l + sum_list (map (\<lambda>fv. entries_len keyLen (fst fv) (measured_entries (snd fv))) vs),
     c + sum_list (map (\<lambda>fv. length (measured_entries (snd fv))) vs))"
  by (induction keyLen vs l c rule: measure_values.induct)
    (auto simp: entries_len_def measured_entries_def Let_def)

lemma entries_len_empty_pos: "0 < entries_len keyLen family emptyQualifier"
  by (simp add: entries_len_def emptyQualifier_def cellblockLen_def Let_def)

lemma written_measured:
  "written_entries m v = measured_entries v \<or>
    (v = None \<and> mutationType m \<noteq> DELETE \<and> written_entries m v = [] \<and> measured_entries v = emptyQualifier)"
  by (auto simp: written_entries_def measured_entries_def entries_of_def)

text \<open>The two passes agree exactly when every family of a non-deletion has a map.\<close>

lemma passes_agree:
  fixes m defines "len \<equiv> \<lambda>f v. entries_len (length (b_key (m_base m))) f v"
  shows "sum_list (map (\<lambda>fv. len (fst fv) (written_entries m (snd fv))) vs) =
      sum_list (map (\<lambda>fv. len (fst fv) (measured_entries (snd fv))) vs) \<longleftrightarrow>
    mutationType m = DELETE \<or> (\<forall>fv \<in> set vs. snd fv \<noteq> None)"
proof -
  have le: "len f (written_entries m v) \<le> len f (measured_entries v)" for f v
    using written_measured [of m v] by (auto simp: len_def entries_len_def)
  have less: "len f (written_entries m None) < len f (measured_entries None)" if "mutationType m \<noteq> DELETE" for f
    using that entries_len_empty_pos by (simp add: len_def written_entries_def measured_entries_def entries_of_def entries_len_def)
  show ?thesis
  proof (induction vs)
    case (Cons fv vs)
    have sums: "sum_list (map (\<lambda>fv. len (fst fv) (written_entries m (snd fv))) vs) \<le>
      sum_list (map (\<lambda>fv. len (fst fv) (measured_entries (snd fv))) vs)"
      using le by (intro sum_list_mono) simp
    show ?case
    proof (cases "mutationType m \<noteq> DELETE \<and> snd fv = None")
      case True
      with less [of "fst fv"] sums show ?thesis by (auto simp: not_le [symmetric])
    next
      case False
      then have "written_entries m (snd fv) = measured_entries (snd fv)" using written_measured by blast
      with Cons False show ?thesis by auto
    qed
  qed simp
qed

lemma length_mutation_cells:
  "length (encode_cells (mutation_cells m)) = sum_list (map (\<lambda>fv.
    entries_len (length (b_key (m_base m))) (fst fv) (written_entries m (snd fv))) (m_values m))"
proof -
  have "length (encode_cells (concat (map (family_cells m) vs))) = sum_list (map (\<lambda>fv.
    entries_len (length (b_key (m_base m))) (fst fv) (written_entries m (snd fv))) vs)" for vs
    by (induction vs) (simp_all add: encode_cells_append length_family_cells)
  then show ?thesis by (simp add: mutation_cells_def)
qed

lemma count_mutation_cells:
  assumes "families_given m"
  shows "length (mutation_cells m) = sum_list (map (\<lambda>fv. length (measured_entries (snd fv))) (m_values m))"
proof -
  have "written_entries m (snd fv) = measured_entries (snd fv)" if "fv \<in> set (m_values m)" for fv
    using assms that written_measured [of m "snd fv"] by (auto simp: families_given_def)
  then show ?thesis
    by (auto simp: mutation_cells_def length_concat family_cells_written comp_def intro!: arg_cong [where f = sum_list])
qed

lemma valuesToCellblocks_eq:
  "valuesToCellblocks m = (if families_given m
    then Ok (encode_cells (mutation_cells m), word_of_nat (length (mutation_cells m)),
      word_of_nat (length (encode_cells (mutation_cells m))))
    else Panic (Explicit ''cellblocks len mismatch''))"
proof (cases "m_values m = []")
  case True
  then show ?thesis by (simp add: valuesToCellblocks_def families_given_def mutation_cells_def)
next
  case False
  have agree: "length (encode_cells (mutation_cells m)) =
    fst (measure_values (length (b_key (m_base m))) (m_values m) 0 0) \<longleftrightarrow> families_given m"
    using passes_agree [of m "m_values m"] by (simp add: measure_values_eq length_mutation_cells families_given_def)
  have cbs: "write_values m (mutation_ts m) (m_values m) [] = encode_cells (mutation_cells m)"
    using write_values_cells [of m "m_values m" "[]"] by (simp add: mutation_cells_def)
  show ?thesis using False agree count_mutation_cells [of m]
    unfolding valuesToCellblocks_def Let_def mutation_ts_def [symmetric] cbs measure_values_eq prod.case
    by simp
qed

text \<open>The blocks of a mutation decode to its cells.\<close>

lemma mutation_cells_decode:
  fixes m defines "cs \<equiv> mutation_cells m"
  assumes "\<forall>c \<in> set cs. encodable c" "length (encode_cells cs) < 2 ^ 32"
  shows "unat (word_of_nat (length (encode_cells cs)) :: u32) = length (encode_cells cs) \<and>
    unat (word_of_nat (length cs) :: u32) = length cs \<and>
    deserializeCellBlocks (encode_cells cs) (word_of_nat (length cs)) = Ok (cs, word_of_nat (length (encode_cells cs)))"
proof -
  have "length cs \<le> length (encode_cells cs)" for cs
  proof (induction cs)
    case (Cons c cs)
    with cell_len_pos [of c] show ?case by simp
  qed simp
  from this [of cs] assms(3) have "unat (word_of_nat (length cs) :: u32) = length cs"
    by (intro unat_word_of_nat) simp
  moreover have "unat (word_of_nat (length (encode_cells cs)) :: u32) = length (encode_cells cs)"
    using assms(3) by (intro unat_word_of_nat) simp
  ultimately show ?thesis using assms(2,3) by (auto simp: deserializeCellBlocks_iff)
qed

section \<open>Properties\<close>

text \<open>
  C21. What the server decodes from the cell blocks of a mutation is exactly the mutation: the
  blocks are produced, their announced length and cell count are right, and decoding that
  many cells gives, for each family in turn, one cell per qualifier with the row, the
  timestamp and the type of the mutation.
\<close>

theorem valuesToCellblocks_roundtrip:
  assumes "families_given m" "\<forall>c \<in> set (mutation_cells m). encodable c"
    and "length (encode_cells (mutation_cells m)) < 2 ^ 32"
  shows "\<exists>cbs count size. (valuesToCellblocks m :: ('e, bytes \<times> u32 \<times> u32) outcome) = Ok (cbs, count, size) \<and>
    unat size = length cbs \<and> unat count = length (mutation_cells m) \<and>
    deserializeCellBlocks cbs count = Ok (mutation_cells m, size)"
  using mutation_cells_decode [OF assms(2,3)] assms(1) by (intro exI) (simp add: valuesToCellblocks_eq)

definition sample_put :: mutate where
  "sample_put = \<lparr>m_base = \<lparr>b_id = 0, b_ctx = 0, b_table = str ''t'', b_key = str ''k'', b_region = None\<rparr>,
     mutationType = PUT, m_values = [(str ''cf'', Some [(str ''q'', str ''v'')])], ttl = [],
     m_timestamp = MaxTimestamp, m_durability = UseDefault, deleteOneVersion = False, m_skipbatch = False\<rparr>"

theorem valuesToCellblocks_roundtrip_witness:
  "\<exists>cbs count size. (valuesToCellblocks sample_put :: (unit, bytes \<times> u32 \<times> u32) outcome) = Ok (cbs, count, size) \<and>
    unat size = length cbs \<and> unat count = length (mutation_cells sample_put) \<and>
    deserializeCellBlocks cbs count = Ok (mutation_cells sample_put, size)"
  by (rule valuesToCellblocks_roundtrip)
    (simp_all add: sample_put_def families_given_def mutation_cells_def family_cells_def
      encodable_def cell_len_def cellblockLen_def str_def)

text \<open>
  C38. Writing the cell blocks of a mutation panics exactly when the mutation is not a
  deletion and names a family with a \<^verbatim>\<open>nil\<close> map: the measuring pass counts an empty
  qualifier for such a family whatever the mutation, the writing pass only for deletions.
\<close>

theorem valuesToCellblocks_panics:
  "(valuesToCellblocks m :: ('e, bytes \<times> u32 \<times> u32) outcome) = Panic (Explicit ''cellblocks len mismatch'') \<longleftrightarrow>
    mutationType m \<noteq> DELETE \<and> (\<exists>f. (f, None) \<in> set (m_values m))"
  by (simp add: valuesToCellblocks_eq families_given_def) force

text \<open>
  How a server reads the values of a protobuf mutation: a qualifier value without a timestamp
  gets the latest one, and its delete type, or that it has none, stands for the type of a key.
\<close>

fun delete_code :: "delete_type option \<Rightarrow> byte" where
  "delete_code None = 4"
| "delete_code (Some DELETE_ONE_VERSION) = 8"
| "delete_code (Some DELETE_MULTIPLE_VERSIONS) = 12"
| "delete_code (Some DELETE_FAMILY) = 14"
| "delete_code (Some DELETE_FAMILY_VERSION) = 10"

definition proto_cells :: "mutation_proto \<Rightarrow> cell list" where
  "proto_cells mp = concat (map (\<lambda>cv. map (\<lambda>qv.
     \<lparr>Row = mp_row mp, Family = cv_family cv, Qualifier = qv_qualifier qv,
      Timestamp = Some (or_default MaxInt64 (qv_timestamp qv)),
      CellType = Some (delete_code (qv_delete_type qv)), Value = qv_value qv\<rparr>)
     (cv_qualifier_value cv)) (mp_column_value mp))"

lemma proto_cells_family:
  fixes m defines "ts \<equiv> (if m_timestamp m \<noteq> MaxTimestamp then Some (m_timestamp m) else None)"
  shows "map (\<lambda>qv. \<lparr>Row = b_key (m_base m), Family = cv_family (family_to_proto m ts fv), Qualifier = qv_qualifier qv,
      Timestamp = Some (or_default MaxInt64 (qv_timestamp qv)),
      CellType = Some (delete_code (qv_delete_type qv)), Value = qv_value qv\<rparr>)
     (cv_qualifier_value (family_to_proto m ts fv)) = family_cells m fv"
  by (cases fv)
    (auto simp: family_cells_written family_to_proto_def written_entries_def cell_type_def entries_of_def type_codes
      or_default_def mutation_ts_def ts_def split: option.splits)

text \<open>The two messages of a mutation that was given a region.\<close>

lemma Mutate_ToProto_cells:
  assumes "b_region (m_base m) = Some reg"
  shows "\<exists>p. (Mutate_ToProto m :: ('e, mutate_request) outcome) = Ok p \<and>
    proto_cells (mreq_mutation p) = mutation_cells m \<and>
    (Mutate_SerializeCellBlocks m cbs :: ('e, _) outcome) = and_then (valuesToCellblocks m) (\<lambda>(cellblocks, count, size).
      Ok (p\<lparr>mreq_mutation := (mreq_mutation p)\<lparr>mp_column_value := [], mp_associated_cell_count := Some count\<rparr>\<rparr>,
        if size > 0 then cbs @ [cellblocks] else cbs, size))"
proof -
  let ?ts = "if m_timestamp m \<noteq> MaxTimestamp then Some (m_timestamp m) else None"
  let ?p = "\<lparr>mreq_region = ri_specifier reg, mreq_mutation = \<lparr>mp_row = b_key (m_base m), mp_mutate_type = mutationType m,
      mp_column_value = valuesToProto m ?ts, mp_timestamp = ?ts,
      mp_attribute = (if length (ttl m) > 0 then [(attributeNameTTL, ttl m)] else []),
      mp_durability = m_durability m, mp_associated_cell_count = None\<rparr>, mreq_condition = None\<rparr>"
  have "(Mutate_ToProto m :: ('e, mutate_request) outcome) = Ok ?p"
    using assms by (simp add: Mutate_ToProto_def Mutate_toProto_def regionSpecifier_def Let_def)
  moreover have "proto_cells (mreq_mutation ?p) = mutation_cells m"
    unfolding proto_cells_def mutation_cells_def valuesToProto_def by (simp only: mutate_request.simps
      mutation_proto.simps map_map comp_def proto_cells_family)
  moreover have "(Mutate_SerializeCellBlocks m cbs :: ('e, _) outcome) = and_then (valuesToCellblocks m) (\<lambda>(cellblocks, count, size).
      Ok (?p\<lparr>mreq_mutation := (mreq_mutation ?p)\<lparr>mp_column_value := [], mp_associated_cell_count := Some count\<rparr>\<rparr>,
        if size > 0 then cbs @ [cellblocks] else cbs, size))"
    using assms by (simp add: Mutate_SerializeCellBlocks_def Mutate_toProto_def regionSpecifier_def Let_def)
  ultimately show ?thesis by blast
qed

text \<open>
  C22. The two forms in which a mutation travels say the same. The message of the cell-block form is
  that of the protobuf form without the column values and with the number of cells, and what
  a server decodes from the cell blocks behind it are the cells it reads in the column values
  of the protobuf form, in the same order: with the same row, family, qualifier, value,
  timestamp and type.
\<close>

theorem mutation_forms_agree:
  assumes "b_region (m_base m) = Some reg" "families_given m" "\<forall>c \<in> set (mutation_cells m). encodable c"
    and "length (encode_cells (mutation_cells m)) < 2 ^ 32"
  shows "\<exists>p p' blocks count size. (Mutate_ToProto m :: ('e, mutate_request) outcome) = Ok p \<and>
    (Mutate_SerializeCellBlocks m cbs :: ('e, _) outcome) = Ok (p', cbs @ blocks, size) \<and>
    p' = p\<lparr>mreq_mutation := (mreq_mutation p)\<lparr>mp_column_value := [], mp_associated_cell_count := Some count\<rparr>\<rparr> \<and>
    deserializeCellBlocks (concat blocks) count = Ok (proto_cells (mreq_mutation p), size)"
proof -
  let ?cells = "mutation_cells m" and ?bytes = "encode_cells (mutation_cells m)"
  let ?size = "word_of_nat (length ?bytes) :: u32"
  obtain p where p: "(Mutate_ToProto m :: ('e, mutate_request) outcome) = Ok p" "proto_cells (mreq_mutation p) = ?cells"
    "(Mutate_SerializeCellBlocks m cbs :: ('e, _) outcome) = and_then (valuesToCellblocks m) (\<lambda>(cellblocks, count, size).
       Ok (p\<lparr>mreq_mutation := (mreq_mutation p)\<lparr>mp_column_value := [], mp_associated_cell_count := Some count\<rparr>\<rparr>,
         if size > 0 then cbs @ [cellblocks] else cbs, size))"
    using Mutate_ToProto_cells [OF assms(1)] by blast
  have decode: "unat ?size = length ?bytes"
    "deserializeCellBlocks ?bytes (word_of_nat (length ?cells)) = Ok (?cells, ?size)"
    using mutation_cells_decode [OF assms(3,4)] by simp_all
  define blocks where "blocks = (if ?size > 0 then [?bytes] else [])"
  have "concat blocks = ?bytes" using decode(1) by (auto simp: blocks_def word_gt_0 simp flip: unat_eq_zero)
  then show ?thesis using p decode(2) assms(2)
    by (intro exI [of _ p] exI [of _ blocks] exI [of _ "word_of_nat (length ?cells)"] exI [of _ ?size] exI conjI)
      (auto simp: valuesToCellblocks_eq blocks_def)
qed

text \<open>The deletion of one version of a family.\<close>

definition sample_delete :: mutate where
  "sample_delete = sample_put\<lparr>m_base := (m_base sample_put)\<lparr>b_region := Some (NewInfo 1 1 None (str ''t'') (str ''t,,1.a.'') [] [])\<rparr>,
     mutationType := DELETE, m_values := [(str ''cf'', None)], m_timestamp := 5, deleteOneVersion := True\<rparr>"

theorem mutation_forms_agree_witness:
  "\<exists>p p' blocks count size. (Mutate_ToProto sample_delete :: (unit, mutate_request) outcome) = Ok p \<and>
    (Mutate_SerializeCellBlocks sample_delete [] :: (unit, _) outcome) = Ok (p', [] @ blocks, size) \<and>
    p' = p\<lparr>mreq_mutation := (mreq_mutation p)\<lparr>mp_column_value := [], mp_associated_cell_count := Some count\<rparr>\<rparr> \<and>
    deserializeCellBlocks (concat blocks) count = Ok (proto_cells (mreq_mutation p), size)"
  by (rule mutation_forms_agree)
    (simp_all add: sample_delete_def sample_put_def families_given_def mutation_cells_def family_cells_def
      encodable_def cell_len_def cellblockLen_def str_def)

end
