(* ===== verification/Region_Errors.thy ===== *)
theory Region_Errors
  imports Mutation
begin

text \<open>
  The errors of a region client (\<^verbatim>\<open>src/region/client.go\<close>) and the results it delivers. A Java
  exception is mapped to an error class that decides what the caller does: close the
  client, re-establish the region, retry after a while, or give up.
\<close>

datatype rpc_error =
    ServerError string
  | RetryableError string
  | NotServingRegionError string
  | OtherError string

definition ErrMissingCallID :: rpc_error where
  "ErrMissingCallID = ServerError ''got a response with a nonsensical call ID''"

definition ErrClientClosed :: rpc_error where
  "ErrClientClosed = ServerError ''client is closed''"

definition javaRegionExceptions :: "(string \<times> string) list" where
  "javaRegionExceptions =
     [(''org.apache.hadoop.hbase.NotServingRegionException'', ''''),
      (''org.apache.hadoop.hbase.exceptions.RegionMovedException'', ''''),
      (''java.io.IOException'', ''Cannot append; log is closed'')]"

definition javaRetryableExceptions :: "(string \<times> string) list" where
  "javaRetryableExceptions =
     [(''org.apache.hadoop.hbase.CallQueueTooBigException'', ''''),
      (''org.apache.hadoop.hbase.exceptions.RegionOpeningException'', ''''),
      (''org.apache.hadoop.hbase.ipc.ServerNotRunningYetException'', ''''),
      (''org.apache.hadoop.hbase.quotas.RpcThrottlingException'', ''''),
      (''org.apache.hadoop.hbase.RetryImmediatelyException'', ''''),
      (''org.apache.hadoop.hbase.RegionTooBusyException'', '''')]"

definition javaServerExceptions :: "(string \<times> string) list" where
  "javaServerExceptions =
     [(''org.apache.hadoop.hbase.regionserver.RegionServerAbortedException'', ''''),
      (''org.apache.hadoop.hbase.regionserver.RegionServerStoppedException'', '''')]"

text \<open>\<^verbatim>\<open>strings.Contains\<close>.\<close>

fun starts_with :: "'a list \<Rightarrow> 'a list \<Rightarrow> bool" where
  "starts_with s [] = True"
| "starts_with [] (y # ys) = False"
| "starts_with (x # xs) (y # ys) = (x = y \<and> starts_with xs ys)"

fun contains :: "'a list \<Rightarrow> 'a list \<Rightarrow> bool" where
  "contains [] t = (t = [])"
| "contains (x # xs) t = (starts_with (x # xs) t \<or> contains xs t)"

lemma starts_with_iff: "starts_with s t \<longleftrightarrow> (\<exists>r. s = t @ r)"
  by (induction s t rule: starts_with.induct) auto

lemma contains_iff: "contains s t \<longleftrightarrow> (\<exists>p r. s = p @ t @ r)"
proof (induction s)
  case (Cons x s)
  have "(\<exists>p r. x # s = p @ t @ r) \<longleftrightarrow> (\<exists>r. x # s = t @ r) \<or> (\<exists>p r. s = p @ t @ r)"
    by (metis append_Cons append_Nil list.sel(3) neq_Nil_conv)
  with Cons show ?case by (simp add: starts_with_iff)
qed simp

lemma contains_Nil [simp]: "contains s []"
  by (cases s) auto

definition listed :: "(string \<times> string) list \<Rightarrow> string \<Rightarrow> string \<Rightarrow> bool" where
  "listed exceptions cls stack \<longleftrightarrow>
     (case map_of exceptions cls of None \<Rightarrow> False | Some s \<Rightarrow> contains stack s)"

definition exceptionToError :: "string \<Rightarrow> string \<Rightarrow> rpc_error" where
  "exceptionToError cls stack =
     (let err = ''HBase Java exception '' @ cls @ '':'' @ [CHR 0x0A] @ stack in
      if listed javaRetryableExceptions cls stack then RetryableError err
      else if listed javaRegionExceptions cls stack then NotServingRegionError err
      else if listed javaServerExceptions cls stack then ServerError err
      else OtherError err)"

section \<open>Messages and results\<close>

text \<open>
  The protobuf responses. A message inside a response that the client only passes on is given
  by its encoding.
\<close>

datatype proc_state = PROC_NOT_FOUND | PROC_RUNNING | PROC_FINISHED

record generic_exception =
  ClassName :: string
  ExMessage :: string

record foreign_exception =
  GenericException :: "generic_exception option"

datatype admin_response =
    CreateTableResponse "u64 option"
  | CreateNamespaceResponse
  | DeleteTableResponse "u64 option"
  | DisableTableResponse "u64 option"
  | EnableTableResponse "u64 option"
  | GetTableNamesResponse "table_name list"
  | MoveRegionResponse
  | SnapshotResponse
  | IsSnapshotDoneResponse "bool option"
  | DeleteSnapshotResponse
  | GetCompletedSnapshotsResponse "bytes list"
  | RestoreSnapshotResponse
  | IsRestoreSnapshotDoneResponse "bool option"
  | GetClusterStatusResponse "bytes option"
  | GetProcedureResultResponse "proc_state option" "foreign_exception option"
  | SetBalancerRunningResponse "bool option"

datatype rpc_msg =
    GetResponse get_response
  | MutateResponse mutate_response
  | ScanResponse scan_response
  | AdminResponse admin_response

type_synonym rpc_result = "rpc_error + rpc_msg option"

text \<open>\<^verbatim>\<open>NewResponse\<close>: an empty message of the call's response type.\<close>

fun admin_NewResponse :: "admin_call \<Rightarrow> admin_response" where
  "admin_NewResponse (CreateTable _) = CreateTableResponse None"
| "admin_NewResponse (CreateNamespace _) = CreateNamespaceResponse"
| "admin_NewResponse DeleteTable = DeleteTableResponse None"
| "admin_NewResponse DisableTable = DisableTableResponse None"
| "admin_NewResponse EnableTable = EnableTableResponse None"
| "admin_NewResponse (ListTableNames _) = GetTableNamesResponse []"
| "admin_NewResponse (MoveRegion _) = MoveRegionResponse"
| "admin_NewResponse (Snapshot _) = SnapshotResponse"
| "admin_NewResponse (SnapshotDone _) = IsSnapshotDoneResponse None"
| "admin_NewResponse (DeleteSnapshot _) = DeleteSnapshotResponse"
| "admin_NewResponse ListSnapshots = GetCompletedSnapshotsResponse []"
| "admin_NewResponse (RestoreSnapshot _) = RestoreSnapshotResponse"
| "admin_NewResponse (RestoreSnapshotDone _) = IsRestoreSnapshotDoneResponse None"
| "admin_NewResponse ClusterStatus = GetClusterStatusResponse None"
| "admin_NewResponse (GetProcedureState _) = GetProcedureResultResponse None None"
| "admin_NewResponse (SetBalancer _) = SetBalancerRunningResponse None"

fun NewResponse :: "call \<Rightarrow> rpc_msg" where
  "NewResponse (Get g) = GetResponse \<lparr>gresp_result = None\<rparr>"
| "NewResponse (Mutate m) = MutateResponse \<lparr>mresp_result = None, mresp_processed = None\<rparr>"
| "NewResponse (CheckAndPut cp) = MutateResponse \<lparr>mresp_result = None, mresp_processed = None\<rparr>"
| "NewResponse (Scan s) = ScanResponse \<lparr>CellsPerResult = [], ScannerId = None, MoreResults = None,
     Results = [], PartialFlagPerResult = [], MoreResultsInRegion = None\<rparr>"
| "NewResponse (Admin b a) = AdminResponse (admin_NewResponse a)"

text \<open>The errors of the package \<^verbatim>\<open>gohbase\<close> (\<^verbatim>\<open>src/rpc.go\<close>), which pass on those of a region client.\<close>

datatype go_error =
    RegionError rpc_error
  | TableNotFound
  | CannotFindRegion
  | GohbaseClosed
  | ContextEnded
  | NotExecutedError
  | Message string

section \<open>Classes of exceptions\<close>

text \<open>No exception is in two of the tables, so the order of the tests does not matter.\<close>

lemma exception_tables_disjoint:
  "set (map fst javaRetryableExceptions) \<inter> set (map fst javaRegionExceptions) = {}"
  "set (map fst javaRetryableExceptions) \<inter> set (map fst javaServerExceptions) = {}"
  "set (map fst javaRegionExceptions) \<inter> set (map fst javaServerExceptions) = {}"
  by (simp_all add: javaRetryableExceptions_def javaRegionExceptions_def javaServerExceptions_def)

lemma listed_class: "listed t cls stack \<Longrightarrow> cls \<in> set (map fst t)"
  by (auto simp: listed_def image_iff split: option.splits dest: map_of_SomeD intro!: bexI)

text \<open>
  The class of the error of a Java exception depends on one table only: it is retryable,
  a region error or a server error exactly when the corresponding table lists the exception
  with a text that occurs in the stack trace, and it is passed through exactly when no table
  does.
\<close>

theorem exceptionToError_class:
  "((\<exists>e. exceptionToError cls stack = RetryableError e) \<longleftrightarrow> listed javaRetryableExceptions cls stack) \<and>
   ((\<exists>e. exceptionToError cls stack = NotServingRegionError e) \<longleftrightarrow> listed javaRegionExceptions cls stack) \<and>
   ((\<exists>e. exceptionToError cls stack = ServerError e) \<longleftrightarrow> listed javaServerExceptions cls stack) \<and>
   ((\<exists>e. exceptionToError cls stack = OtherError e) \<longleftrightarrow>
      \<not> listed javaRetryableExceptions cls stack \<and> \<not> listed javaRegionExceptions cls stack \<and>
      \<not> listed javaServerExceptions cls stack) \<and>
   (listed t cls stack \<longleftrightarrow> (\<exists>s p r. map_of t cls = Some s \<and> stack = p @ s @ r))"
proof -
  have "listed t cls stack \<longleftrightarrow> (\<exists>s p r. map_of t cls = Some s \<and> stack = p @ s @ r)"
    by (auto simp: listed_def contains_iff split: option.splits)
  moreover have "\<not> (listed javaRetryableExceptions cls stack \<and> listed javaRegionExceptions cls stack)"
    "\<not> (listed javaRetryableExceptions cls stack \<and> listed javaServerExceptions cls stack)"
    "\<not> (listed javaRegionExceptions cls stack \<and> listed javaServerExceptions cls stack)"
    using exception_tables_disjoint listed_class [of _ cls stack] by blast+
  ultimately show ?thesis by (auto simp: exceptionToError_def Let_def)
qed

end
