(* ===== verification/Multi.thy ===== *)
theory Multi
  imports Region_Errors "HOL-Library.Multiset"
begin

text \<open>
  Batching of calls into one request (\<^verbatim>\<open>src/region/multi.go\<close>): grouping by region, the order
  of the cell blocks, the decoding of the response and its distribution to the calls.
  A delivery is the identity of a call with the result sent on its channel. The iteration
  over the map of regions is a parameter \<open>order\<close> that permutes its entries.
\<close>

section \<open>The batch\<close>

text \<open>A call whose context expired before it was sent is set to \<^verbatim>\<open>nil\<close>, here \<open>None\<close>.\<close>

record multi =
  mu_size :: nat
  mu_calls :: "call option list"
  mu_regions :: "region list"

definition newMulti :: "nat \<Rightarrow> multi" where
  "newMulti queueSize = \<lparr>mu_size = queueSize, mu_calls = [], mu_regions = []\<rparr>"

definition freeMulti :: "multi \<Rightarrow> multi" where
  "freeMulti m = m\<lparr>mu_calls := [], mu_regions := [], mu_size := 0\<rparr>"

definition multi_add :: "multi \<Rightarrow> call list \<Rightarrow> multi \<times> bool" where
  "multi_add m calls =
     (let m' = m\<lparr>mu_calls := mu_calls m @ map Some calls\<rparr> in (m', length (mu_calls m') \<ge> mu_size m'))"

definition multi_len :: "multi \<Rightarrow> nat" where
  "multi_len m = length (mu_calls m)"

text \<open>\<^verbatim>\<open>get\<close>: the second component of the outcome is \<open>None\<close> for a call that was set to \<^verbatim>\<open>nil\<close>.\<close>

definition multi_get :: "multi \<Rightarrow> u32 \<Rightarrow> ('e, call option) outcome" where
  "multi_get m i =
     (if i = 0 then Panic (Explicit ''index cannot be 0'') else index (mu_calls m) (unat (i - 1)))"

section \<open>The request\<close>

datatype action_body = ActionGet pb_get | ActionMutation mutation_proto

record pb_action =
  a_index :: u32
  a_body :: action_body

record actions =
  as_pbs :: "pb_action list"
  as_cellblocks :: "bytes list"

record region_action =
  ra_region :: region_specifier
  ra_action :: "pb_action list"

text \<open>
  The message of one call and the cell blocks it appends: the test
  \<^verbatim>\<open>c.(canSerializeCellBlocks)\<close> holds for mutations, of which \<^verbatim>\<open>CheckAndPut\<close> disables it.
\<close>

fun call_action :: "bool \<Rightarrow> call \<Rightarrow> bytes list \<Rightarrow> ('e, action_body \<times> bytes list \<times> u32) outcome" where
  "call_action isCellblocks (Get g) cbs =
     and_then (Get_ToProto g) (\<lambda>r. Ok (ActionGet (gr_get r), cbs, 0))"
| "call_action isCellblocks (Mutate m) cbs =
     (if isCellblocks
      then and_then (Mutate_SerializeCellBlocks m cbs) (\<lambda>(r, cbs', sz). Ok (ActionMutation (mreq_mutation r), cbs', sz))
      else and_then (Mutate_ToProto m) (\<lambda>r. Ok (ActionMutation (mreq_mutation r), cbs, 0)))"
| "call_action isCellblocks (CheckAndPut cp) cbs =
     and_then (CheckAndPut_ToProto cp) (\<lambda>r. Ok (ActionMutation (mreq_mutation r), cbs, 0))"
| "call_action isCellblocks (Scan s) cbs =
     and_then (Scan_ToProto s) (\<lambda>r. Panic (Explicit ''unsupported call type for Multi''))"
| "call_action isCellblocks (Admin b a) cbs = Panic (Explicit ''unsupported call type for Multi'')"

text \<open>The map from regions, compared as objects, to their actions, in the order of insertion.\<close>

type_synonym region_map = "(region option \<times> actions) list"

definition same_region :: "region option \<Rightarrow> region option \<Rightarrow> bool" where
  "same_region a b \<longleftrightarrow> map_option ri_ptr a = map_option ri_ptr b"

definition lookup_actions :: "region option \<Rightarrow> region_map \<Rightarrow> actions" where
  "lookup_actions r m =
     (case find (\<lambda>e. same_region (fst e) r) m of
        None \<Rightarrow> \<lparr>as_pbs = [], as_cellblocks = []\<rparr>
      | Some e \<Rightarrow> snd e)"

fun set_actions :: "region option \<Rightarrow> actions \<Rightarrow> region_map \<Rightarrow> region_map" where
  "set_actions r a [] = [(r, a)]"
| "set_actions r a (e # m) = (if same_region (fst e) r then (fst e, a) # m else e # set_actions r a m)"

text \<open>
  The loop over the calls. \<open>expired\<close> tells whether a context has expired. The index sent
  for the call at position \<open>i\<close> is \<open>i + 1\<close>.
\<close>

fun collect_actions ::
  "(nat \<Rightarrow> bool) \<Rightarrow> bool \<Rightarrow> nat \<Rightarrow> call option list \<Rightarrow> region_map \<Rightarrow> u32
     \<Rightarrow> ('e, call option list \<times> region_map \<times> u32) outcome" where
  "collect_actions expired isCellblocks i [] m cbsSize = Ok ([], m, cbsSize)"
| "collect_actions expired isCellblocks i (None # cs) m cbsSize = Panic NilDereference"
| "collect_actions expired isCellblocks i (Some c # cs) m cbsSize =
     (if expired (b_ctx (call_base c)) then
        and_then (collect_actions expired isCellblocks (Suc i) cs m cbsSize) (\<lambda>(cs', m', cbsSize').
          Ok (None # cs', m', cbsSize'))
      else
        let r = b_region (call_base c); as = lookup_actions r m in
        and_then (call_action isCellblocks c (as_cellblocks as)) (\<lambda>(body, cbs, sz).
        and_then (collect_actions expired isCellblocks (Suc i) cs
            (set_actions r \<lparr>as_pbs = as_pbs as @ [\<lparr>a_index = word_of_nat i + 1, a_body = body\<rparr>], as_cellblocks = cbs\<rparr> m)
            (cbsSize + sz)) (\<lambda>(cs', m', cbsSize').
          Ok (Some c # cs', m', cbsSize'))))"

definition multi_toProto ::
  "(region_map \<Rightarrow> region_map) \<Rightarrow> (nat \<Rightarrow> bool) \<Rightarrow> multi \<Rightarrow> bool \<Rightarrow> bytes list
     \<Rightarrow> ('e, multi \<times> region_action list \<times> bytes list \<times> u32) outcome" where
  "multi_toProto order expired m isCellblocks cbs =
     and_then (collect_actions expired isCellblocks 0 (mu_calls m) [] 0) (\<lambda>(calls, perReg, cbsSize).
       let entries = order perReg in
       if \<exists>e \<in> set entries. fst e = None then Panic NilDereference
       else Ok (m\<lparr>mu_calls := calls, mu_regions := map (the \<circ> fst) entries\<rparr>,
                map (\<lambda>(r, as). \<lparr>ra_region = \<lparr>SpecType = REGION_NAME, SpecValue = ri_name (the r)\<rparr>,
                       ra_action = as_pbs as\<rparr>) entries,
                cbs @ concat (map (as_cellblocks \<circ> snd) entries), cbsSize))"

definition multi_ToProto ::
  "(region_map \<Rightarrow> region_map) \<Rightarrow> (nat \<Rightarrow> bool) \<Rightarrow> multi \<Rightarrow> ('e, multi \<times> region_action list) outcome" where
  "multi_ToProto order expired m =
     and_then (multi_toProto order expired m False []) (\<lambda>(m', msg, _, _). Ok (m', msg))"

definition multi_SerializeCellBlocks ::
  "(region_map \<Rightarrow> region_map) \<Rightarrow> (nat \<Rightarrow> bool) \<Rightarrow> multi \<Rightarrow> bytes list
     \<Rightarrow> ('e, multi \<times> region_action list \<times> bytes list \<times> u32) outcome" where
  "multi_SerializeCellBlocks order expired m cbs = multi_toProto order expired m True cbs"

section \<open>The response\<close>

record name_bytes_pair =
  nbp_name :: "string option"
  nbp_value :: string

record result_or_exception =
  roe_index :: "u32 option"
  roe_result :: "result option"
  roe_exception :: "name_bytes_pair option"

record region_action_result =
  rar_results :: "result_or_exception list"
  rar_exception :: "name_bytes_pair option"

definition GetIndex :: "result_or_exception \<Rightarrow> u32" where
  "GetIndex roe = (case roe_index roe of None \<Rightarrow> 0 | Some i \<Rightarrow> i)"

datatype multi_error =
    ExceptionWithResults nat
  | NoIndex
  | NoResultOrException
  | ResultAndException
  | CellblockError string cell_error

text \<open>
  Decoding the cells of one result; the call's response is filled with the result, whose
  cells are appended in place.
\<close>

fun deserialize_result :: "call \<Rightarrow> result \<Rightarrow> bytes \<Rightarrow> (cell_error, result \<times> u32) outcome" where
  "deserialize_result (Get g) r b =
     and_then (Get_DeserializeCellBlocks \<lparr>gresp_result = Some r\<rparr> b) (\<lambda>(resp, n). Ok (the (gresp_result resp), n))"
| "deserialize_result (Mutate m) r b =
     and_then (Mutate_DeserializeCellBlocks \<lparr>mresp_result = Some r, mresp_processed = None\<rparr> b)
       (\<lambda>(resp, n). Ok (the (mresp_result resp), n))"
| "deserialize_result (CheckAndPut cp) r b =
     and_then (Mutate_DeserializeCellBlocks \<lparr>mresp_result = Some r, mresp_processed = None\<rparr> b)
       (\<lambda>(resp, n). Ok (the (mresp_result resp), n))"
| "deserialize_result (Scan s) r b = Panic (Explicit ''unsupported response type for Multi'')"
| "deserialize_result (Admin a1 a2) r b = Panic (Explicit ''interface conversion: not canDeserializeCellBlocks'')"

fun wrap_cell :: "string \<Rightarrow> (cell_error, 'a) outcome \<Rightarrow> (multi_error, 'a) outcome" where
  "wrap_cell name (Ok x) = Ok x"
| "wrap_cell name (Err e) = Err (CellblockError name e)"
| "wrap_cell name (Panic p) = Panic p"

lemma wrap_cell_eq_Ok [simp]: "wrap_cell name m = Ok x \<longleftrightarrow> m = Ok x"
  by (cases m) auto

fun deserialize_roes ::
  "multi \<Rightarrow> bytes \<Rightarrow> result_or_exception list \<Rightarrow> u32 \<Rightarrow> (multi_error, result_or_exception list \<times> u32) outcome" where
  "deserialize_roes m b [] nread = Ok ([], nread)"
| "deserialize_roes m b (roe # roes) nread =
     (if GetIndex roe = 0 then Err NoIndex
      else if roe_result roe = None \<and> roe_exception roe = None then Err NoResultOrException
      else if roe_result roe \<noteq> None \<and> roe_exception roe \<noteq> None then Err ResultAndException
      else case roe_result roe of
        None \<Rightarrow> and_then (deserialize_roes m b roes nread) (\<lambda>(roes', n). Ok (roe # roes', n))
      | Some r \<Rightarrow>
          and_then (multi_get m (GetIndex roe)) (\<lambda>c.
          case c of
            None \<Rightarrow> Panic NilDereference
          | Some c \<Rightarrow>
              and_then (slice_from b (unat nread)) (\<lambda>b'.
              and_then (wrap_cell (call_name c) (deserialize_result c r b')) (\<lambda>(r', n).
              and_then (deserialize_roes m b roes (nread + n)) (\<lambda>(roes', n').
                Ok (roe\<lparr>roe_result := Some r'\<rparr> # roes', n'))))))"

fun deserialize_rars ::
  "multi \<Rightarrow> bytes \<Rightarrow> region_action_result list \<Rightarrow> u32 \<Rightarrow> (multi_error, region_action_result list \<times> u32) outcome" where
  "deserialize_rars m b [] nread = Ok ([], nread)"
| "deserialize_rars m b (rar # rars) nread =
     (case rar_exception rar of
        Some e \<Rightarrow>
          if length (rar_results rar) \<noteq> 0 then Err (ExceptionWithResults (length (rar_results rar)))
          else and_then (deserialize_rars m b rars nread) (\<lambda>(rars', n). Ok (rar # rars', n))
      | None \<Rightarrow>
          and_then (deserialize_roes m b (rar_results rar) nread) (\<lambda>(roes', n).
          and_then (deserialize_rars m b rars n) (\<lambda>(rars', n').
            Ok (rar\<lparr>rar_results := roes'\<rparr> # rars', n'))))"

definition multi_DeserializeCellBlocks ::
  "multi \<Rightarrow> region_action_result list \<Rightarrow> bytes \<Rightarrow> (multi_error, region_action_result list \<times> u32) outcome" where
  "multi_DeserializeCellBlocks m mr b = deserialize_rars m b mr 0"

section \<open>Distributing results\<close>

type_synonym delivery = "nat \<times> rpc_result"

definition call_id :: "call \<Rightarrow> nat" where
  "call_id c = b_id (call_base c)"

definition pair_error :: "name_bytes_pair \<Rightarrow> ('e, rpc_error) outcome" where
  "pair_error e =
     (case nbp_name e of None \<Rightarrow> Panic NilDereference | Some n \<Rightarrow> Ok (exceptionToError n (nbp_value e)))"

fun result_msg :: "call \<Rightarrow> result option \<Rightarrow> ('e, rpc_msg) outcome" where
  "result_msg (Get g) r = Ok (GetResponse \<lparr>gresp_result = r\<rparr>)"
| "result_msg (Mutate m) r = Ok (MutateResponse \<lparr>mresp_result = r, mresp_processed = None\<rparr>)"
| "result_msg (CheckAndPut cp) r = Ok (MutateResponse \<lparr>mresp_result = r, mresp_processed = None\<rparr>)"
| "result_msg (Scan s) r = Panic (Explicit ''unsupported response type for Multi'')"
| "result_msg (Admin b a) r = Panic (Explicit ''unsupported response type for Multi'')"

fun fail_region :: "region \<Rightarrow> rpc_error \<Rightarrow> call option list \<Rightarrow> delivery list" where
  "fail_region reg err [] = []"
| "fail_region reg err (None # cs) = fail_region reg err cs"
| "fail_region reg err (Some c # cs) =
     (if same_region (b_region (call_base c)) (Some reg)
      then (call_id c, Inl err) # fail_region reg err cs else fail_region reg err cs)"

fun return_roes :: "multi \<Rightarrow> result_or_exception list \<Rightarrow> ('e, delivery list) outcome" where
  "return_roes m [] = Ok []"
| "return_roes m (roe # roes) =
     and_then (multi_get m (GetIndex roe)) (\<lambda>c.
     case c of
       None \<Rightarrow> Panic NilDereference
     | Some c \<Rightarrow>
         and_then (case roe_exception roe of
             Some e \<Rightarrow> and_then (pair_error e) (\<lambda>err. Ok (call_id c, Inl err))
           | None \<Rightarrow> and_then (result_msg c (roe_result roe)) (\<lambda>msg. Ok (call_id c, Inr (Some msg)))) (\<lambda>d.
         and_then (return_roes m roes) (\<lambda>ds. Ok (d # ds))))"

fun return_rars :: "multi \<Rightarrow> nat \<Rightarrow> region_action_result list \<Rightarrow> ('e, delivery list) outcome" where
  "return_rars m i [] = Ok []"
| "return_rars m i (rar # rars) =
     and_then (case rar_exception rar of
         Some e \<Rightarrow>
           and_then (index (mu_regions m) i) (\<lambda>reg.
           and_then (pair_error e) (\<lambda>err. Ok (fail_region reg err (mu_calls m))))
       | None \<Rightarrow> return_roes m (rar_results rar)) (\<lambda>ds.
     and_then (return_rars m (Suc i) rars) (\<lambda>ds'. Ok (ds @ ds')))"

fun fail_all :: "rpc_error \<Rightarrow> call option list \<Rightarrow> delivery list" where
  "fail_all err [] = []"
| "fail_all err (None # cs) = fail_all err cs"
| "fail_all err (Some c # cs) = (call_id c, Inl err) # fail_all err cs"

definition multi_returnResults ::
  "multi \<Rightarrow> rpc_error + region_action_result list \<Rightarrow> ('e, delivery list \<times> multi) outcome" where
  "multi_returnResults m res =
     (case res of
        Inl err \<Rightarrow> Ok (fail_all err (mu_calls m), freeMulti m)
      | Inr mr \<Rightarrow> and_then (return_rars m 0 mr) (\<lambda>ds. Ok (ds, freeMulti m)))"

section \<open>How the request is laid out\<close>

text \<open>What one call contributes: its position, itself, its action and its cell blocks.\<close>

type_synonym item = "nat \<times> call \<times> action_body \<times> bytes list"

definition region_key :: "call \<Rightarrow> nat option" where
  "region_key c = map_option ri_ptr (b_region (call_base c))"

definition item_key :: "item \<Rightarrow> nat option" where
  "item_key x = region_key (fst (snd x))"

definition items_of :: "nat option \<Rightarrow> item list \<Rightarrow> item list" where
  "items_of k L = filter (\<lambda>x. item_key x = k) L"

definition item_action :: "item \<Rightarrow> pb_action" where
  "item_action x = (case x of (i, c, body, bl) \<Rightarrow> \<lparr>a_index = word_of_nat i + 1, a_body = body\<rparr>)"

definition item_blocks :: "item \<Rightarrow> bytes list" where
  "item_blocks x = (case x of (i, c, body, bl) \<Rightarrow> bl)"

definition entry_key :: "region option \<times> actions \<Rightarrow> nat option" where
  "entry_key e = map_option ri_ptr (fst e)"

text \<open>The map of the loop holds, for every region of the calls seen so far, what these contributed.\<close>

definition holds_items :: "region_map \<Rightarrow> item list \<Rightarrow> bool" where
  "holds_items m L \<longleftrightarrow>
     distinct (map entry_key m) \<and> set (map entry_key m) = item_key ` set L \<and>
     (\<forall>e \<in> set m. snd e = \<lparr>as_pbs = map item_action (items_of (entry_key e) L),
       as_cellblocks = concat (map item_blocks (items_of (entry_key e) L))\<rparr>)"

lemma same_region_key: "same_region (fst e) r \<longleftrightarrow> entry_key e = map_option ri_ptr r"
  by (simp add: same_region_def entry_key_def)

lemma items_of_append [simp]: "items_of k (L @ L') = items_of k L @ items_of k L'"
  by (simp add: items_of_def)

lemma lookup_actions_items:
  assumes "holds_items m L"
  shows "lookup_actions r m = \<lparr>as_pbs = map item_action (items_of (map_option ri_ptr r) L),
    as_cellblocks = concat (map item_blocks (items_of (map_option ri_ptr r) L))\<rparr>"
proof (cases "find (\<lambda>e. same_region (fst e) r) m")
  case None
  then have "map_option ri_ptr r \<notin> set (map entry_key m)"
    unfolding find_None_iff same_region_key by fastforce
  then have "map_option ri_ptr r \<notin> item_key ` set L" using assms by (simp add: holds_items_def)
  then have "items_of (map_option ri_ptr r) L = []"
    unfolding items_of_def filter_empty_conv by (metis image_eqI)
  with None show ?thesis by (simp add: lookup_actions_def)
next
  case (Some e)
  then have "e \<in> set m" "entry_key e = map_option ri_ptr r"
    by (auto simp: find_Some_iff same_region_key)
  with Some assms show ?thesis by (auto simp: lookup_actions_def holds_items_def)
qed

lemma entry_key_Pair [simp]: "entry_key (r, a) = map_option ri_ptr r"
  by (simp add: entry_key_def)

lemma entry_key_fst [simp]: "entry_key (fst e, a) = entry_key e"
  by (simp add: entry_key_def)

lemma set_actions_keys:
  "map entry_key (set_actions r a m) =
    (if map_option ri_ptr r \<in> set (map entry_key m) then map entry_key m
     else map entry_key m @ [map_option ri_ptr r])"
  by (induction r a m rule: set_actions.induct) (auto simp: same_region_key)

lemma set_actions_mem:
  assumes "e \<in> set (set_actions r a m)" "distinct (map entry_key m)"
  shows "if entry_key e = map_option ri_ptr r then snd e = a else e \<in> set m"
  using assms
  by (induction r a m rule: set_actions.induct)
    (auto simp: same_region_key image_iff split: if_splits)

lemma holds_items_step:
  assumes L: "holds_items m L" and x: "x = (i, c, body, bl)" "r = b_region (call_base c)"
    and a: "a = \<lparr>as_pbs = as_pbs (lookup_actions r m) @ [item_action x],
      as_cellblocks = as_cellblocks (lookup_actions r m) @ bl\<rparr>"
  shows "holds_items (set_actions r a m) (L @ [x])"
proof -
  let ?k = "map_option ri_ptr r"
  have k: "item_key x = ?k" by (simp add: item_key_def region_key_def x)
  have keys: "distinct (map entry_key (set_actions r a m))"
    "set (map entry_key (set_actions r a m)) = insert ?k (set (map entry_key m))"
    using L unfolding set_actions_keys by (auto simp: holds_items_def)
  have "snd e = \<lparr>as_pbs = map item_action (items_of (entry_key e) (L @ [x])),
      as_cellblocks = concat (map item_blocks (items_of (entry_key e) (L @ [x])))\<rparr>"
    if "e \<in> set (set_actions r a m)" for e
  proof (cases "entry_key e = ?k")
    case True
    then have "snd e = a" using set_actions_mem [OF that] L by (auto simp: holds_items_def)
    moreover have "item_blocks x = bl" by (simp add: item_blocks_def x(1))
    ultimately show ?thesis using True k
      by (simp add: a lookup_actions_items [OF L] items_of_def)
  next
    case False
    then have "e \<in> set m" using set_actions_mem [OF that] L by (auto simp: holds_items_def)
    with False k L show ?thesis by (auto simp: holds_items_def items_of_def)
  qed
  moreover have "set (map entry_key (set_actions r a m)) = item_key ` set (L @ [x])"
    using keys(2) L k by (simp add: holds_items_def)
  ultimately show ?thesis using keys(1) unfolding holds_items_def by blast
qed

text \<open>The calls of a batch that were not set to \<^verbatim>\<open>nil\<close>, with their positions.\<close>

fun live_calls :: "nat \<Rightarrow> call option list \<Rightarrow> (nat \<times> call) list" where
  "live_calls i [] = []"
| "live_calls i (None # cs) = live_calls (Suc i) cs"
| "live_calls i (Some c # cs) = (i, c) # live_calls (Suc i) cs"

lemma Mutate_toProto_append:
  "Mutate_toProto m True cbs = and_then (Mutate_toProto m True []) (\<lambda>(r, bl, sz). Ok (r, cbs @ bl, sz))"
  by (cases "families_given m"; cases "b_region (m_base m)")
    (simp_all add: Mutate_toProto_def valuesToCellblocks_eq regionSpecifier_def Let_def)

lemma call_action_append:
  "call_action b c cbs = and_then (call_action b c []) (\<lambda>(body, bl, sz). Ok (body, cbs @ bl, sz))"
proof (cases c)
  case (Mutate m)
  show ?thesis
  proof (cases "Mutate_toProto m True [] :: ('a, mutate_request \<times> bytes list \<times> u32) outcome")
    case (Ok x)
    with Mutate show ?thesis
      by (cases x; cases "Mutate_ToProto m :: ('a, mutate_request) outcome")
        (simp_all add: Mutate_SerializeCellBlocks_def Mutate_toProto_append [of m cbs])
  qed (use Mutate in \<open>cases "Mutate_ToProto m :: ('a, mutate_request) outcome";
    simp add: Mutate_SerializeCellBlocks_def Mutate_toProto_append [of m cbs]\<close>)+
next
  case (Get g)
  then show ?thesis by (cases "Get_ToProto g :: ('a, get_request) outcome") simp_all
next
  case (CheckAndPut cp)
  then show ?thesis by (cases "CheckAndPut_ToProto cp :: ('a, mutate_request) outcome") simp_all
next
  case (Scan s)
  then show ?thesis by (cases "Scan_ToProto s :: ('a, scan_request) outcome") simp_all
qed simp

lemma collect_actions_items:
  assumes "holds_items m L"
    and "(collect_actions expired b i cs m sz :: ('e, _) outcome) = Ok (cs', m', sz')"
  shows "\<exists>L'. holds_items m' (L @ L') \<and> map (\<lambda>x. (fst x, fst (snd x))) L' = live_calls i cs' \<and>
    cs' = map (\<lambda>c. if expired (b_ctx (call_base (the c))) then None else c) cs \<and> None \<notin> set cs \<and>
    (\<forall>x \<in> set L'. \<exists>s. (call_action b (fst (snd x)) [] :: ('e, _) outcome) =
      Ok (fst (snd (snd x)), snd (snd (snd x)), s))"
  using assms
proof (induction cs arbitrary: i m sz L cs')
  case (Cons oc cs)
  then obtain c where oc: "oc = Some c" by (cases oc) auto
  show ?case
  proof (cases "expired (b_ctx (call_base c))")
    case True
    then obtain cs1 where cs1: "cs' = None # cs1"
      "(collect_actions expired b (Suc i) cs m sz :: ('e, _) outcome) = Ok (cs1, m', sz')"
      using Cons.prems(2) oc by auto
    from Cons.IH [OF Cons.prems(1) cs1(2)] show ?thesis using True oc cs1(1) by auto
  next
    case False
    let ?r = "b_region (call_base c)" and ?as = "lookup_actions (b_region (call_base c)) m"
    obtain body bl s where act: "(call_action b c [] :: ('e, _) outcome) = Ok (body, bl, s)"
      using Cons.prems(2) oc False by (auto simp: Let_def call_action_append [of b c "as_cellblocks ?as"])
    let ?x = "(i, c, body, bl)"
    let ?m = "set_actions ?r \<lparr>as_pbs = as_pbs ?as @ [item_action ?x], as_cellblocks = as_cellblocks ?as @ bl\<rparr> m"
    have "(call_action b c (as_cellblocks ?as) :: ('e, _) outcome) = Ok (body, as_cellblocks ?as @ bl, s)"
      by (subst call_action_append) (simp add: act)
    then obtain cs1 where cs1: "cs' = Some c # cs1"
      "(collect_actions expired b (Suc i) cs ?m (sz + s) :: ('e, _) outcome) = Ok (cs1, m', sz')"
      using Cons.prems(2) oc False by (auto simp: Let_def item_action_def)
    have "holds_items ?m (L @ [?x])"
      by (rule holds_items_step [OF Cons.prems(1) refl refl refl])
    from Cons.IH [OF this cs1(2)] obtain L' where L': "holds_items m' ((L @ [?x]) @ L')"
      "map (\<lambda>x. (fst x, fst (snd x))) L' = live_calls (Suc i) cs1"
      "cs1 = map (\<lambda>c. if expired (b_ctx (call_base (the c))) then None else c) cs" "None \<notin> set cs"
      "\<forall>x \<in> set L'. \<exists>s. (call_action b (fst (snd x)) [] :: ('e, _) outcome) =
        Ok (fst (snd (snd x)), snd (snd (snd x)), s)" by blast
    then show ?thesis using act cs1(1) oc False
      by (intro exI [of _ "?x # L'"]) simp
  qed
qed (auto intro: exI [of _ "[]"])

definition region_group :: "multi \<Rightarrow> region \<Rightarrow> (nat \<times> call) list" where
  "region_group m r = filter (\<lambda>x. region_key (snd x) = Some (ri_ptr r)) (live_calls 0 (mu_calls m))"

fun call_cells :: "call \<Rightarrow> bytes" where
  "call_cells (Mutate m) = encode_cells (mutation_cells m)"
| "call_cells _ = []"

lemma call_action_cells:
  assumes "(call_action True c [] :: ('e, _) outcome) = Ok (body, bl, s)" "length (call_cells c) < 2 ^ 32"
  shows "concat bl = call_cells c"
proof (cases c)
  case (Mutate m)
  let ?n = "length (encode_cells (mutation_cells m))"
  have "unat (word_of_nat ?n :: u32) = ?n" using assms(2) Mutate by (intro unat_word_of_nat) simp
  then have "(word_of_nat ?n :: u32) > 0 \<longleftrightarrow> ?n > 0" by (simp add: word_less_nat_alt)
  then show ?thesis using assms Mutate
    by (auto simp: Mutate_SerializeCellBlocks_def Mutate_toProto_def valuesToCellblocks_eq Let_def split: if_splits)
qed (use assms in \<open>auto split: if_splits\<close>)

lemma call_action_supported:
  "(call_action b c cbs :: ('e, _) outcome) = Ok x \<Longrightarrow> \<exists>msg. (result_msg c r :: ('f, rpc_msg) outcome) = Ok msg"
  by (cases c) auto

lemma multi_toProto_items:
  assumes order: "\<forall>xs. mset (order xs) = mset xs"
    and ok: "(multi_toProto order expired m b cbs :: ('e, _) outcome) = Ok (m', ras, cbs', sz)"
  obtains L where
    "map (\<lambda>x. (fst x, fst (snd x))) L = live_calls 0 (mu_calls m')"
    "mu_calls m' = map (\<lambda>c. if expired (b_ctx (call_base (the c))) then None else c) (mu_calls m)"
    "\<forall>x \<in> set L. \<exists>s. (call_action b (fst (snd x)) [] :: ('e, _) outcome) =
      Ok (fst (snd (snd x)), snd (snd (snd x)), s)"
    "distinct (map ri_ptr (mu_regions m'))" "(\<lambda>r. Some (ri_ptr r)) ` set (mu_regions m') = item_key ` set L"
    "ras = map (\<lambda>r. \<lparr>ra_region = \<lparr>SpecType = REGION_NAME, SpecValue = ri_name r\<rparr>,
      ra_action = map item_action (items_of (Some (ri_ptr r)) L)\<rparr>) (mu_regions m')"
    "cbs' = cbs @ concat (map (\<lambda>r. concat (map item_blocks (items_of (Some (ri_ptr r)) L))) (mu_regions m'))"
proof -
  from ok obtain calls perReg where col:
      "(collect_actions expired b 0 (mu_calls m) [] 0 :: ('e, _) outcome) = Ok (calls, perReg, sz)"
    and some: "\<forall>e \<in> set (order perReg). fst e \<noteq> None"
    and m': "m' = m\<lparr>mu_calls := calls, mu_regions := map (the \<circ> fst) (order perReg)\<rparr>"
    and ras: "ras = map (\<lambda>(r, as). \<lparr>ra_region = \<lparr>SpecType = REGION_NAME, SpecValue = ri_name (the r)\<rparr>,
      ra_action = as_pbs as\<rparr>) (order perReg)"
    and cbs': "cbs' = cbs @ concat (map (as_cellblocks \<circ> snd) (order perReg))"
    by (auto simp: multi_toProto_def Let_def split: if_splits)
  have "holds_items [] []" by (simp add: holds_items_def)
  from collect_actions_items [OF this col] obtain L where L: "holds_items perReg L"
    "map (\<lambda>x. (fst x, fst (snd x))) L = live_calls 0 calls"
    "calls = map (\<lambda>c. if expired (b_ctx (call_base (the c))) then None else c) (mu_calls m)"
    "\<forall>x \<in> set L. \<exists>s. (call_action b (fst (snd x)) [] :: ('e, _) outcome) =
      Ok (fst (snd (snd x)), snd (snd (snd x)), s)" by auto
  have "mset (order perReg) = mset perReg" using order by simp
  note perm = this mset_eq_setD [OF this]
  have key: "entry_key e = Some (ri_ptr (the (fst e)))" if "e \<in> set (order perReg)" for e
    using some that by (auto simp: entry_key_def)
  have "mset (map entry_key (order perReg)) = mset (map entry_key perReg)" using perm by simp
  then have "distinct (map entry_key (order perReg))"
    using L(1) mset_eq_imp_distinct_iff unfolding holds_items_def by blast
  moreover have "map entry_key (order perReg) = map Some (map ri_ptr (mu_regions m'))"
    using key by (simp add: m')
  ultimately have dist: "distinct (map ri_ptr (mu_regions m'))" by (metis distinct_map)
  have keys: "(\<lambda>r. Some (ri_ptr r)) ` set (mu_regions m') = item_key ` set L"
  proof -
    have "(\<lambda>r. Some (ri_ptr r)) ` set (mu_regions m') = entry_key ` set (order perReg)"
      using key by (force simp: m')
    then show ?thesis using L(1) perm by (simp add: holds_items_def)
  qed
  have snd: "snd e = \<lparr>as_pbs = map item_action (items_of (Some (ri_ptr (the (fst e)))) L),
      as_cellblocks = concat (map item_blocks (items_of (Some (ri_ptr (the (fst e)))) L))\<rparr>"
    if "e \<in> set (order perReg)" for e
    using L(1) perm key [OF that] that by (simp add: holds_items_def)
  show thesis
  proof (rule that)
    show "ras = map (\<lambda>r. \<lparr>ra_region = \<lparr>SpecType = REGION_NAME, SpecValue = ri_name r\<rparr>,
      ra_action = map item_action (items_of (Some (ri_ptr r)) L)\<rparr>) (mu_regions m')"
      by (auto simp: ras m' dest!: snd)
    show "cbs' = cbs @ concat (map (\<lambda>r. concat (map item_blocks (items_of (Some (ri_ptr r)) L))) (mu_regions m'))"
      by (auto simp: cbs' m' intro!: arg_cong [where f = concat] dest!: snd)
  qed (use L dist keys m' in simp_all)
qed

lemma group_items:
  assumes "map (\<lambda>x. (fst x, fst (snd x))) L = live_calls 0 (mu_calls m)"
  shows "region_group m r = map (\<lambda>x. (fst x, fst (snd x))) (items_of (Some (ri_ptr r)) L)"
  unfolding region_group_def items_of_def assms [symmetric] filter_map by (simp add: comp_def item_key_def)

section \<open>Every call of a batch is answered once\<close>

lemma live_calls_nth:
  "(i, c) \<in> set (live_calls k cs) \<Longrightarrow> k \<le> i \<and> i - k < length cs \<and> cs ! (i - k) = Some c"
proof (induction k cs rule: live_calls.induct)
  case (2 k cs)
  then show ?case by (auto simp: nth_Cons' diff_Suc split: nat.splits)
next
  case (3 k c' cs)
  then show ?case by (auto simp: nth_Cons' diff_Suc split: nat.splits)
qed simp

lemma multi_get_position:
  assumes "(i, c) \<in> set (live_calls 0 (mu_calls m))" "length (mu_calls m) < 2 ^ 32"
  shows "multi_get m (word_of_nat i + 1) = Ok (Some c)"
proof -
  have i: "i < length (mu_calls m)" "mu_calls m ! i = Some c" using live_calls_nth [OF assms(1)] by auto
  have "(word_of_nat i + 1 :: u32) = word_of_nat (Suc i)" by simp
  moreover have "unat (word_of_nat (Suc i) :: u32) = Suc i" using i assms(2) by (intro unat_word_of_nat) simp
  ultimately have "(word_of_nat i + 1 :: u32) \<noteq> 0" by (metis nat.distinct(1) unat_0)
  moreover have "unat (word_of_nat i :: u32) = i" using i assms(2) by (intro unat_word_of_nat) simp
  ultimately show ?thesis using i by (simp add: multi_get_def index_def)
qed

lemma fail_region_ids:
  "map fst (fail_region reg err cs) =
    map (call_id \<circ> snd) (filter (\<lambda>x. region_key (snd x) = Some (ri_ptr reg)) (live_calls k cs))"
  by (induction k cs rule: live_calls.induct)
    (auto simp: same_region_def region_key_def)

lemma fail_all_ids: "map fst (fail_all err cs) = map (call_id \<circ> snd) (live_calls k cs)"
  by (induction k cs rule: live_calls.induct) auto

text \<open>A result of a response is usable when an exception has a name.\<close>

definition usable_exception :: "name_bytes_pair option \<Rightarrow> bool" where
  "usable_exception e = (case e of None \<Rightarrow> True | Some p \<Rightarrow> nbp_name p \<noteq> None)"

lemma return_roes_ids:
  assumes "\<forall>roe \<in> set roes. usable_exception (roe_exception roe) \<and>
      (\<exists>x \<in> set (live_calls 0 (mu_calls m)). GetIndex roe = word_of_nat (fst x) + 1)"
    and "\<forall>x \<in> set (live_calls 0 (mu_calls m)). \<forall>r. \<exists>msg. (result_msg (snd x) r :: ('e, rpc_msg) outcome) = Ok msg"
    and "length (mu_calls m) < 2 ^ 32"
  shows "\<exists>ds. (return_roes m roes :: ('e, _) outcome) = Ok ds \<and>
    map fst ds = map (\<lambda>roe. call_id (the (mu_calls m ! (unat (GetIndex roe) - 1)))) roes"
  using assms(1)
proof (induction roes)
  case (Cons roe roes)
  then obtain x where x: "x \<in> set (live_calls 0 (mu_calls m))" "GetIndex roe = word_of_nat (fst x) + 1" by auto
  then have get: "(multi_get m (GetIndex roe) :: ('e, _) outcome) = Ok (Some (snd x))"
    using multi_get_position [of "fst x" "snd x" m] assms(3) by simp
  have i: "fst x < length (mu_calls m)" "mu_calls m ! fst x = Some (snd x)"
    using live_calls_nth [of "fst x" "snd x" 0 "mu_calls m"] x(1) by auto
  have "(word_of_nat (fst x) + 1 :: u32) = word_of_nat (Suc (fst x))" by simp
  then have "unat (GetIndex roe) - 1 = fst x"
    using i assms(3) by (simp only: x(2)) (subst unat_word_of_nat; simp)
  then have "the (mu_calls m ! (unat (GetIndex roe) - 1)) = snd x" using i by simp
  moreover obtain msg where "(result_msg (snd x) (roe_result roe) :: ('e, _) outcome) = Ok msg" using assms(2) x(1) by blast
  moreover have "\<exists>err. (pair_error e :: ('e, _) outcome) = Ok err" if "roe_exception roe = Some e" for e
    using Cons.prems that by (auto simp: usable_exception_def pair_error_def)
  ultimately show ?case using Cons get by (cases "roe_exception roe") auto
qed simp

text \<open>
  A response answers a request when it has one result per region action, in order, and each
  is a named exception for the region or has one result or named exception per action,
  found by the action's index.
\<close>

definition answers_one :: "pb_action list \<Rightarrow> region_action_result \<Rightarrow> bool" where
  "answers_one pbs rar \<longleftrightarrow> usable_exception (rar_exception rar) \<and>
     (\<forall>roe \<in> set (rar_results rar). usable_exception (roe_exception roe)) \<and>
     (rar_exception rar = None \<longrightarrow> mset (map GetIndex (rar_results rar)) = mset (map a_index pbs))"

definition answers :: "region_action list \<Rightarrow> region_action_result list \<Rightarrow> bool" where
  "answers ras mr \<longleftrightarrow> list_all2 (\<lambda>ra rar. answers_one (ra_action ra) rar) ras mr"

definition group_indices :: "multi \<Rightarrow> region \<Rightarrow> u32 list" where
  "group_indices m r = map (\<lambda>x. word_of_nat (fst x) + 1) (region_group m r)"

lemma return_rar_ids:
  assumes m: "\<forall>x \<in> set (live_calls 0 (mu_calls m)). \<forall>r. \<exists>msg. (result_msg (snd x) r :: ('e, rpc_msg) outcome) = Ok msg"
      "length (mu_calls m) < 2 ^ 32"
    and "\<forall>roe \<in> set roes. usable_exception (roe_exception roe)"
    and idx: "mset (map GetIndex roes) = mset (group_indices m r)"
  shows "\<exists>ds. (return_roes m roes :: ('e, _) outcome) = Ok ds \<and>
    mset (map fst ds) = mset (map (call_id \<circ> snd) (region_group m r))"
proof -
  let ?f = "\<lambda>i :: u32. call_id (the (mu_calls m ! (unat i - 1)))"
  have mem: "set (map GetIndex roes) = set (group_indices m r)" using idx by (rule mset_eq_setD)
  have "\<exists>x \<in> set (live_calls 0 (mu_calls m)). GetIndex roe = word_of_nat (fst x) + 1" if "roe \<in> set roes" for roe
  proof -
    have "GetIndex roe \<in> set (group_indices m r)" using that mem by auto
    then show ?thesis by (auto simp: group_indices_def region_group_def)
  qed
  with assms(3) obtain ds where ds: "(return_roes m roes :: ('e, _) outcome) = Ok ds"
    "map fst ds = map (?f \<circ> GetIndex) roes"
    using return_roes_ids [OF _ m, of roes] by (auto simp: comp_def)
  have "?f (word_of_nat (fst x) + 1) = call_id (snd x)" if "x \<in> set (region_group m r)" for x
  proof -
    have "(fst x, snd x) \<in> set (live_calls 0 (mu_calls m))" using that by (simp add: region_group_def)
    then have i: "fst x < length (mu_calls m)" "mu_calls m ! fst x = Some (snd x)"
      using live_calls_nth by fastforce+
    have "(word_of_nat (fst x) + 1 :: u32) = word_of_nat (Suc (fst x))" by simp
    moreover have "unat (word_of_nat (Suc (fst x)) :: u32) = Suc (fst x)"
      using i m(2) by (intro unat_word_of_nat) simp
    ultimately have "unat (word_of_nat (fst x) + 1 :: u32) - 1 = fst x" by (simp only: diff_Suc_1)
    with i show ?thesis by simp
  qed
  then have "map (?f \<circ> (\<lambda>x. word_of_nat (fst x) + 1)) (region_group m r) = map (call_id \<circ> snd) (region_group m r)" by simp
  moreover have "mset (map fst ds) = image_mset ?f (mset (map GetIndex roes))"
    unfolding ds(2) by (simp only: map_map [symmetric] mset_map)
  then have "mset (map fst ds) = mset (map ?f (group_indices m r))" using idx by (simp only: mset_map)
  ultimately have "mset (map fst ds) = mset (map (call_id \<circ> snd) (region_group m r))"
    unfolding group_indices_def map_map by (simp only:)
  with ds(1) show ?thesis by blast
qed

lemma return_rars_ids:
  assumes m: "\<forall>x \<in> set (live_calls 0 (mu_calls m)). \<forall>r. \<exists>msg. (result_msg (snd x) r :: ('e, rpc_msg) outcome) = Ok msg"
      "length (mu_calls m) < 2 ^ 32"
    and "list_all2 (\<lambda>r rar. usable_exception (rar_exception rar) \<and>
      (\<forall>roe \<in> set (rar_results rar). usable_exception (roe_exception roe)) \<and>
      (rar_exception rar = None \<longrightarrow> mset (map GetIndex (rar_results rar)) = mset (group_indices m r))) rs mr"
    and "drop i (mu_regions m) = rs"
  shows "\<exists>ds. (return_rars m i mr :: ('e, _) outcome) = Ok ds \<and>
    mset (map fst ds) = sum_list (map (\<lambda>r. mset (map (call_id \<circ> snd) (region_group m r))) rs)"
  using assms(3,4)
proof (induction rs mr arbitrary: i rule: list_all2_induct)
  case (Cons r rs rar mr)
  have reg: "(index (mu_regions m) i :: ('e, _) outcome) = Ok r"
    using Cons.prems by (metis drop_eq_Nil index_def list.discI linorder_not_less nth_via_drop)
  have "drop (Suc i) (mu_regions m) = rs" using Cons.prems by (metis drop_Suc list.sel(3) tl_drop)
  from Cons.IH [OF this] obtain ds' where ds': "(return_rars m (Suc i) mr :: ('e, _) outcome) = Ok ds'"
    "mset (map fst ds') = sum_list (map (\<lambda>r. mset (map (call_id \<circ> snd) (region_group m r))) rs)" by blast
  show ?case
  proof (cases "rar_exception rar")
    case None
    then obtain ds where "(return_roes m (rar_results rar) :: ('e, _) outcome) = Ok ds"
      "mset (map fst ds) = mset (map (call_id \<circ> snd) (region_group m r))"
      using return_rar_ids [OF m, of "rar_results rar" r] Cons.hyps(1) by auto
    with ds' None show ?thesis by (simp add: comp_def)
  next
    case (Some e)
    then obtain err where "(pair_error e :: ('e, _) outcome) = Ok err"
      using Cons.hyps(1) by (auto simp: usable_exception_def pair_error_def)
    moreover have "map fst (fail_region r err (mu_calls m)) = map (call_id \<circ> snd) (region_group m r)"
      by (simp add: fail_region_ids [of _ _ _ 0] region_group_def)
    ultimately show ?thesis using ds' Some reg by (auto simp: comp_def simp flip: mset_map)
  qed
qed simp

text \<open>The groups of the regions make up all the live calls.\<close>

lemma partition_by_region:
  assumes "distinct (map ri_ptr rs)" "\<forall>x \<in> set xs. key x \<in> (\<lambda>r. Some (ri_ptr r)) ` set rs"
  shows "sum_list (map (\<lambda>r. mset (map f (filter (\<lambda>x. key x = Some (ri_ptr r)) xs))) rs) = mset (map f xs)"
  using assms(2)
proof (induction xs)
  case (Cons x xs)
  have one: "sum_list (map (\<lambda>r. if k = Some (ri_ptr r) then {#f x#} else {#}) rs) =
    (if k \<in> (\<lambda>r. Some (ri_ptr r)) ` set rs then {#f x#} else {#})" for k
    using assms(1) by (induction rs) auto
  have "sum_list (map (\<lambda>r. mset (map f (filter (\<lambda>x. key x = Some (ri_ptr r)) (x # xs)))) rs) =
    sum_list (map (\<lambda>r. (if key x = Some (ri_ptr r) then {#f x#} else {#}) +
      mset (map f (filter (\<lambda>x. key x = Some (ri_ptr r)) xs))) rs)"
    by (intro arg_cong [where f = sum_list] map_cong) auto
  also have "\<dots> = {#f x#} + mset (map f xs)"
    using Cons one by (simp add: sum_list_addf)
  finally show ?case by simp
qed simp

lemma concat_concat_map: "concat (concat (map f xs)) = concat (map (\<lambda>x. concat (f x)) xs)"
  by (induction xs) auto

section \<open>Properties\<close>

text \<open>
  C24. The request of a batch: calls whose context expired are dropped; the others are grouped
  by region, one region action per region, with their positions (from one) as indices and
  in their order; and the cell blocks that follow the request are those of the actions in
  the order in which the request lists them, which is how the server attributes them.
\<close>

theorem multi_request_layout:
  assumes "\<forall>xs. mset (order xs) = mset xs" "\<forall>c \<in> set (mu_calls m). length (call_cells (the c)) < 2 ^ 32"
    and "(multi_toProto order expired m True cbs :: ('e, _) outcome) = Ok (m', ras, cbs', sz)"
  shows "mu_calls m' = map (\<lambda>c. if expired (b_ctx (call_base (the c))) then None else c) (mu_calls m) \<and>
    distinct (map ri_ptr (mu_regions m')) \<and>
    (\<lambda>r. Some (ri_ptr r)) ` set (mu_regions m') = region_key ` snd ` set (live_calls 0 (mu_calls m')) \<and>
    map ra_region ras = map (\<lambda>r. \<lparr>SpecType = REGION_NAME, SpecValue = ri_name r\<rparr>) (mu_regions m') \<and>
    map (\<lambda>ra. map a_index (ra_action ra)) ras = map (group_indices m') (mu_regions m') \<and>
    concat cbs' = concat cbs @
      concat (map (\<lambda>r. concat (map (\<lambda>x. call_cells (snd x)) (region_group m' r))) (mu_regions m'))"
proof -
  obtain L where L: "map (\<lambda>x. (fst x, fst (snd x))) L = live_calls 0 (mu_calls m')"
    "mu_calls m' = map (\<lambda>c. if expired (b_ctx (call_base (the c))) then None else c) (mu_calls m)"
    "\<forall>x \<in> set L. \<exists>s. (call_action True (fst (snd x)) [] :: ('e, _) outcome) =
      Ok (fst (snd (snd x)), snd (snd (snd x)), s)"
    "distinct (map ri_ptr (mu_regions m'))" "(\<lambda>r. Some (ri_ptr r)) ` set (mu_regions m') = item_key ` set L"
    "ras = map (\<lambda>r. \<lparr>ra_region = \<lparr>SpecType = REGION_NAME, SpecValue = ri_name r\<rparr>,
      ra_action = map item_action (items_of (Some (ri_ptr r)) L)\<rparr>) (mu_regions m')"
    "cbs' = cbs @ concat (map (\<lambda>r. concat (map item_blocks (items_of (Some (ri_ptr r)) L))) (mu_regions m'))"
    using assms(1,3) by (rule multi_toProto_items)
  have blocks: "concat (item_blocks x) = call_cells (fst (snd x))" if "x \<in> set L" for x
  proof -
    have "(fst x, fst (snd x)) \<in> set (live_calls 0 (mu_calls m'))" 
      unfolding L(1) [symmetric] using that by simp
    from live_calls_nth [OF this] have "Some (fst (snd x)) \<in> set (mu_calls m')" by (metis diff_zero nth_mem)
    then have "Some (fst (snd x)) \<in> set (mu_calls m)" using L(2) by (auto split: if_splits)
    then have "length (call_cells (fst (snd x))) < 2 ^ 32" using assms(2) by force
    moreover obtain s where "(call_action True (fst (snd x)) [] :: ('e, _) outcome) =
      Ok (fst (snd (snd x)), snd (snd (snd x)), s)" using L(3) \<open>x \<in> set L\<close> by blast
    ultimately have "concat (snd (snd (snd x))) = call_cells (fst (snd x))" by (intro call_action_cells)
    then show ?thesis by (simp add: item_blocks_def split_beta)
  qed
  have keys: "item_key ` set L = region_key ` snd ` set (live_calls 0 (mu_calls m'))"
    unfolding L(1) [symmetric] by (simp add: image_image item_key_def)
  have "concat (concat (map item_blocks (items_of k L))) =
    concat (map (\<lambda>x. call_cells (fst (snd x))) (items_of k L))" for k
    using blocks unfolding concat_concat_map
    by (intro arg_cong [where f = concat] map_cong) (auto simp: items_of_def)
  then show ?thesis using L keys
    by (simp add: group_indices_def group_items [OF L(1)] comp_def item_action_def split_beta concat_concat_map)
qed

definition sample_multi :: multi where
  "sample_multi = \<lparr>mu_size = 2, mu_calls = [Some (Get sample_get)], mu_regions = []\<rparr>"

lemma sample_multi_toProto:
  "\<exists>m' ras cbs' sz. (multi_toProto (\<lambda>xs. xs) (\<lambda>_. False) sample_multi True [] :: (unit, _) outcome) =
    Ok (m', ras, cbs', sz) \<and> map (\<lambda>ra. map a_index (ra_action ra)) ras = [[1]]"
proof -
  obtain req where "(Get_ToProto sample_get :: (unit, _) outcome) = Ok req"
    using consistency_field_read [of TimelineConsistency]
    by (auto simp: Get_ToProto_def regionSpecifier_def sample_get_def Let_def valid_consistency_def TimelineConsistency_def)
  then show ?thesis
    by (auto simp: multi_toProto_def sample_multi_def Let_def lookup_actions_def sample_get_def)
qed

theorem multi_request_layout_witness:
  "\<exists>m' ras cbs' sz. (multi_toProto (\<lambda>xs. xs) (\<lambda>_. False) sample_multi True [] :: (unit, _) outcome) =
      Ok (m', ras, cbs', sz) \<and>
    mu_calls m' = map (\<lambda>c. if False then None else c) (mu_calls sample_multi) \<and>
    distinct (map ri_ptr (mu_regions m')) \<and>
    (\<lambda>r. Some (ri_ptr r)) ` set (mu_regions m') = region_key ` snd ` set (live_calls 0 (mu_calls m')) \<and>
    map ra_region ras = map (\<lambda>r. \<lparr>SpecType = REGION_NAME, SpecValue = ri_name r\<rparr>) (mu_regions m') \<and>
    map (\<lambda>ra. map a_index (ra_action ra)) ras = map (group_indices m') (mu_regions m') \<and>
    concat cbs' = concat [] @
      concat (map (\<lambda>r. concat (map (\<lambda>x. call_cells (snd x)) (region_group m' r))) (mu_regions m'))"
proof -
  obtain m' ras cbs' sz where ok: "(multi_toProto (\<lambda>xs. xs) (\<lambda>_. False) sample_multi True [] :: (unit, _) outcome) =
    Ok (m', ras, cbs', sz)" using sample_multi_toProto by blast
  have "\<forall>c \<in> set (mu_calls sample_multi). length (call_cells (the c)) < 2 ^ 32" by (simp add: sample_multi_def)
  from multi_request_layout [OF _ this ok] show ?thesis using ok by simp
qed

text \<open>
  C10. Every call of a batch that was sent is answered exactly once. Take the batch after its
  request was built, and a response with one result per region action, each either a named
  exception for the whole region or one result or named exception for every action, in any
  order: distributing the response never panics, and it delivers to each call of the batch
  as many results as the batch holds the call, that is one.
\<close>

theorem multi_exactly_once:
  assumes "\<forall>xs. mset (order xs) = mset xs"
    and "(multi_toProto order expired m b cbs :: ('e, _) outcome) = Ok (m', ras, cbs', sz)"
    and "answers ras mr" "length (mu_calls m) < 2 ^ 32"
  shows "\<exists>ds. (multi_returnResults m' (Inr mr) :: ('e, _) outcome) = Ok (ds, freeMulti m') \<and>
    mset (map fst ds) = mset (map (call_id \<circ> snd) (live_calls 0 (mu_calls m')))"
proof -
  obtain L where L: "map (\<lambda>x. (fst x, fst (snd x))) L = live_calls 0 (mu_calls m')"
    "mu_calls m' = map (\<lambda>c. if expired (b_ctx (call_base (the c))) then None else c) (mu_calls m)"
    "\<forall>x \<in> set L. \<exists>s. (call_action b (fst (snd x)) [] :: ('e, _) outcome) =
      Ok (fst (snd (snd x)), snd (snd (snd x)), s)"
    "distinct (map ri_ptr (mu_regions m'))" "(\<lambda>r. Some (ri_ptr r)) ` set (mu_regions m') = item_key ` set L"
    "ras = map (\<lambda>r. \<lparr>ra_region = \<lparr>SpecType = REGION_NAME, SpecValue = ri_name r\<rparr>,
      ra_action = map item_action (items_of (Some (ri_ptr r)) L)\<rparr>) (mu_regions m')"
    "cbs' = cbs @ concat (map (\<lambda>r. concat (map item_blocks (items_of (Some (ri_ptr r)) L))) (mu_regions m'))"
    using assms(1,2) by (rule multi_toProto_items)
  have ok: "\<forall>x \<in> set (live_calls 0 (mu_calls m')). \<forall>r. \<exists>msg. (result_msg (snd x) r :: ('e, _) outcome) = Ok msg"
    unfolding L(1) [symmetric] using L(3) call_action_supported by fastforce
  have len: "length (mu_calls m') < 2 ^ 32" using L(2) assms(4) by simp
  have idx: "map a_index (map item_action (items_of (Some (ri_ptr r)) L)) = group_indices m' r" for r
    by (simp add: group_indices_def group_items [OF L(1)] item_action_def split_beta)
  have "list_all2 (\<lambda>r rar. usable_exception (rar_exception rar) \<and>
      (\<forall>roe \<in> set (rar_results rar). usable_exception (roe_exception roe)) \<and>
      (rar_exception rar = None \<longrightarrow> mset (map GetIndex (rar_results rar)) = mset (group_indices m' r)))
    (mu_regions m') mr"
    using assms(3) unfolding answers_def L(6) list_all2_map1 answers_one_def region_action.simps idx .
  from return_rars_ids [OF ok len this, of 0] obtain ds where ds: "(return_rars m' 0 mr :: ('e, _) outcome) = Ok ds"
    "mset (map fst ds) = sum_list (map (\<lambda>r. mset (map (call_id \<circ> snd) (region_group m' r))) (mu_regions m'))"
    by auto
  have "\<forall>x \<in> set (live_calls 0 (mu_calls m')). region_key (snd x) \<in> (\<lambda>r. Some (ri_ptr r)) ` set (mu_regions m')"
    unfolding L(5) L(1) [symmetric] by (auto simp: item_key_def)
  with ds(2) have "mset (map fst ds) = mset (map (call_id \<circ> snd) (live_calls 0 (mu_calls m')))"
    using partition_by_region [OF L(4), of _ "region_key \<circ> snd" "call_id \<circ> snd"]
    by (simp add: region_group_def)
  with ds(1) show ?thesis by (simp add: multi_returnResults_def)
qed

theorem multi_exactly_once_witness:
  "\<exists>m' ras cbs' sz ds mr. (multi_toProto (\<lambda>xs. xs) (\<lambda>_. False) sample_multi True [] :: (unit, _) outcome) =
      Ok (m', ras, cbs', sz) \<and>
    (multi_returnResults m' (Inr mr) :: (unit, _) outcome) = Ok (ds, freeMulti m') \<and>
    mset (map fst ds) = mset (map (call_id \<circ> snd) (live_calls 0 (mu_calls m')))"
proof -
  obtain m' ras cbs' sz where ok: "(multi_toProto (\<lambda>xs. xs) (\<lambda>_. False) sample_multi True [] :: (unit, _) outcome) =
    Ok (m', ras, cbs', sz)" and idx: "map (\<lambda>ra. map a_index (ra_action ra)) ras = [[1]]"
    using sample_multi_toProto by (elim exE conjE)
  let ?mr = "[\<lparr>rar_results = [\<lparr>roe_index = Some 1, roe_result = None, roe_exception = None\<rparr>], rar_exception = None\<rparr>]"
  have "answers ras ?mr" using idx
    by (auto simp: answers_def answers_one_def usable_exception_def GetIndex_def)
  moreover have "length (mu_calls sample_multi) < 2 ^ 32" by (simp add: sample_multi_def)
  ultimately show ?thesis using multi_exactly_once [OF _ ok, of ?mr] ok by auto
qed

text \<open>
  When a batch fails as a whole, every call it still holds gets the error once and no
  call gets anything else.
\<close>

theorem multi_fails_all:
  "\<exists>ds. (multi_returnResults m (Inl err) :: ('e, _) outcome) = Ok (ds, freeMulti m) \<and>
    map fst ds = map (call_id \<circ> snd) (live_calls 0 (mu_calls m)) \<and> set (map snd ds) \<subseteq> {Inl err}"
proof -
  have "set (map snd (fail_all err cs)) \<subseteq> {Inl err}" for cs
    by (induction err cs rule: fail_all.induct) auto
  then show ?thesis by (simp add: multi_returnResults_def fail_all_ids [of _ _ 0])
qed

end
