(* ===== verification/Admin_Calls.thy ===== *)
theory Admin_Calls
  imports Queries
begin

text \<open>
  Calls to the master (\<^verbatim>\<open>src/hrpc/create.go\<close>, \<^verbatim>\<open>create_namespace.go\<close>, \<^verbatim>\<open>delete.go\<close>,
  \<^verbatim>\<open>disable.go\<close>, \<^verbatim>\<open>enable.go\<close>, \<^verbatim>\<open>list.go\<close>, \<^verbatim>\<open>move.go\<close>, \<^verbatim>\<open>snapshot.go\<close>, \<^verbatim>\<open>status.go\<close>,
  \<^verbatim>\<open>procedure.go\<close>, \<^verbatim>\<open>balancer.go\<close>): construction, options and requests.
\<close>

section \<open>Requests\<close>

record column_family_schema =
  cfs_name :: bytes
  cfs_attributes :: "(bytes \<times> bytes) list"

record table_schema =
  ts_table_name :: table_name
  ts_attributes :: "(bytes \<times> bytes) list"
  ts_column_families :: "column_family_schema list"

record snapshot_description =
  sd_name :: gostring
  sd_table :: gostring
  sd_type :: "snapshot_type option"
  sd_version :: "32 word"
  sd_owner :: gostring

datatype admin_request =
    CreateTableRequest table_schema "bytes list"
  | CreateNamespaceRequest bytes
  | DeleteTableRequest table_name
  | DisableTableRequest table_name
  | EnableTableRequest table_name
  | GetTableNamesRequest gostring bool gostring
  | MoveRegionRequest move_region_request
  | SnapshotRequest snapshot_description
  | GetCompletedSnapshotsRequest
  | GetClusterStatusRequest
  | GetProcedureResultRequest u64
  | SetBalancerRunningRequest bool

definition admin_base :: "nat \<Rightarrow> nat \<Rightarrow> bytes \<Rightarrow> base" where
  "admin_base i ctx table = \<lparr>b_id = i, b_ctx = ctx, b_table = table, b_key = [], b_region = None\<rparr>"

section \<open>Tables\<close>

definition defaultFamiliesAttributes :: "(gostring \<times> gostring) list" where
  "defaultFamiliesAttributes =
     [(str ''BLOOMFILTER'', str ''ROW''),
      (str ''VERSIONS'', str ''3''),
      (str ''IN_MEMORY'', str ''false''),
      (str ''KEEP_DELETED_CELLS'', str ''false''),
      (str ''DATA_BLOCK_ENCODING'', str ''FAST_DIFF''),
      (str ''TTL'', str ''2147483647''),
      (str ''COMPRESSION'', str ''NONE''),
      (str ''MIN_VERSIONS'', str ''0''),
      (str ''BLOCKCACHE'', str ''true''),
      (str ''BLOCKSIZE'', str ''65536''),
      (str ''REPLICATION_SCOPE'', str ''0'')]"

text \<open>Options of \<^verbatim>\<open>NewCreateTable\<close> are functions on the call.\<close>

definition SplitKeys :: "bytes list \<Rightarrow> create_table \<Rightarrow> create_table" where
  "SplitKeys sk ct = ct\<lparr>ct_splitKeys := sk\<rparr>"

definition TableAttributes :: "(gostring \<times> gostring) list \<Rightarrow> create_table \<Rightarrow> create_table" where
  "TableAttributes attrs ct = ct\<lparr>ct_attributes := attrs\<rparr>"

definition family_attributes :: "(gostring \<times> gostring) list \<Rightarrow> (gostring \<times> gostring) list" where
  "family_attributes attrs = map (\<lambda>(k, dv).
     (k, case map_of attrs k of Some v \<Rightarrow> v | None \<Rightarrow> dv)) defaultFamiliesAttributes"

definition NewCreateTable ::
  "nat \<Rightarrow> nat \<Rightarrow> bytes \<Rightarrow> (gostring \<times> (gostring \<times> gostring) list) list
     \<Rightarrow> (create_table \<Rightarrow> create_table) list \<Rightarrow> call" where
  "NewCreateTable i ctx table fams options =
     (let ct = fold (\<lambda>option ct. option ct) options \<lparr>ct_attributes = [], ct_families = [], ct_splitKeys = []\<rparr>
      in Admin (admin_base i ctx table) (CreateTable (ct\<lparr>ct_families :=
           map (\<lambda>(family, attrs). (family, family_attributes attrs)) fams\<rparr>)))"

definition NewCreateNamespace :: "nat \<Rightarrow> nat \<Rightarrow> gostring \<Rightarrow> call" where
  "NewCreateNamespace i ctx namespace = Admin (admin_base i ctx []) (CreateNamespace namespace)"

definition NewDeleteTable :: "nat \<Rightarrow> nat \<Rightarrow> bytes \<Rightarrow> call" where
  "NewDeleteTable i ctx table = Admin (admin_base i ctx table) DeleteTable"

definition NewDisableTable :: "nat \<Rightarrow> nat \<Rightarrow> bytes \<Rightarrow> call" where
  "NewDisableTable i ctx table = Admin (admin_base i ctx table) DisableTable"

definition NewEnableTable :: "nat \<Rightarrow> nat \<Rightarrow> bytes \<Rightarrow> call" where
  "NewEnableTable i ctx table = Admin (admin_base i ctx table) EnableTable"

fun upd_list :: "string \<Rightarrow> (list_table_names \<Rightarrow> list_table_names) \<Rightarrow> call_option" where
  "upd_list msg f (Admin b (ListTableNames l)) = Ok (Admin b (ListTableNames (f l)))"
| "upd_list msg f c = Err msg"

definition ListRegex :: "gostring \<Rightarrow> call_option" where
  "ListRegex regex c = upd_list ''ListRegex option can only be used with ListTableNames'' (\<lambda>l. l\<lparr>lt_regex := regex\<rparr>) c"

definition ListNamespace :: "gostring \<Rightarrow> call_option" where
  "ListNamespace ns c = upd_list ''ListNamespace option can only be used with ListTableNames''
     (\<lambda>l. l\<lparr>lt_namespace := ns\<rparr>) c"

definition ListSysTables :: "bool \<Rightarrow> call_option" where
  "ListSysTables b c = upd_list ''ListSysTables option can only be used with ListTableNames''
     (\<lambda>l. l\<lparr>lt_includeSysTables := b\<rparr>) c"

definition NewListTableNames :: "nat \<Rightarrow> nat \<Rightarrow> call_option list \<Rightarrow> (string, call) outcome" where
  "NewListTableNames i ctx opts =
     applyOptions (Admin (admin_base i ctx [])
       (ListTableNames \<lparr>lt_regex = str ''.*'', lt_includeSysTables = False, lt_namespace = []\<rparr>)) opts"

section \<open>Moving regions\<close>

text \<open>\<^verbatim>\<open>strings.SplitN(s, ",", n)\<close> for a positive \<open>n\<close>.\<close>

fun splitN :: "bytes \<Rightarrow> nat \<Rightarrow> bytes list" where
  "splitN s 0 = []"
| "splitN s (Suc n) =
     (if n = 0 \<or> comma \<notin> set s then [s]
      else takeWhile (\<lambda>x. x \<noteq> comma) s # splitN (drop (Suc (length (takeWhile (\<lambda>x. x \<noteq> comma) s))) s) n)"

text \<open>
  \<^verbatim>\<open>strconv.ParseUint(s, 10, bits)\<close>: decimal digits without sign, at least one, and a value
  below \<open>2 ^ bits\<close>.
\<close>

definition is_digit :: "byte \<Rightarrow> bool" where
  "is_digit x \<longleftrightarrow> 48 \<le> x \<and> x \<le> 57"

definition decimal_value :: "bytes \<Rightarrow> nat" where
  "decimal_value s = foldl (\<lambda>n x. n * 10 + (unat x - 48)) 0 s"

definition ParseUint :: "nat \<Rightarrow> bytes \<Rightarrow> (string, nat) outcome" where
  "ParseUint bits s =
     (if s = [] \<or> \<not> list_all is_digit s then Err ''invalid syntax''
      else if decimal_value s \<ge> 2 ^ bits then Err ''value out of range''
      else Ok (decimal_value s))"

fun WithDestinationRegionServer :: "gostring \<Rightarrow> call_option" where
  "WithDestinationRegionServer serverName (Admin b (MoveRegion req)) =
     (case splitN serverName 3 of
        [host, portS, startS] \<Rightarrow>
          (case ParseUint 32 portS of
             Ok port \<Rightarrow>
               (case ParseUint 64 startS of
                  Ok startCode \<Rightarrow> Ok (Admin b (MoveRegion (req\<lparr>DestServerName := Some
                    \<lparr>HostName = host, Port = word_of_nat port, StartCode = word_of_nat startCode\<rparr>\<rparr>)))
                | Err e \<Rightarrow> Err (''failed to parse startcode: '' @ e)
                | Panic p \<Rightarrow> Panic p)
           | Err e \<Rightarrow> Err (''failed to parse port: '' @ e)
           | Panic p \<Rightarrow> Panic p)
      | _ \<Rightarrow> Err ''invalid server name, needs to be of format <host>,<port>,<startcode>'')"
| "WithDestinationRegionServer serverName c =
     Err ''WithDestinationRegionServer option can only be used with MoveRegion''"

definition NewMoveRegion :: "nat \<Rightarrow> nat \<Rightarrow> bytes \<Rightarrow> call_option list \<Rightarrow> (string, call) outcome" where
  "NewMoveRegion i ctx regionName opts =
     applyOptions (Admin (admin_base i ctx []) (MoveRegion
       \<lparr>mr_region = \<lparr>SpecType = ENCODED_REGION_NAME, SpecValue = regionName\<rparr>, DestServerName = None\<rparr>)) opts"

section \<open>Snapshots\<close>

definition snap_ToProto :: "snap \<Rightarrow> snapshot_description" where
  "snap_ToProto s = \<lparr>sd_name = snap_name s, sd_table = snap_table s, sd_type = snapshotType s,
     sd_version = snap_version s, sd_owner = snap_owner s\<rparr>"

text \<open>The setters of \<^verbatim>\<open>snap\<close>, which are the interface \<^verbatim>\<open>snapshotSettable\<close>.\<close>

definition snap_Version :: "32 word \<Rightarrow> snap \<Rightarrow> snap" where
  "snap_Version v s = s\<lparr>snap_version := v\<rparr>"

definition snap_Owner :: "gostring \<Rightarrow> snap \<Rightarrow> snap" where
  "snap_Owner o' s = s\<lparr>snap_owner := o'\<rparr>"

definition snap_Type :: "snapshot_type \<Rightarrow> snap \<Rightarrow> snap" where
  "snap_Type t s = s\<lparr>snapshotType := Some t\<rparr>"

text \<open>\<^verbatim>\<open>snapshotSettable\<close> is implemented by \<^verbatim>\<open>Snapshot\<close> and the calls that embed it.\<close>

fun upd_snap :: "string \<Rightarrow> (snap \<Rightarrow> snap) \<Rightarrow> call_option" where
  "upd_snap msg f (Admin b (Snapshot s)) = Ok (Admin b (Snapshot (f s)))"
| "upd_snap msg f (Admin b (SnapshotDone s)) = Ok (Admin b (SnapshotDone (f s)))"
| "upd_snap msg f (Admin b (DeleteSnapshot s)) = Ok (Admin b (DeleteSnapshot (f s)))"
| "upd_snap msg f (Admin b (RestoreSnapshot s)) = Ok (Admin b (RestoreSnapshot (f s)))"
| "upd_snap msg f (Admin b (RestoreSnapshotDone s)) = Ok (Admin b (RestoreSnapshotDone (f s)))"
| "upd_snap msg f c = Err msg"

definition SnapshotVersion :: "32 word \<Rightarrow> call_option" where
  "SnapshotVersion v c = upd_snap ''SnapshotVersion option can only be used with Snapshot queries''
     (snap_Version v) c"

definition SnapshotOwner :: "gostring \<Rightarrow> call_option" where
  "SnapshotOwner o' c = upd_snap ''SnapshotOwner option can only be used with Snapshot queries''
     (snap_Owner o') c"

definition SnapshotSkipFlush :: call_option where
  "SnapshotSkipFlush c = upd_snap ''SnapshotSkipFlush option can only be used with Snapshot queries''
     (snap_Type SKIPFLUSH) c"

definition NewSnapshot :: "nat \<Rightarrow> nat \<Rightarrow> gostring \<Rightarrow> gostring \<Rightarrow> call_option list \<Rightarrow> (string, call) outcome" where
  "NewSnapshot i ctx name table opts =
     applyOptions (Admin (admin_base i ctx table) (Snapshot \<lparr>snap_name = name, snap_table = table,
       snapshotType = None, snap_version = 0, snap_owner = []\<rparr>)) opts"

definition NewSnapshotDone :: "base \<Rightarrow> snap \<Rightarrow> call" where
  "NewSnapshotDone b s = Admin b (SnapshotDone s)"

definition NewDeleteSnapshot :: "base \<Rightarrow> snap \<Rightarrow> call" where
  "NewDeleteSnapshot b s = Admin b (DeleteSnapshot s)"

definition NewListSnapshots :: "nat \<Rightarrow> nat \<Rightarrow> call" where
  "NewListSnapshots i ctx = Admin (admin_base i ctx []) ListSnapshots"

definition NewRestoreSnapshot :: "base \<Rightarrow> snap \<Rightarrow> call" where
  "NewRestoreSnapshot b s = Admin b (RestoreSnapshot s)"

definition NewRestoreSnapshotDone :: "base \<Rightarrow> snap \<Rightarrow> call" where
  "NewRestoreSnapshotDone b s = Admin b (RestoreSnapshotDone s)"

section \<open>Other calls\<close>

definition NewClusterStatus :: "nat \<Rightarrow> nat \<Rightarrow> call" where
  "NewClusterStatus i background = Admin (admin_base i background []) ClusterStatus"

definition NewGetProcedureState :: "nat \<Rightarrow> nat \<Rightarrow> u64 \<Rightarrow> call" where
  "NewGetProcedureState i ctx procID = Admin (admin_base i ctx []) (GetProcedureState procID)"

definition NewSetBalancer :: "nat \<Rightarrow> nat \<Rightarrow> bool \<Rightarrow> call" where
  "NewSetBalancer i ctx enabled = Admin (admin_base i ctx []) (SetBalancer enabled)"

section \<open>ToProto\<close>

definition CreateTable_ToProto :: "bytes \<Rightarrow> create_table \<Rightarrow> admin_request" where
  "CreateTable_ToProto table ct =
     (let (namespace, tbl) = parseTableName table in
      CreateTableRequest
        \<lparr>ts_table_name = \<lparr>Namespace = namespace, TableQualifier = tbl\<rparr>,
         ts_attributes = ct_attributes ct,
         ts_column_families = map (\<lambda>(family, attrs). \<lparr>cfs_name = family, cfs_attributes = attrs\<rparr>) (ct_families ct)\<rparr>
        (ct_splitKeys ct))"

definition default_table :: "bytes \<Rightarrow> table_name" where
  "default_table table = \<lparr>Namespace = str ''default'', TableQualifier = table\<rparr>"

text \<open>The calls that embed \<^verbatim>\<open>*Snapshot\<close> inherit its \<^verbatim>\<open>ToProto\<close>.\<close>

fun admin_ToProto :: "base \<Rightarrow> admin_call \<Rightarrow> admin_request" where
  "admin_ToProto b (CreateTable ct) = CreateTable_ToProto (b_table b) ct"
| "admin_ToProto b (CreateNamespace name) = CreateNamespaceRequest name"
| "admin_ToProto b DeleteTable = DeleteTableRequest (default_table (b_table b))"
| "admin_ToProto b DisableTable = DisableTableRequest (default_table (b_table b))"
| "admin_ToProto b EnableTable = EnableTableRequest (default_table (b_table b))"
| "admin_ToProto b (ListTableNames l) =
     GetTableNamesRequest (lt_regex l) (lt_includeSysTables l) (lt_namespace l)"
| "admin_ToProto b (MoveRegion req) = MoveRegionRequest req"
| "admin_ToProto b (Snapshot s) = SnapshotRequest (snap_ToProto s)"
| "admin_ToProto b (SnapshotDone s) = SnapshotRequest (snap_ToProto s)"
| "admin_ToProto b (DeleteSnapshot s) = SnapshotRequest (snap_ToProto s)"
| "admin_ToProto b ListSnapshots = GetCompletedSnapshotsRequest"
| "admin_ToProto b (RestoreSnapshot s) = SnapshotRequest (snap_ToProto s)"
| "admin_ToProto b (RestoreSnapshotDone s) = SnapshotRequest (snap_ToProto s)"
| "admin_ToProto b ClusterStatus = GetClusterStatusRequest"
| "admin_ToProto b (GetProcedureState procID) = GetProcedureResultRequest procID"
| "admin_ToProto b (SetBalancer enabled) = SetBalancerRunningRequest enabled"

section \<open>Lemmas\<close>

lemma splitN_join:
  assumes "comma \<notin> set a" "comma \<notin> set b"
  shows "splitN (a @ comma # b @ comma # c) 3 = [a, b, c]"
proof -
  have take: "takeWhile (\<lambda>x. x \<noteq> comma) (x @ comma # y) = x" if "comma \<notin> set x" for x y
    using that by (subst takeWhile_append2) auto
  show ?thesis using assms by (simp add: numeral_3_eq_3 take)
qed

lemma splitN_3:
  assumes "splitN s 3 = [a, b, c]"
  shows "s = a @ comma # b @ comma # c \<and> comma \<notin> set a \<and> comma \<notin> set b"
proof -
  have split: "s = takeWhile (\<lambda>x. x \<noteq> comma) s @ comma # drop (Suc (length (takeWhile (\<lambda>x. x \<noteq> comma) s))) s"
    if "comma \<in> set s" for s
  proof -
    have "dropWhile (\<lambda>x. x \<noteq> comma) s \<noteq> []" using that by (auto simp: dropWhile_eq_Nil_conv)
    then have "dropWhile (\<lambda>x. x \<noteq> comma) s = comma # tl (dropWhile (\<lambda>x. x \<noteq> comma) s)"
      by (metis (mono_tags, lifting) hd_dropWhile list.collapse)
    moreover have "tl (dropWhile (\<lambda>x. x \<noteq> comma) s) = drop (Suc (length (takeWhile (\<lambda>x. x \<noteq> comma) s))) s"
      by (simp add: dropWhile_eq_drop drop_Suc tl_drop)
    ultimately show ?thesis by (metis takeWhile_dropWhile_id)
  qed
  from assms show ?thesis
    by (auto simp: numeral_3_eq_3 split: if_splits dest!: split dest: set_takeWhileD)
qed

lemma parseTableName_qualified:
  assumes "colon \<notin> set n"
  shows "parseTableName (n @ [colon] @ t) = (n, t)"
proof -
  have "takeWhile (\<lambda>x. x \<noteq> colon) (n @ colon # t) = n" using assms by (subst takeWhile_append2) auto
  then show ?thesis by (simp add: parseTableName_def)
qed

lemma parseTableName_plain: "colon \<notin> set t \<Longrightarrow> parseTableName t = (str ''default'', t)"
  by (simp add: parseTableName_def)

section \<open>Properties\<close>

text \<open>
  The destination of a region move is accepted exactly when the server name is a host, a
  decimal port below \<open>2 ^ 32\<close> and a decimal start code below \<open>2 ^ 64\<close> separated by commas,
  and the request then carries these three values.
\<close>

theorem WithDestinationRegionServer_exact:
  "WithDestinationRegionServer name (Admin b (MoveRegion req)) = Ok c \<longleftrightarrow>
    (\<exists>host port start. name = host @ [comma] @ port @ [comma] @ start \<and> comma \<notin> set host \<and>
      ParseUint 32 port = Ok (decimal_value port) \<and> ParseUint 64 start = Ok (decimal_value start) \<and>
      c = Admin b (MoveRegion (req\<lparr>DestServerName := Some \<lparr>HostName = host,
        Port = word_of_nat (decimal_value port), StartCode = word_of_nat (decimal_value start)\<rparr>\<rparr>)))"
    (is "?l \<longleftrightarrow> ?r")
proof
  assume ?l
  then obtain host port start where parts: "splitN name 3 = [host, port, start]"
    by (auto split: list.splits)
  with \<open>?l\<close> splitN_3 [OF parts] show ?r
    by (intro exI [of _ host] exI [of _ port] exI [of _ start])
      (auto simp: ParseUint_def split: if_splits)
next
  assume ?r
  then obtain host port start where r: "name = host @ [comma] @ port @ [comma] @ start" "comma \<notin> set host"
    "ParseUint 32 port = Ok (decimal_value port)" "ParseUint 64 start = Ok (decimal_value start)"
    "c = Admin b (MoveRegion (req\<lparr>DestServerName := Some \<lparr>HostName = host,
        Port = word_of_nat (decimal_value port), StartCode = word_of_nat (decimal_value start)\<rparr>\<rparr>))" by blast
  have "comma \<notin> set port"
    using r(3) by (auto simp: ParseUint_def list_all_iff is_digit_def split: if_splits)
  then show ?l using r splitN_join [of host port start] by simp
qed

text \<open>
  A table in a namespace of its own is created under that namespace, but the requests to
  enable, disable and delete it by the same name address a table of the default namespace
  whose qualifier contains the namespace, which is a different table.
\<close>

theorem namespace_table_mismatch:
  assumes "colon \<notin> set ns"
  shows "\<exists>ts keys. admin_ToProto (admin_base i ctx (ns @ [colon] @ t)) (CreateTable ct) = CreateTableRequest ts keys \<and>
    ts_table_name ts = \<lparr>Namespace = ns, TableQualifier = t\<rparr> \<and>
    admin_ToProto (admin_base i ctx (ns @ [colon] @ t)) DeleteTable =
      DeleteTableRequest \<lparr>Namespace = str ''default'', TableQualifier = ns @ [colon] @ t\<rparr> \<and>
    ts_table_name ts \<noteq> \<lparr>Namespace = str ''default'', TableQualifier = ns @ [colon] @ t\<rparr>"
  using parseTableName_qualified [OF assms, of t]
  by (auto simp: admin_base_def CreateTable_ToProto_def default_table_def dest: arg_cong [where f = length])

theorem namespace_table_mismatch_witness:
  "\<exists>ts keys. admin_ToProto (admin_base 1 2 (str ''ns'' @ [colon] @ str ''t''))
      (CreateTable \<lparr>ct_attributes = [], ct_families = [], ct_splitKeys = []\<rparr>) = CreateTableRequest ts keys \<and>
    ts_table_name ts = \<lparr>Namespace = str ''ns'', TableQualifier = str ''t''\<rparr> \<and>
    admin_ToProto (admin_base 1 2 (str ''ns'' @ [colon] @ str ''t'')) DeleteTable =
      DeleteTableRequest \<lparr>Namespace = str ''default'', TableQualifier = str ''ns'' @ [colon] @ str ''t''\<rparr> \<and>
    ts_table_name ts \<noteq> \<lparr>Namespace = str ''default'', TableQualifier = str ''ns'' @ [colon] @ str ''t''\<rparr>"
  by (rule namespace_table_mismatch) (simp add: str_def)

end
