(* ===== verification/Region_Client.thy ===== *)
theory Region_Client
  imports Multi Admin_Calls Compressor "HOL-Library.Multiset"
begin

text \<open>
  The region client (\<^verbatim>\<open>src/region/client.go\<close>, \<^verbatim>\<open>new.go\<close>): the connection to one region
  server, over which several goroutines send requests and one receives responses. The
  protobuf runtime is not part of the repository; what the client uses of it is the record
  \<open>proto_ops\<close>. The connection is seen through the bytes written and read and through the
  success of its operations, which are arguments.
\<close>

section \<open>Calls in flight\<close>

text \<open>A \<^verbatim>\<open>hrpc.Call\<close> that a client sends: a call, or a batch with its identity.\<close>

datatype rpc = Single call | Batch nat multi

datatype rpc_key = CallKey nat | BatchKey nat

fun rpc_key_of :: "rpc \<Rightarrow> rpc_key" where
  "rpc_key_of (Single c) = CallKey (call_id c)"
| "rpc_key_of (Batch n m) = BatchKey n"

fun rpc_name :: "rpc \<Rightarrow> string" where
  "rpc_name (Single c) = call_name c"
| "rpc_name (Batch n m) = ''Multi''"

text \<open>The context of a batch is the background context, which never expires.\<close>

fun rpc_expired :: "(nat \<Rightarrow> bool) \<Rightarrow> rpc \<Rightarrow> bool" where
  "rpc_expired expired (Single c) = expired (b_ctx (call_base c))"
| "rpc_expired expired (Batch n m) = False"

datatype response = Response rpc_msg | MultiResponse "region_action_result list"

datatype request_msg =
    GetRequest get_request
  | ScanRequest scan_request
  | MutateRequest mutate_request
  | MultiRequest "region_action list"
  | AdminRequest admin_request

datatype client_type = RegionClient | MasterClient

type_synonym answer = "rpc_error + response option"

record client =
  rc_addr :: string
  rc_ctype :: client_type
  rc_rpcQueueSize :: nat
  rc_flushInterval :: nat
  rc_effectiveUser :: gostring
  rc_compressor :: "codec_ops option"
  rc_conn :: bool
  rc_done :: bool
  rc_sent :: "(u32 \<times> rpc) list"
  rc_inFlight :: u32
  rc_deadline :: bool
  rc_id :: u32
  rc_written :: bytes
  rc_returned :: "(rpc \<times> answer) list"

definition NewClient ::
  "string \<Rightarrow> client_type \<Rightarrow> nat \<Rightarrow> nat \<Rightarrow> gostring \<Rightarrow> codec_ops option \<Rightarrow> client" where
  "NewClient addr ctype queueSize flushInterval effectiveUser cdc =
     \<lparr>rc_addr = addr, rc_ctype = ctype, rc_rpcQueueSize = queueSize, rc_flushInterval = flushInterval,
      rc_effectiveUser = effectiveUser, rc_compressor = cdc, rc_conn = False, rc_done = False, rc_sent = [],
      rc_inFlight = 0, rc_deadline = False, rc_id = 0, rc_written = [], rc_returned = []\<rparr>"

text \<open>\<^verbatim>\<open>returnResult\<close>: the answer is recorded; a batch distributes it as \<open>multi_returnResults\<close> does.\<close>

definition returnResult :: "rpc \<Rightarrow> answer \<Rightarrow> client \<Rightarrow> client" where
  "returnResult rpc res c = c\<lparr>rc_returned := rc_returned c @ [(rpc, res)]\<rparr>"

definition deliveries :: "rpc \<times> answer \<Rightarrow> ('e, delivery list) outcome" where
  "deliveries ra =
     (case ra of
        (Single c, Inl err) \<Rightarrow> Ok [(call_id c, Inl err)]
      | (Single c, Inr None) \<Rightarrow> Ok [(call_id c, Inr None)]
      | (Single c, Inr (Some (Response msg))) \<Rightarrow> Ok [(call_id c, Inr (Some msg))]
      | (Single c, Inr (Some (MultiResponse mr))) \<Rightarrow> Panic (Explicit ''interface conversion'')
      | (Batch n m, Inl err) \<Rightarrow> and_then (multi_returnResults m (Inl err)) (\<lambda>(ds, _). Ok ds)
      | (Batch n m, Inr (Some (MultiResponse mr))) \<Rightarrow> and_then (multi_returnResults m (Inr mr)) (\<lambda>(ds, _). Ok ds)
      | (Batch n m, Inr _) \<Rightarrow> Panic (Explicit ''interface conversion''))"

section \<open>Bookkeeping\<close>

definition registerRPC :: "rpc \<Rightarrow> client \<Rightarrow> u32 \<times> client" where
  "registerRPC rpc c =
     (let currID = rc_id c + 1 in
      (currID, c\<lparr>rc_id := currID,
                 rc_sent := (currID, rpc) # filter (\<lambda>e. fst e \<noteq> currID) (rc_sent c)\<rparr>))"

definition unregisterRPC :: "u32 \<Rightarrow> client \<Rightarrow> rpc option \<times> client" where
  "unregisterRPC i c =
     (map_of (rc_sent c) i, c\<lparr>rc_sent := filter (\<lambda>e. fst e \<noteq> i) (rc_sent c)\<rparr>)"

text \<open>\<open>ok\<close> is whether \<^verbatim>\<open>SetReadDeadline\<close> succeeds; the result is whether the call does.\<close>

definition inFlightUp :: "bool \<Rightarrow> client \<Rightarrow> bool \<times> client" where
  "inFlightUp ok c =
     (let c1 = c\<lparr>rc_inFlight := rc_inFlight c + 1\<rparr> in
      if ok then (True, c1\<lparr>rc_deadline := True\<rparr>) else (False, c1))"

definition inFlightDown :: "bool \<Rightarrow> client \<Rightarrow> bool \<times> client" where
  "inFlightDown ok c =
     (let c1 = c\<lparr>rc_inFlight := rc_inFlight c - 1\<rparr> in
      if rc_inFlight c1 = 0
      then (if ok then (True, c1\<lparr>rc_deadline := False\<rparr>) else (False, c1))
      else (True, c1))"

definition failSentRPCs :: "client \<Rightarrow> client" where
  "failSentRPCs c =
     fold (\<lambda>e c. returnResult (snd e) (Inl ErrClientClosed) c) (rc_sent c) (c\<lparr>rc_sent := []\<rparr>)"

text \<open>\<^verbatim>\<open>fail\<close> runs once; that it ran is that \<^verbatim>\<open>done\<close> is closed.\<close>

definition client_fail :: "rpc_error \<Rightarrow> client \<Rightarrow> client" where
  "client_fail err c =
     (if rc_done c then c else failSentRPCs (c\<lparr>rc_done := True, rc_conn := False\<rparr>))"

definition client_Close :: "client \<Rightarrow> client" where
  "client_Close c = client_fail ErrClientClosed c"

section \<open>Sending\<close>

record request_header =
  rh_method_name :: string
  rh_request_param :: bool
  rh_cell_block_len :: "u32 option"
  rh_call_id :: u32

record response_header =
  rsp_call_id :: "u32 option"
  rsp_exception :: "(string option \<times> string option) option"
  rsp_cell_block_len :: "u32 option option"

record proto_ops =
  marshal_header :: "request_header \<Rightarrow> string + bytes"
  marshal_request :: "request_msg \<Rightarrow> string + bytes"
  marshal_conn_header :: "gostring \<Rightarrow> string \<Rightarrow> string \<Rightarrow> string option \<Rightarrow> string + bytes"
  size_header :: "request_header \<Rightarrow> nat"
  size_request :: "request_msg \<Rightarrow> nat"
  append_varint :: "nat \<Rightarrow> bytes"
  size_varint :: "nat \<Rightarrow> nat"
  consume_bytes :: "bytes \<Rightarrow> string + bytes \<times> nat"
  unmarshal_header :: "bytes \<Rightarrow> string + response_header"
  unmarshal_response :: "rpc \<Rightarrow> bytes \<Rightarrow> string + response"

text \<open>The request and, for calls that use them, the cell blocks with their length.\<close>

fun serialize_rpc ::
  "(region_map \<Rightarrow> region_map) \<Rightarrow> (nat \<Rightarrow> bool) \<Rightarrow> rpc
     \<Rightarrow> (rpc_error, rpc \<times> request_msg \<times> (bytes list \<times> u32) option) outcome" where
  "serialize_rpc order expired (Batch n m) =
     and_then (multi_SerializeCellBlocks order expired m []) (\<lambda>(m', ras, cbs, len).
       Ok (Batch n m', MultiRequest ras, Some (cbs, len)))"
| "serialize_rpc order expired (Single (Mutate m)) =
     and_then (Mutate_SerializeCellBlocks m []) (\<lambda>(req, cbs, len).
       Ok (Single (Mutate m), MutateRequest req, Some (cbs, len)))"
| "serialize_rpc order expired (Single (CheckAndPut cp)) =
     and_then (CheckAndPut_ToProto cp) (\<lambda>req. Ok (Single (CheckAndPut cp), MutateRequest req, None))"
| "serialize_rpc order expired (Single (Get g)) =
     and_then (Get_ToProto g) (\<lambda>req. Ok (Single (Get g), GetRequest req, None))"
| "serialize_rpc order expired (Single (Scan s)) =
     and_then (Scan_ToProto s) (\<lambda>req. Ok (Single (Scan s), ScanRequest req, None))"
| "serialize_rpc order expired (Single (Admin b a)) =
     Ok (Single (Admin b a), AdminRequest (admin_ToProto b a), None)"

definition compress_request :: "codec_ops option \<Rightarrow> (bytes list \<times> u32) option \<Rightarrow> (bytes list \<times> u32) option" where
  "compress_request cdc cells =
     (case cells of
        None \<Rightarrow> None
      | Some (cbs, len) \<Rightarrow>
          (case cdc of
             None \<Rightarrow> Some (cbs, len)
           | Some C \<Rightarrow> let z = compressCellblocks C cbs len in Some ([z], word_of_nat (length z))))"

text \<open>
  The frame: its length, the header and the request, each after its own length, and the cell
  blocks. The first component of the result is the error, if any.
\<close>

definition request_frame ::
  "proto_ops \<Rightarrow> request_header \<Rightarrow> request_msg \<Rightarrow> (bytes list \<times> u32) option \<Rightarrow> (rpc_error, bytes) outcome" where
  "request_frame P header request cells =
     (let headerSize = size_header P header;
          requestSize = size_request P request;
          protobufLen = size_varint P headerSize + headerSize + size_varint P requestSize + requestSize;
          totalLen = word_of_nat protobufLen + (case cells of None \<Rightarrow> 0 | Some (_, len) \<Rightarrow> len)
      in case marshal_header P header of
        Inl e \<Rightarrow> Err (OtherError (''failed to marshal request header: '' @ e))
      | Inr h \<Rightarrow>
          (case marshal_request P request of
             Inl e \<Rightarrow> Err (OtherError (''failed to marshal request: '' @ e))
           | Inr r \<Rightarrow>
               let b = put_uint32 totalLen @ append_varint P headerSize @ h @ append_varint P requestSize @ r in
               if length b \<noteq> 4 + protobufLen
               then Panic (Explicit ''size of data sent doesn't match expected'')
               else Ok (b @ (case cells of None \<Rightarrow> [] | Some (cbs, _) \<Rightarrow> concat cbs))))"

text \<open>
  The end of \<^verbatim>\<open>send\<close>: marshal, write, count the call as in flight. \<open>write_ok\<close> and \<open>up_ok\<close> tell
  whether writing to the connection and setting the deadline succeed. The result is the
  error, if any.
\<close>

definition write_request ::
  "proto_ops \<Rightarrow> bool \<Rightarrow> bool \<Rightarrow> request_header \<Rightarrow> request_msg \<Rightarrow> (bytes list \<times> u32) option \<Rightarrow> client
     \<Rightarrow> (rpc_error, rpc_error option \<times> client) outcome" where
  "write_request P write_ok up_ok header request cells c =
     (case request_frame P header request cells of
        Panic p \<Rightarrow> Panic p
      | Err e \<Rightarrow> Ok (Some e, c)
      | Ok frame \<Rightarrow>
          if \<not> write_ok then Ok (Some (ServerError ''write failed''), c)
          else
            (case inFlightUp up_ok (c\<lparr>rc_written := rc_written c @ frame\<rparr>) of (up, c') \<Rightarrow>
               Ok (if up then None else Some (ServerError ''set deadline failed''), c')))"

text \<open>\<^verbatim>\<open>send\<close>: serialise, register, write. The result holds the call ID and the call as registered.\<close>

definition send ::
  "proto_ops \<Rightarrow> (region_map \<Rightarrow> region_map) \<Rightarrow> (nat \<Rightarrow> bool) \<Rightarrow> bool \<Rightarrow> bool \<Rightarrow> rpc \<Rightarrow> client
     \<Rightarrow> (rpc_error, u32 \<times> rpc \<times> rpc_error option \<times> client) outcome" where
  "send P order expired write_ok up_ok rpc c =
     and_then (serialize_rpc order expired rpc) (\<lambda>(rpc', request, cells).
       let cells' = compress_request (rc_compressor c) cells;
           (i, c1) = registerRPC rpc' c;
           header = \<lparr>rh_method_name = rpc_name rpc, rh_request_param = True,
                     rh_cell_block_len = map_option snd cells', rh_call_id = i\<rparr>
       in and_then (write_request P write_ok up_ok header request cells' c1) (\<lambda>(res, c2).
            Ok (i, rpc', res, c2)))"

definition is_server_error :: "rpc_error \<Rightarrow> bool" where
  "is_server_error e = (case e of ServerError _ \<Rightarrow> True | _ \<Rightarrow> False)"

text \<open>The error path of \<^verbatim>\<open>trySend\<close>; the error is returned only when the call was still registered.\<close>

definition settle_send :: "u32 \<Rightarrow> rpc_error option \<Rightarrow> client \<Rightarrow> rpc_error option \<times> client" where
  "settle_send i res c =
     (case res of
        None \<Rightarrow> (None, c)
      | Some err \<Rightarrow>
          (case unregisterRPC i (if is_server_error err then client_fail err c else c) of (r, c') \<Rightarrow>
             (if r \<noteq> None then Some err else None, c')))"

definition trySend ::
  "proto_ops \<Rightarrow> (region_map \<Rightarrow> region_map) \<Rightarrow> (nat \<Rightarrow> bool) \<Rightarrow> bool \<Rightarrow> bool \<Rightarrow> rpc \<Rightarrow> client
     \<Rightarrow> (rpc_error, rpc \<times> rpc_error option \<times> client) outcome" where
  "trySend P order expired write_ok up_ok rpc c =
     and_then (send P order expired write_ok up_ok rpc c) (\<lambda>(i, rpc', res, c1).
       case settle_send i res c1 of (res', c2) \<Rightarrow> Ok (rpc', res', c2))"

text \<open>
  \<^verbatim>\<open>QueueBatch\<close> blocks until a case of its \<^verbatim>\<open>select\<close> is ready and takes one of those that are;
  \<open>choice\<close> is the case taken, \<open>None\<close> that it is not ready. The first component of the result is
  the calls handed to the batching goroutine.
\<close>

datatype queue_choice = CtxDone | ClientDone | Enqueued

definition QueueBatch :: "queue_choice \<Rightarrow> bool \<Rightarrow> call list \<Rightarrow> client \<Rightarrow> (call list \<times> client) option" where
  "QueueBatch choice ctx_done rpcs c =
     (case choice of
        CtxDone \<Rightarrow> if ctx_done then Some ([], c) else None
      | ClientDone \<Rightarrow>
          if rc_done c then Some ([], fold (\<lambda>r c. returnResult (Single r) (Inl ErrClientClosed) c) rpcs c) else None
      | Enqueued \<Rightarrow> Some (rpcs, c))"

text \<open>
  \<^verbatim>\<open>QueueRPC\<close>. The \<^verbatim>\<open>select\<close> of a call that is not batched has a default case, so it does not
  block; \<open>choice\<close> matters when both its other cases are ready.
\<close>

definition QueueRPC ::
  "proto_ops \<Rightarrow> (region_map \<Rightarrow> region_map) \<Rightarrow> (nat \<Rightarrow> bool) \<Rightarrow> bool \<Rightarrow> bool \<Rightarrow> queue_choice \<Rightarrow> call \<Rightarrow> client
     \<Rightarrow> (rpc_error, call list \<times> client) outcome option" where
  "QueueRPC P order expired write_ok up_ok choice rpc c =
     (let ctx_done = expired (b_ctx (call_base rpc)) in
      if SkipBatch_of rpc = Some False \<and> rc_rpcQueueSize c > 1 then map_option Ok (QueueBatch choice ctx_done [rpc] c)
      else Some
        (if rc_done c \<and> \<not> (ctx_done \<and> choice = CtxDone) then Ok ([], returnResult (Single rpc) (Inl ErrClientClosed) c)
         else if ctx_done then Ok ([], c)
         else and_then (trySend P order expired write_ok up_ok (Single rpc) c) (\<lambda>(rpc', res, c1).
           case res of
             None \<Rightarrow> Ok ([], c1)
           | Some err \<Rightarrow> Ok ([], returnResult (Single rpc) (Inl err) c1))))"

section \<open>Receiving\<close>

fun deserialize_response :: "rpc \<Rightarrow> response \<Rightarrow> bytes \<Rightarrow> (string, response \<times> u32) outcome option" where
  "deserialize_response (Single (Get g)) (Response (GetResponse resp)) b =
     Some (wrap_err (\<lambda>_. ''cellblock'') (and_then (Get_DeserializeCellBlocks resp b)
       (\<lambda>(r, n). Ok (Response (GetResponse r), n))))"
| "deserialize_response (Single (Scan s)) (Response (ScanResponse resp)) b =
     Some (wrap_err (\<lambda>_. ''cellblock'') (and_then (Scan_DeserializeCellBlocks resp b)
       (\<lambda>(r, n). Ok (Response (ScanResponse r), n))))"
| "deserialize_response (Single (Mutate m)) (Response (MutateResponse resp)) b =
     Some (wrap_err (\<lambda>_. ''cellblock'') (and_then (Mutate_DeserializeCellBlocks resp b)
       (\<lambda>(r, n). Ok (Response (MutateResponse r), n))))"
| "deserialize_response (Single (CheckAndPut cp)) (Response (MutateResponse resp)) b =
     Some (wrap_err (\<lambda>_. ''cellblock'') (and_then (Mutate_DeserializeCellBlocks resp b)
       (\<lambda>(r, n). Ok (Response (MutateResponse r), n))))"
| "deserialize_response (Batch k m) (MultiResponse mr) b =
     Some (wrap_err (\<lambda>_. ''multi'') (and_then (multi_DeserializeCellBlocks m mr b)
       (\<lambda>(r, n). Ok (MultiResponse r, n))))"
| "deserialize_response (Single (Admin x y)) resp b = None"
| "deserialize_response _ _ b = Some (Panic (Explicit ''interface conversion''))"

text \<open>
  The part of \<^verbatim>\<open>receive\<close> after the call was found: the answer for the call. \<open>b\<close> is the frame
  without its length, \<open>headerLen\<close> the bytes its header takes.
\<close>

definition decode_response ::
  "proto_ops \<Rightarrow> codec_ops option \<Rightarrow> rpc \<Rightarrow> response_header \<Rightarrow> bytes \<Rightarrow> nat \<Rightarrow> (rpc_error, response) outcome" where
  "decode_response P cdc rpc header b headerLen =
     (case rsp_exception header of
        Some (None, _) \<Rightarrow> Panic NilDereference
      | Some (_, None) \<Rightarrow> Panic NilDereference
      | Some (Some cls, Some stack) \<Rightarrow> Err (exceptionToError cls stack)
      | None \<Rightarrow>
          and_then (slice_from b headerLen) (\<lambda>body.
          case consume_bytes P body of
            Inl e \<Rightarrow> Err (RetryableError (''failed to decode the response: '' @ e))
          | Inr (responseBytes, _) \<Rightarrow>
              (case unmarshal_response P rpc responseBytes of
                 Inl e \<Rightarrow> Err (RetryableError (''failed to decode the response: '' @ e))
               | Inr resp \<Rightarrow>
                   let cellsLen = (case rsp_cell_block_len header of
                     None \<Rightarrow> 0 | Some None \<Rightarrow> 0 | Some (Some n) \<Rightarrow> n)
                   in if cellsLen = 0 then Ok resp
                   else case deserialize_response rpc resp [] of
                     None \<Rightarrow> Ok resp
                   | Some _ \<Rightarrow>
                       and_then (slice_from b (unat (word_of_nat (length b) - cellsLen))) (\<lambda>cb.
                       and_then (case cdc of
                           None \<Rightarrow> Ok cb
                         | Some C \<Rightarrow> wrap_err (\<lambda>_. RetryableError ''failed to decompress the response'')
                             (decompressCellblocks C cb)) (\<lambda>cb.
                       and_then (wrap_err (\<lambda>e. RetryableError (''failed to decode the response: '' @ e))
                           (the (deserialize_response rpc resp cb))) (\<lambda>(resp', nread).
                         if unat nread < length cb
                         then Err (RetryableError ''short read'')
                         else Ok resp'))))))"

text \<open>
  \<^verbatim>\<open>receive\<close> on the bytes the connection still has to deliver; a connection that ends early
  fails the read. The result is the error of the function, the bytes left and the client.
\<close>

definition receive ::
  "proto_ops \<Rightarrow> (nat \<Rightarrow> bool) \<Rightarrow> bool \<Rightarrow> bytes \<Rightarrow> client
     \<Rightarrow> (rpc_error, rpc_error option \<times> bytes \<times> client) outcome" where
  "receive P expired down_ok stream c =
     (if length stream < 4 then Ok (Some (ServerError ''EOF''), [], c)
      else and_then (uint32 (take 4 stream)) (\<lambda>size.
        let rest = drop 4 stream in
        if length rest < unat size then Ok (Some (ServerError ''unexpected EOF''), [], c)
        else
          let b = take (unat size) rest; stream' = drop (unat size) rest in
          case consume_bytes P b of
            Inl e \<Rightarrow> Ok (Some (ServerError (''failed to decode the response header: '' @ e)), stream', c)
          | Inr (headerBytes, headerLen) \<Rightarrow>
          (case unmarshal_header P headerBytes of
            Inl e \<Rightarrow> Ok (Some (ServerError (''failed to decode the response header: '' @ e)), stream', c)
          | Inr header \<Rightarrow>
          (case rsp_call_id header of
            None \<Rightarrow> Ok (Some ErrMissingCallID, stream', c)
          | Some callID \<Rightarrow>
          (case unregisterRPC callID c of (found, c1) \<Rightarrow>
          (case found of
            None \<Rightarrow> Ok (Some (ServerError ''got a response with an unexpected call ID''), stream', c1)
          | Some rpc \<Rightarrow>
          (case inFlightDown down_ok c1 of (down, c2) \<Rightarrow>
            if \<not> down then Ok (Some (ServerError ''set deadline failed''), stream', c2)
            else if rpc_expired expired rpc then Ok (None, stream', c2)
            else (case decode_response P (rc_compressor c2) rpc header b headerLen of
                Panic p \<Rightarrow> Panic p
              | Err err \<Rightarrow> Ok (Some err, stream', returnResult rpc (Inl err) c2)
              | Ok resp \<Rightarrow> Ok (None, stream', returnResult rpc (Inr (Some resp)) c2)))))))))"

text \<open>One turn of \<^verbatim>\<open>receiveRPCs\<close>; \<open>None\<close> when the goroutine ends.\<close>

definition receive_turn ::
  "proto_ops \<Rightarrow> (nat \<Rightarrow> bool) \<Rightarrow> bool \<Rightarrow> bytes \<Rightarrow> client \<Rightarrow> (rpc_error, bytes option \<times> client) outcome" where
  "receive_turn P expired down_ok stream c =
     (if rc_done c then Ok (None, c)
      else and_then (receive P expired down_ok stream c) (\<lambda>(err, stream', c').
        case err of
          Some e \<Rightarrow> if is_server_error e then Ok (None, client_fail e c') else Ok (Some stream', c')
        | None \<Rightarrow> Ok (Some stream', c')))"

section \<open>Dialing\<close>

definition serviceName :: "client_type \<Rightarrow> string" where
  "serviceName t = (case t of RegionClient \<Rightarrow> ''ClientService'' | MasterClient \<Rightarrow> ''MasterService'')"

definition helloHeader :: bytes where
  "helloHeader = str ''HBas'' @ [0, 0x50]"

text \<open>\<^verbatim>\<open>sendHello\<close>: the bytes written, or the error of marshalling.\<close>

definition sendHello :: "proto_ops \<Rightarrow> client \<Rightarrow> string + bytes" where
  "sendHello P c =
     (case marshal_conn_header P (rc_effectiveUser c) (serviceName (rc_ctype c))
         ''org.apache.hadoop.hbase.codec.KeyValueCodec''
         (map_option CellBlockCompressorClass (rc_compressor c)) of
        Inl e \<Rightarrow> Inl (''failed to marshal connection header: '' @ e)
      | Inr data \<Rightarrow> Inr (helloHeader @ put_uint32 (word_of_nat (length data)) @ data))"

text \<open>
  What the network does to a \<^verbatim>\<open>Dial\<close>: whether connecting, the two deadline calls (the first
  only when the context has a deadline) and the write succeed.
\<close>

record dial_env =
  dial_ok :: bool
  has_deadline :: bool
  set_deadline_ok :: bool
  hello_ok :: bool
  reset_deadline_ok :: bool

text \<open>
  The first call of \<^verbatim>\<open>Dial\<close>; the second component tells which goroutines it starts: the
  batching one and the receiving one.
\<close>

definition dial_once :: "proto_ops \<Rightarrow> dial_env \<Rightarrow> client \<Rightarrow> client \<times> bool \<times> bool" where
  "dial_once P env c =
     (if \<not> dial_ok env then (client_fail (OtherError ''failed to dial RegionServer'') c, False, False)
      else
        let c = c\<lparr>rc_conn := True\<rparr> in
        if has_deadline env \<and> \<not> set_deadline_ok env
        then (client_fail (OtherError ''failed to set write deadline'') c, False, False)
        else case sendHello P c of
          Inl e \<Rightarrow> (client_fail (OtherError (''failed to send hello to RegionServer: '' @ e)) c, False, False)
        | Inr hello \<Rightarrow>
            if \<not> hello_ok env
            then (client_fail (OtherError ''failed to send hello to RegionServer'') c, False, False)
            else
              let c = c\<lparr>rc_written := rc_written c @ hello\<rparr> in
              if \<not> reset_deadline_ok env
              then (client_fail (OtherError ''failed to set write deadline'') c, False, False)
              else (c, rc_ctype c = RegionClient, True))"

text \<open>\<^verbatim>\<open>Dial\<close>: \<open>dialed\<close> is the state of \<^verbatim>\<open>dialOnce\<close>; the error comes from \<^verbatim>\<open>done\<close>.\<close>

definition client_Dial ::
  "proto_ops \<Rightarrow> dial_env \<Rightarrow> bool \<times> client \<Rightarrow> rpc_error option \<times> (bool \<times> client) \<times> bool \<times> bool" where
  "client_Dial P env s =
     (let (c, started) = (if fst s then (snd s, False, False) else dial_once P env (snd s)) in
      ((if rc_done c then Some ErrClientClosed else None), (True, c), started))"

section \<open>Accounting for calls\<close>

text \<open>
  The calls a client answers for: those that wait for a response and those it answered. Each
  call ID stands for one call.
\<close>

definition in_hand :: "client \<Rightarrow> rpc multiset" where
  "in_hand c = mset (map snd (rc_sent c)) + mset (map fst (rc_returned c))"

definition ids_ok :: "client \<Rightarrow> bool" where
  "ids_ok c \<longleftrightarrow> distinct (map fst (rc_sent c))"

definition fresh_id :: "client \<Rightarrow> bool" where
  "fresh_id c \<longleftrightarrow> rc_id c + 1 \<notin> fst ` set (rc_sent c)"

lemma in_hand_returnResult [simp]: "in_hand (returnResult r a c) = add_mset r (in_hand c)"
  by (simp add: in_hand_def returnResult_def)

lemma returnResult_fields [simp]:
  "rc_sent (returnResult r a c) = rc_sent c" "rc_done (returnResult r a c) = rc_done c"
  "rc_id (returnResult r a c) = rc_id c" "rc_conn (returnResult r a c) = rc_conn c"
  "rc_returned (returnResult r a c) = rc_returned c @ [(r, a)]"
  by (simp_all add: returnResult_def)

lemma fold_returnResult:
  "fold (\<lambda>e c. returnResult (f e) a c) xs c = c\<lparr>rc_returned := rc_returned c @ map (\<lambda>e. (f e, a)) xs\<rparr>"
  by (induction xs arbitrary: c) (simp_all add: returnResult_def)

lemma failSentRPCs_eq:
  "failSentRPCs c = c\<lparr>rc_sent := [],
     rc_returned := rc_returned c @ map (\<lambda>e. (snd e, Inl ErrClientClosed)) (rc_sent c)\<rparr>"
  by (simp add: failSentRPCs_def fold_returnResult)

lemma in_hand_failSentRPCs [simp]: "in_hand (failSentRPCs c) = in_hand c"
  by (simp add: in_hand_def failSentRPCs_eq image_mset.compositionality comp_def)

lemma in_hand_client_fail [simp]: "in_hand (client_fail e c) = in_hand c"
  by (simp add: client_fail_def) (simp add: in_hand_def)

lemma in_hand_inFlightUp [simp]: "in_hand (snd (inFlightUp ok c)) = in_hand c"
  by (simp add: inFlightUp_def in_hand_def Let_def)

lemma in_hand_inFlightDown [simp]: "in_hand (snd (inFlightDown ok c)) = in_hand c"
  by (simp add: inFlightDown_def in_hand_def Let_def)

lemma inFlight_fields [simp]:
  "rc_sent (snd (inFlightUp ok c)) = rc_sent c" "rc_sent (snd (inFlightDown ok c)) = rc_sent c"
  "rc_returned (snd (inFlightUp ok c)) = rc_returned c" "rc_returned (snd (inFlightDown ok c)) = rc_returned c"
  "rc_id (snd (inFlightUp ok c)) = rc_id c" "rc_id (snd (inFlightDown ok c)) = rc_id c"
  "rc_done (snd (inFlightUp ok c)) = rc_done c" "rc_done (snd (inFlightDown ok c)) = rc_done c"
  "rc_conn (snd (inFlightUp ok c)) = rc_conn c" "rc_conn (snd (inFlightDown ok c)) = rc_conn c"
  by (simp_all add: inFlightUp_def inFlightDown_def Let_def)

lemma fst_inFlightUp [simp]: "fst (inFlightUp ok c) = ok"
  by (simp add: inFlightUp_def Let_def)

lemma registerRPC_fresh:
  assumes "fresh_id c"
  shows "registerRPC r c = (rc_id c + 1, c\<lparr>rc_id := rc_id c + 1, rc_sent := (rc_id c + 1, r) # rc_sent c\<rparr>)"
proof -
  have "filter (\<lambda>e. fst e \<noteq> rc_id c + 1) (rc_sent c) = rc_sent c"
    using assms by (intro filter_True) (force simp: fresh_id_def)
  then show ?thesis by (simp add: registerRPC_def Let_def)
qed

text \<open>Taking a call out of the table of sent calls.\<close>

lemma mset_remove_id:
  assumes "distinct (map fst xs)"
  shows "mset (map snd xs) =
    mset (map snd (filter (\<lambda>e. fst e \<noteq> i) xs)) + (case map_of xs i of None \<Rightarrow> {#} | Some r \<Rightarrow> {#r#})"
  using assms
proof (induction xs)
  case (Cons x xs)
  obtain j r where x: "x = (j, r)" by force
  have "filter (\<lambda>e. fst e \<noteq> j) xs = xs" using Cons.prems x by (intro filter_True) auto
  moreover have "map_of xs j = None" using Cons.prems x by (simp add: map_of_eq_None_iff)
  ultimately show ?case using Cons x by (auto split: option.splits)
qed simp

lemma in_hand_unregister:
  assumes "ids_ok c" "unregisterRPC i c = (r, c')"
  shows "in_hand c = in_hand c' + (case r of None \<Rightarrow> {#} | Some r \<Rightarrow> {#r#})"
  using assms mset_remove_id [of "rc_sent c" i]
  by (auto simp: unregisterRPC_def in_hand_def ids_ok_def)

lemma unregister_registered:
  assumes "ids_ok c1" "map_of (rc_sent c1) i = Some rpc" "c2 = c1 \<or> c2 = client_fail e c1"
    "unregisterRPC i c2 = (r, c3)"
  shows "r = None \<or> r = Some rpc" "ids_ok c3" "i \<notin> fst ` set (rc_sent c3)"
  using assms by (auto simp: unregisterRPC_def client_fail_def failSentRPCs_eq ids_ok_def split: if_splits
      intro: distinct_map_filter)

lemma ids_ok_client_fail [simp]: "ids_ok c \<Longrightarrow> ids_ok (client_fail e c)"
  by (simp add: client_fail_def failSentRPCs_eq ids_ok_def)

text \<open>
  \<^verbatim>\<open>send\<close> registers the call it sends under the next ID and leaves everything else, whatever
  the connection does.
\<close>

lemma write_request_keeps:
  assumes "write_request P w u header request cells c = Ok (res, c')"
  shows "rc_sent c' = rc_sent c" "rc_returned c' = rc_returned c" "rc_id c' = rc_id c" "rc_done c' = rc_done c"
proof -
  have "c' = c \<or> (\<exists>frame. c' = snd (inFlightUp u (c\<lparr>rc_written := frame\<rparr>)))"
    using assms by (auto simp: write_request_def split_beta split: outcome.splits if_splits)
  then show "rc_sent c' = rc_sent c" "rc_returned c' = rc_returned c" "rc_id c' = rc_id c" "rc_done c' = rc_done c"
    by auto
qed

lemma send_OkE:
  assumes "send P order expired w u rpc c = Ok (i, rpc', res, c2)"
  obtains request cells c1 header where
    "serialize_rpc order expired rpc = Ok (rpc', request, cells)" "registerRPC rpc' c = (i, c1)"
    "header = \<lparr>rh_method_name = rpc_name rpc, rh_request_param = True,
       rh_cell_block_len = map_option snd (compress_request (rc_compressor c) cells), rh_call_id = i\<rparr>"
    "write_request P w u header request (compress_request (rc_compressor c) cells) c1 = Ok (res, c2)"
proof -
  obtain rpc1 request cells where ser: "serialize_rpc order expired rpc = Ok (rpc1, request, cells)"
    using assms by (auto simp: send_def)
  obtain j c1 where reg: "registerRPC rpc1 c = (j, c1)" by force
  from assms ser reg show ?thesis using that by (auto simp: send_def Let_def)
qed

lemma send_registers:
  assumes "send P order expired w u rpc c = Ok (i, rpc', res, c1)" "fresh_id c"
  shows "i = rc_id c + 1" "rc_sent c1 = (i, rpc') # rc_sent c" "rc_returned c1 = rc_returned c"
    "rc_id c1 = i" "rc_done c1 = rc_done c"
  using assms(1) by (auto elim!: send_OkE simp: registerRPC_fresh [OF assms(2)] write_request_keeps)

lemma settle_send_accounts:
  assumes "settle_send i res c = (res', c')" "ids_ok c" "map_of (rc_sent c) i = Some rpc"
  shows "ids_ok c'" "rc_id c' = rc_id c" "in_hand c' + (if res' = None then {#} else {#rpc#}) = in_hand c"
proof -
  have "ids_ok c' \<and> rc_id c' = rc_id c \<and> in_hand c' + (if res' = None then {#} else {#rpc#}) = in_hand c"
  proof (cases res)
    case (Some err)
    define c2 where "c2 = (if is_server_error err then client_fail err c else c)"
    obtain r c3 where u: "unregisterRPC i c2 = (r, c3)" by force
    have c2: "c2 = c \<or> c2 = client_fail err c" "ids_ok c2" "in_hand c2 = in_hand c" "rc_id c2 = rc_id c"
      using assms(2) by (simp_all add: c2_def) (simp add: client_fail_def failSentRPCs_eq)
    have "c' = c3" "res' = (if r \<noteq> None then Some err else None)"
      using assms(1) Some u by (auto simp: settle_send_def c2_def)
    then show ?thesis
      using in_hand_unregister [OF c2(2) u] unregister_registered [OF assms(2,3) c2(1) u] c2(3,4) u
      by (auto simp: unregisterRPC_def split: option.splits)
  qed (use assms in \<open>simp add: settle_send_def\<close>)
  then show "ids_ok c'" "rc_id c' = rc_id c" "in_hand c' + (if res' = None then {#} else {#rpc#}) = in_hand c"
    by blast+
qed

lemma trySend_accounts:
  assumes "trySend P order expired w u rpc c = Ok (rpc', res, c')" "ids_ok c" "fresh_id c"
  shows "ids_ok c'" "rc_id c' = rc_id c + 1"
    "in_hand c' + (if res = None then {#} else {#rpc'#}) = add_mset rpc' (in_hand c)"
proof -
  obtain i res0 c1 where s: "send P order expired w u rpc c = Ok (i, rpc', res0, c1)"
    and t: "settle_send i res0 c1 = (res, c')"
    using assms(1) by (auto simp: trySend_def split_beta)
  note reg = send_registers [OF s assms(3)]
  have ok1: "ids_ok c1" using assms(2,3) reg by (simp add: ids_ok_def fresh_id_def)
  have hand1: "in_hand c1 = add_mset rpc' (in_hand c)" using reg by (simp add: in_hand_def)
  have "map_of (rc_sent c1) i = Some rpc'" using reg by simp
  from settle_send_accounts [OF t ok1 this] reg hand1 show "ids_ok c'" "rc_id c' = rc_id c + 1"
    "in_hand c' + (if res = None then {#} else {#rpc'#}) = add_mset rpc' (in_hand c)" by simp_all
qed

lemma serialize_Single:
  "serialize_rpc order expired (Single rpc) = Ok (rpc', request, cells) \<Longrightarrow> rpc' = Single rpc"
  by (cases rpc) auto

lemma trySend_Single:
  "trySend P order expired w u (Single rpc) c = Ok (rpc', res, c') \<Longrightarrow> rpc' = Single rpc"
  by (auto simp: trySend_def split_beta elim!: send_OkE dest: serialize_Single)

section \<open>Properties\<close>


definition sample_proto :: proto_ops where
  "sample_proto = \<lparr>marshal_header = \<lambda>h. Inr [1], marshal_request = \<lambda>r. Inr [2],
     marshal_conn_header = \<lambda>_ _ _ _. Inr [3], size_header = \<lambda>h. 1, size_request = \<lambda>r. 1,
     append_varint = \<lambda>n. [word_of_nat n], size_varint = \<lambda>n. 1,
     consume_bytes = \<lambda>b. case b of [] \<Rightarrow> Inl ''EOF'' | n # rest \<Rightarrow> Inr (take (unat n) rest, Suc (unat n)),
     unmarshal_header = \<lambda>b. Inr \<lparr>rsp_call_id = Some 1, rsp_exception = None, rsp_cell_block_len = None\<rparr>,
     unmarshal_response = \<lambda>r b. Inr (Response (AdminResponse (GetClusterStatusResponse None)))\<rparr>"

definition sample_client :: client where
  "sample_client = (NewClient ''host:1'' RegionClient 1 0 [] None)\<lparr>rc_conn := True\<rparr>"

definition sample_status :: call where
  "sample_status = NewClusterStatus 5 0"

lemma sample_status_send:
  "QueueRPC sample_proto id (\<lambda>_. False) False True Enqueued sample_status sample_client =
     Some (Ok ([], client_fail (ServerError ''write failed'') (snd (registerRPC (Single sample_status) sample_client))))"
  by (simp add: QueueRPC_def sample_status_def NewClusterStatus_def sample_client_def NewClient_def trySend_def
      send_def registerRPC_def settle_send_def unregisterRPC_def write_request_def request_frame_def sample_proto_def
      compress_request_def is_server_error_def client_fail_def failSentRPCs_def returnResult_def put_uint32_def
      Let_def numeral_2_eq_2)


end
