(* ===== verification/Call_Methods.thy ===== *)
theory Call_Methods
  imports Region_Client
begin

text \<open>
  The methods of the calls, as Go dispatches them: the interfaces \<^verbatim>\<open>Call\<close> and \<^verbatim>\<open>Batchable\<close>
  of \<^verbatim>\<open>src/hrpc/call.go\<close> and \<^verbatim>\<open>canSerializeCellBlocks\<close> of \<^verbatim>\<open>src/region/client.go\<close> are a record of
  methods, every type of \<^verbatim>\<open>src/hrpc\<close> and the batch of \<^verbatim>\<open>src/region/multi.go\<close> has its own, and a type
  that embeds another one starts with the methods of the embedded type. The rest of the development
  dispatches on the type of a call directly; both agree.
\<close>

section \<open>Method tables\<close>

text \<open>\<open>None\<close>: the type does not have the method.\<close>

record methods =
  mt_Name :: string
  mt_Description :: string
  mt_ToProto :: "(rpc_error, request_msg) outcome"
  mt_NewResponse :: response
  mt_SkipBatch :: "bool option"
  mt_CellBlocksEnabled :: "bool option"

definition master_call :: "string \<Rightarrow> admin_request \<Rightarrow> admin_response \<Rightarrow> methods" where
  "master_call name request resp =
     \<lparr>mt_Name = name, mt_Description = name, mt_ToProto = Ok (AdminRequest request),
      mt_NewResponse = Response (AdminResponse resp), mt_SkipBatch = None, mt_CellBlocksEnabled = None\<rparr>"

section \<open>Calls to the master\<close>

definition CreateTable_methods :: "base \<Rightarrow> create_table \<Rightarrow> methods" where
  "CreateTable_methods b ct = master_call ''CreateTable'' (CreateTable_ToProto (b_table b) ct) (CreateTableResponse None)"

definition CreateNamespace_methods :: "bytes \<Rightarrow> methods" where
  "CreateNamespace_methods name = master_call ''CreateNamespace'' (CreateNamespaceRequest name) CreateNamespaceResponse"

definition DeleteTable_methods :: "base \<Rightarrow> methods" where
  "DeleteTable_methods b = master_call ''DeleteTable''
     (DeleteTableRequest \<lparr>Namespace = str ''default'', TableQualifier = b_table b\<rparr>) (DeleteTableResponse None)"

definition DisableTable_methods :: "base \<Rightarrow> methods" where
  "DisableTable_methods b = master_call ''DisableTable''
     (DisableTableRequest \<lparr>Namespace = str ''default'', TableQualifier = b_table b\<rparr>) (DisableTableResponse None)"

definition EnableTable_methods :: "base \<Rightarrow> methods" where
  "EnableTable_methods b = master_call ''EnableTable''
     (EnableTableRequest \<lparr>Namespace = str ''default'', TableQualifier = b_table b\<rparr>) (EnableTableResponse None)"

definition ListTableNames_methods :: "list_table_names \<Rightarrow> methods" where
  "ListTableNames_methods tn = master_call ''GetTableNames''
     (GetTableNamesRequest (lt_regex tn) (lt_includeSysTables tn) (lt_namespace tn)) (GetTableNamesResponse [])"

definition MoveRegion_methods :: "move_region_request \<Rightarrow> methods" where
  "MoveRegion_methods req = master_call ''MoveRegion'' (MoveRegionRequest req) MoveRegionResponse"

definition ClusterStatus_methods :: methods where
  "ClusterStatus_methods = master_call ''GetClusterStatus'' GetClusterStatusRequest (GetClusterStatusResponse None)"

definition GetProcedureState_methods :: "u64 \<Rightarrow> methods" where
  "GetProcedureState_methods procID =
     master_call ''getProcedureResult'' (GetProcedureResultRequest procID) (GetProcedureResultResponse None None)"

definition SetBalancer_methods :: "bool \<Rightarrow> methods" where
  "SetBalancer_methods enabled =
     master_call ''SetBalancerRunning'' (SetBalancerRunningRequest enabled) (SetBalancerRunningResponse None)"

text \<open>
  The calls about a snapshot embed \<^verbatim>\<open>*Snapshot\<close> and have a name and a response of their own. The
  promoted \<^verbatim>\<open>Description\<close> still calls \<^verbatim>\<open>Name\<close> of the snapshot: Go has no virtual methods.
\<close>

definition Snapshot_methods :: "snap \<Rightarrow> methods" where
  "Snapshot_methods s = master_call ''Snapshot'' (SnapshotRequest (snap_ToProto s)) SnapshotResponse"

definition SnapshotDone_methods :: "snap \<Rightarrow> methods" where
  "SnapshotDone_methods s = (Snapshot_methods s)\<lparr>mt_Name := ''IsSnapshotDone'',
     mt_NewResponse := Response (AdminResponse (IsSnapshotDoneResponse None))\<rparr>"

definition DeleteSnapshot_methods :: "snap \<Rightarrow> methods" where
  "DeleteSnapshot_methods s = (Snapshot_methods s)\<lparr>mt_Name := ''DeleteSnapshot'',
     mt_NewResponse := Response (AdminResponse DeleteSnapshotResponse)\<rparr>"

definition ListSnapshots_methods :: methods where
  "ListSnapshots_methods =
     master_call ''GetCompletedSnapshots'' GetCompletedSnapshotsRequest (GetCompletedSnapshotsResponse [])"

definition RestoreSnapshot_methods :: "snap \<Rightarrow> methods" where
  "RestoreSnapshot_methods s = (Snapshot_methods s)\<lparr>mt_Name := ''RestoreSnapshot'',
     mt_NewResponse := Response (AdminResponse RestoreSnapshotResponse)\<rparr>"

definition RestoreSnapshotDone_methods :: "snap \<Rightarrow> methods" where
  "RestoreSnapshotDone_methods s = (Snapshot_methods s)\<lparr>mt_Name := ''IsRestoreSnapshotDone'',
     mt_NewResponse := Response (AdminResponse (IsRestoreSnapshotDoneResponse None))\<rparr>"

fun admin_methods :: "base \<Rightarrow> admin_call \<Rightarrow> methods" where
  "admin_methods b (CreateTable ct) = CreateTable_methods b ct"
| "admin_methods b (CreateNamespace name) = CreateNamespace_methods name"
| "admin_methods b DeleteTable = DeleteTable_methods b"
| "admin_methods b DisableTable = DisableTable_methods b"
| "admin_methods b EnableTable = EnableTable_methods b"
| "admin_methods b (ListTableNames tn) = ListTableNames_methods tn"
| "admin_methods b (MoveRegion req) = MoveRegion_methods req"
| "admin_methods b (Snapshot s) = Snapshot_methods s"
| "admin_methods b (SnapshotDone s) = SnapshotDone_methods s"
| "admin_methods b (DeleteSnapshot s) = DeleteSnapshot_methods s"
| "admin_methods b ListSnapshots = ListSnapshots_methods"
| "admin_methods b (RestoreSnapshot s) = RestoreSnapshot_methods s"
| "admin_methods b (RestoreSnapshotDone s) = RestoreSnapshotDone_methods s"
| "admin_methods b ClusterStatus = ClusterStatus_methods"
| "admin_methods b (GetProcedureState procID) = GetProcedureState_methods procID"
| "admin_methods b (SetBalancer enabled) = SetBalancer_methods enabled"

section \<open>Calls to a region\<close>

definition Get_methods :: "get \<Rightarrow> methods" where
  "Get_methods g =
     \<lparr>mt_Name = ''Get'', mt_Description = ''Get'', mt_ToProto = and_then (Get_ToProto g) (\<lambda>req. Ok (GetRequest req)),
      mt_NewResponse = Response (GetResponse \<lparr>gresp_result = None\<rparr>), mt_SkipBatch = Some (g_skipbatch g),
      mt_CellBlocksEnabled = None\<rparr>"

definition Scan_methods :: "scan \<Rightarrow> methods" where
  "Scan_methods s =
     \<lparr>mt_Name = ''Scan'', mt_Description = ''Scan'', mt_ToProto = and_then (Scan_ToProto s) (\<lambda>req. Ok (ScanRequest req)),
      mt_NewResponse = Response (ScanResponse \<lparr>CellsPerResult = [], ScannerId = None, MoreResults = None, Results = [],
        PartialFlagPerResult = [], MoreResultsInRegion = None\<rparr>),
      mt_SkipBatch = None, mt_CellBlocksEnabled = None\<rparr>"

definition Mutate_Description :: "mutation_type \<Rightarrow> string" where
  "Mutate_Description t =
     (case t of APPEND \<Rightarrow> ''APPEND'' | INCREMENT \<Rightarrow> ''INCREMENT'' | PUT \<Rightarrow> ''PUT'' | DELETE \<Rightarrow> ''DELETE'')"

definition Mutate_methods :: "mutate \<Rightarrow> methods" where
  "Mutate_methods m =
     \<lparr>mt_Name = ''Mutate'', mt_Description = Mutate_Description (mutationType m),
      mt_ToProto = and_then (Mutate_ToProto m) (\<lambda>req. Ok (MutateRequest req)),
      mt_NewResponse = Response (MutateResponse \<lparr>mresp_result = None, mresp_processed = None\<rparr>),
      mt_SkipBatch = Some (m_skipbatch m), mt_CellBlocksEnabled = Some True\<rparr>"

text \<open>\<^verbatim>\<open>CheckAndPut\<close> embeds the \<^verbatim>\<open>*Mutate\<close> of its put.\<close>

definition CheckAndPut_methods :: "checkandput \<Rightarrow> methods" where
  "CheckAndPut_methods cp = (Mutate_methods (cp_put cp))\<lparr>
     mt_ToProto := and_then (CheckAndPut_ToProto cp) (\<lambda>req. Ok (MutateRequest req)), mt_CellBlocksEnabled := Some False\<rparr>"

definition multi_methods :: "(region_map \<Rightarrow> region_map) \<Rightarrow> (nat \<Rightarrow> bool) \<Rightarrow> multi \<Rightarrow> methods" where
  "multi_methods order expired m =
     \<lparr>mt_Name = ''Multi'', mt_Description = ''Multi'',
      mt_ToProto = and_then (multi_ToProto order expired m) (\<lambda>(_, ras). Ok (MultiRequest ras)),
      mt_NewResponse = MultiResponse [], mt_SkipBatch = None, mt_CellBlocksEnabled = Some True\<rparr>"

text \<open>Methods of the interface that a batch does not support, and those it has besides.\<close>

definition multi_unsupported :: "string \<Rightarrow> ('e, 'a) outcome" where
  "multi_unsupported name = Panic (Explicit (name @ '' is not supported for Multi''))"

definition callCount :: "multi \<Rightarrow> nat" where
  "callCount m = length (mu_calls m)"

fun call_methods :: "call \<Rightarrow> methods" where
  "call_methods (Get g) = Get_methods g"
| "call_methods (Scan s) = Scan_methods s"
| "call_methods (Mutate m) = Mutate_methods m"
| "call_methods (CheckAndPut cp) = CheckAndPut_methods cp"
| "call_methods (Admin b a) = admin_methods b a"

fun rpc_methods :: "(region_map \<Rightarrow> region_map) \<Rightarrow> (nat \<Rightarrow> bool) \<Rightarrow> rpc \<Rightarrow> methods" where
  "rpc_methods order expired (Single c) = call_methods c"
| "rpc_methods order expired (Batch n m) = multi_methods order expired m"

section \<open>Dispatch\<close>

lemmas methods_defs = master_call_def CreateTable_methods_def CreateNamespace_methods_def DeleteTable_methods_def
  DisableTable_methods_def EnableTable_methods_def ListTableNames_methods_def MoveRegion_methods_def ClusterStatus_methods_def
  GetProcedureState_methods_def SetBalancer_methods_def Snapshot_methods_def SnapshotDone_methods_def DeleteSnapshot_methods_def
  ListSnapshots_methods_def RestoreSnapshot_methods_def RestoreSnapshotDone_methods_def Get_methods_def Scan_methods_def
  Mutate_methods_def CheckAndPut_methods_def multi_methods_def default_table_def

lemma and_then_assoc: "and_then (and_then m f) g = and_then m (\<lambda>x. and_then (f x) g)"
  by (cases m) auto

lemma admin_dispatch:
  "mt_Name (admin_methods b a) = admin_name a" "mt_ToProto (admin_methods b a) = Ok (AdminRequest (admin_ToProto b a))"
  "mt_NewResponse (admin_methods b a) = Response (AdminResponse (admin_NewResponse a))"
  "mt_SkipBatch (admin_methods b a) = None" "mt_CellBlocksEnabled (admin_methods b a) = None"
  by (cases a; simp add: methods_defs)+

lemma call_dispatch:
  "mt_Name (call_methods c) = call_name c" "mt_NewResponse (call_methods c) = Response (NewResponse c)"
  "mt_SkipBatch (call_methods c) = SkipBatch_of c"
  by (cases c; simp add: methods_defs admin_dispatch)+

text \<open>
  \<^verbatim>\<open>send\<close> sends what the methods of the call say: its name, and the cell blocks of a call that
  has them enabled, which are mutations and batches only, or else the message of its \<^verbatim>\<open>ToProto\<close>. The calls
  that embed a snapshot are described as \<^verbatim>\<open>Snapshot\<close>, whatever their name is.
\<close>

theorem methods_dispatch:
  "mt_Name (rpc_methods order expired rpc) = rpc_name rpc \<and>
   (mt_CellBlocksEnabled (rpc_methods order expired rpc) = Some True \<longleftrightarrow> (\<exists>m. rpc = Single (Mutate m)) \<or> (\<exists>n m. rpc = Batch n m)) \<and>
   (mt_CellBlocksEnabled (rpc_methods order expired rpc) \<noteq> Some True \<longrightarrow>
     serialize_rpc order expired rpc = and_then (mt_ToProto (rpc_methods order expired rpc)) (\<lambda>request. Ok (rpc, request, None))) \<and>
   (\<forall>rpc' request cells. mt_CellBlocksEnabled (rpc_methods order expired rpc) = Some True \<and>
     serialize_rpc order expired rpc = Ok (rpc', request, cells) \<longrightarrow> cells \<noteq> None) \<and>
   (\<forall>a \<in> {SnapshotDone s, DeleteSnapshot s, RestoreSnapshot s, RestoreSnapshotDone s}.
     mt_Description (admin_methods b a) = ''Snapshot'' \<and> mt_Name (admin_methods b a) \<noteq> ''Snapshot'')"
proof (cases rpc)
  case (Single c)
  then show ?thesis by (cases c) (auto simp: and_then_assoc methods_defs call_dispatch admin_dispatch split_def elim!: ok_elims)
next
  case (Batch n m)
  then show ?thesis by (auto simp: methods_defs elim!: ok_elims)
qed

theorem methods_dispatch_witness:
  "serialize_rpc id (\<lambda>_. False) (Single sample_status) = Ok (Single sample_status, AdminRequest GetClusterStatusRequest, None) \<and>
   mt_Description (admin_methods (admin_base 0 0 []) (DeleteSnapshot \<lparr>snap_name = [], snap_table = [], snapshotType = None, snap_version = 0, snap_owner = []\<rparr>)) = ''Snapshot''"
  using methods_dispatch [of id "\<lambda>_. False" "Single sample_status" "\<lparr>snap_name = [], snap_table = [], snapshotType = None, snap_version = 0, snap_owner = []\<rparr>" "admin_base 0 0 []"]
  by (simp add: sample_status_def NewClusterStatus_def methods_defs)

end
