(* ===== verification/Batching.thy ===== *)
theory Batching
  imports Region_Client
begin

text \<open>
  The batching goroutine of a region client (\<^verbatim>\<open>processRPCs\<close> of \<^verbatim>\<open>src/region/client.go\<close>).
  The goroutine blocks in one of three \<^verbatim>\<open>select\<close> statements, which are the phases; an event
  is the case a \<^verbatim>\<open>select\<close> takes, and a step runs the code up to the next \<^verbatim>\<open>select\<close>.
\<close>

datatype batch_phase =
    Collecting \<comment> \<open>the first loop, which never waits\<close>
  | Waiting    \<comment> \<open>an empty batch waits for the first calls\<close>
  | Lingering  \<comment> \<open>the second loop, with the timer running\<close>
  | Stopped

datatype batch_event = DoneClosed | GotRpcs "call list" | NothingQueued | TimerFired

record batcher =
  bt_phase :: batch_phase
  bt_multi :: multi
  bt_next :: nat
  bt_client :: client

text \<open>
  The effect of sending on the connection: the protobuf runtime, the order in which Go
  visits a map, the expired contexts and whether the write and the deadline call succeed.
\<close>

record send_env =
  se_proto :: proto_ops
  se_order :: "region_map \<Rightarrow> region_map"
  se_expired :: "nat \<Rightarrow> bool"
  se_write_ok :: bool
  se_up_ok :: bool

definition start_processRPCs :: "client \<Rightarrow> batcher" where
  "start_processRPCs c =
     \<lparr>bt_phase = Collecting, bt_multi = newMulti (rc_rpcQueueSize c), bt_next = 0, bt_client = c\<rparr>"

definition flush :: "send_env \<Rightarrow> batcher \<Rightarrow> (rpc_error, batcher) outcome" where
  "flush env s =
     and_then (trySend (se_proto env) (se_order env) (se_expired env) (se_write_ok env) (se_up_ok env)
         (Batch (bt_next s) (bt_multi s)) (bt_client s)) (\<lambda>(m, res, c).
       Ok \<lparr>bt_phase = Collecting, bt_multi = newMulti (rc_rpcQueueSize c), bt_next = bt_next s + 1,
           bt_client = (case res of None \<Rightarrow> c | Some err \<Rightarrow> returnResult m (Inl err) c)\<rparr>)"

text \<open>The deferred call when the goroutine returns.\<close>

definition stop_batching :: "batcher \<Rightarrow> batcher" where
  "stop_batching s =
     s\<lparr>bt_phase := Stopped,
       bt_client := returnResult (Batch (bt_next s) (bt_multi s)) (Inl ErrClientClosed) (bt_client s)\<rparr>"

definition batch_add :: "call list \<Rightarrow> batcher \<Rightarrow> batcher \<times> bool" where
  "batch_add rpcs s = (let (m, full) = multi_add (bt_multi s) rpcs in (s\<lparr>bt_multi := m\<rparr>, full))"

definition after_first_loop :: "send_env \<Rightarrow> batcher \<Rightarrow> (rpc_error, batcher) outcome" where
  "after_first_loop env s =
     (let l = multi_len (bt_multi s) in
      if l = 0 then Ok (s\<lparr>bt_phase := Waiting\<rparr>)
      else if l \<ge> rc_rpcQueueSize (bt_client s) \<or> rc_flushInterval (bt_client s) = 0 then flush env s
      else Ok (s\<lparr>bt_phase := Lingering\<rparr>))"

text \<open>\<open>None\<close>: the \<^verbatim>\<open>select\<close> has no such case.\<close>

fun processRPCs_step ::
  "send_env \<Rightarrow> batch_event \<Rightarrow> batcher \<Rightarrow> (rpc_error, batcher) outcome option" where
  "processRPCs_step env ev s =
     (case (bt_phase s, ev) of
        (Stopped, _) \<Rightarrow> None
      | (_, DoneClosed) \<Rightarrow> Some (Ok (stop_batching s))
      | (Collecting, GotRpcs rpcs) \<Rightarrow>
          (case batch_add rpcs s of (s', full) \<Rightarrow>
             Some (if \<not> full then Ok s' else after_first_loop env s'))
      | (Collecting, NothingQueued) \<Rightarrow> Some (after_first_loop env s)
      | (Waiting, GotRpcs rpcs) \<Rightarrow> Some (Ok ((fst (batch_add rpcs s))\<lparr>bt_phase := Collecting\<rparr>))
      | (Lingering, TimerFired) \<Rightarrow> Some (flush env s)
      | (Lingering, GotRpcs rpcs) \<Rightarrow>
          (case batch_add rpcs s of (s', full) \<Rightarrow> Some (if \<not> full then Ok s' else flush env s'))
      | _ \<Rightarrow> None)"

text \<open>
  A run of the goroutine. \<open>taken\<close> are the calls it took off the queue. \<open>log\<close> is what its steps did
  to the client, read off the client: the batches that are in the table of sent calls or were
  answered after the step and were not before. Between two steps the other goroutines of the
  client may do anything to it but change its configuration. The ID that the client gives out
  next is not in use, as when fewer than \<open>2 ^ 32\<close> calls wait; \<open>gone\<close> are the contexts that expire.
\<close>

fun event_calls :: "batch_event \<Rightarrow> call list" where
  "event_calls (GotRpcs rpcs) = rpcs"
| "event_calls _ = []"

definition pending_calls :: "batcher \<Rightarrow> call option list" where
  "pending_calls s = (if bt_phase s = Stopped then [] else mu_calls (bt_multi s))"

definition handed_over :: "batcher \<Rightarrow> batcher \<Rightarrow> rpc multiset list" where
  "handed_over s s' =
     (let new = in_hand (bt_client s') - in_hand (bt_client s) in if new = {#} then [] else [new])"

inductive batch_run ::
  "(nat \<Rightarrow> bool) \<Rightarrow> batcher \<Rightarrow> call list \<Rightarrow> rpc multiset list \<Rightarrow> batcher \<Rightarrow> bool"
  for gone :: "nat \<Rightarrow> bool" and s0 :: batcher where
  start: "batch_run gone s0 [] [] s0"
| step: "batch_run gone s0 taken log s \<Longrightarrow> ids_ok (bt_client s) \<Longrightarrow> fresh_id (bt_client s) \<Longrightarrow>
    (\<And>ctx. se_expired env ctx \<Longrightarrow> gone ctx) \<Longrightarrow> processRPCs_step env ev s = Some (Ok s') \<Longrightarrow>
    batch_run gone s0 (taken @ event_calls ev) (log @ handed_over s s') s'"
| interference: "batch_run gone s0 taken log s \<Longrightarrow> rc_rpcQueueSize c = rc_rpcQueueSize (bt_client s) \<Longrightarrow>
    rc_flushInterval c = rc_flushInterval (bt_client s) \<Longrightarrow> batch_run gone s0 taken log (s\<lparr>bt_client := c\<rparr>)"

section \<open>What a flush hands over\<close>

lemma newMulti_calls [simp]: "mu_calls (newMulti n) = []"
  by (simp add: newMulti_def)

lemma batch_add_simps [simp]:
  "mu_calls (bt_multi (fst (batch_add rpcs s))) = mu_calls (bt_multi s) @ map Some rpcs"
  "bt_next (fst (batch_add rpcs s)) = bt_next s"
  "bt_phase (fst (batch_add rpcs s)) = bt_phase s"
  "bt_client (fst (batch_add rpcs s)) = bt_client s"
  "mu_size (bt_multi (fst (batch_add rpcs s))) = mu_size (bt_multi s)"
  "snd (batch_add rpcs s) = (length (mu_calls (bt_multi s)) + length rpcs \<ge> mu_size (bt_multi s))"
  by (simp_all add: batch_add_def multi_add_def Let_def split_beta)

text \<open>Serialising a batch drops the calls whose context has expired, and no other.\<close>

definition without_expired :: "(nat \<Rightarrow> bool) \<Rightarrow> call option list \<Rightarrow> call option list" where
  "without_expired expired cs = map (\<lambda>c. if expired (b_ctx (call_base (the c))) then None else c) cs"

lemma serialize_Batch:
  assumes "serialize_rpc order expired (Batch n m) = Ok (r, request, cells)"
  obtains m' where "r = Batch n m'" "mu_calls m' = without_expired expired (mu_calls m)"
proof -
  obtain m' calls perReg sz where r: "r = Batch n m'" "mu_calls m' = calls"
    and c: "(collect_actions expired True 0 (mu_calls m) [] 0 :: (rpc_error, _) outcome) = Ok (calls, perReg, sz)"
    using assms by (auto simp: multi_SerializeCellBlocks_def multi_toProto_def Let_def split: if_splits)
  have "holds_items [] []" by (simp add: holds_items_def)
  from collect_actions_items [OF this c] r show thesis using that by (auto simp: without_expired_def)
qed

lemma flush_hands_over:
  assumes "flush env s = Ok s'" "ids_ok (bt_client s)" "fresh_id (bt_client s)"
  obtains m where "in_hand (bt_client s') = add_mset (Batch (bt_next s) m) (in_hand (bt_client s))"
    "mu_calls m = without_expired (se_expired env) (mu_calls (bt_multi s))"
    "bt_phase s' = Collecting" "mu_calls (bt_multi s') = []" "bt_next s' = bt_next s + 1"
proof -
  obtain r res c where t: "trySend (se_proto env) (se_order env) (se_expired env) (se_write_ok env) (se_up_ok env)
      (Batch (bt_next s) (bt_multi s)) (bt_client s) = Ok (r, res, c)"
    and s': "bt_client s' = (case res of None \<Rightarrow> c | Some err \<Rightarrow> returnResult r (Inl err) c)"
      "bt_phase s' = Collecting" "mu_calls (bt_multi s') = []" "bt_next s' = bt_next s + 1"
    using assms(1) by (auto simp: flush_def)
  obtain i res0 c1 where "send (se_proto env) (se_order env) (se_expired env) (se_write_ok env) (se_up_ok env)
      (Batch (bt_next s) (bt_multi s)) (bt_client s) = Ok (i, r, res0, c1)"
    using t by (auto simp: trySend_def split_beta)
  then obtain request cells where "serialize_rpc (se_order env) (se_expired env) (Batch (bt_next s) (bt_multi s)) = Ok (r, request, cells)"
    by (rule send_OkE)
  then obtain m where m: "r = Batch (bt_next s) m" "mu_calls m = without_expired (se_expired env) (mu_calls (bt_multi s))"
    by (rule serialize_Batch)
  have "in_hand (bt_client s') = add_mset r (in_hand (bt_client s))"
    using trySend_accounts [OF t assms(2,3)] s'(1) by (auto split: option.splits)
  with m s' show thesis using that by blast
qed

section \<open>What a step does\<close>

lemma after_first_loop_Ok:
  assumes "after_first_loop env s = Ok s'"
  shows "(bt_next s' = bt_next s \<and> bt_multi s' = bt_multi s \<and> bt_client s' = bt_client s \<and> bt_phase s' \<noteq> Stopped \<and>
            (bt_phase s' = Waiting \<longleftrightarrow> mu_calls (bt_multi s) = [])) \<or>
    (mu_calls (bt_multi s) \<noteq> [] \<and> flush env s = Ok s')"
  using assms by (auto simp: after_first_loop_def Let_def multi_len_def split: if_splits)

text \<open>A step ends the goroutine, keeps the batch with the calls it took, or flushes it.\<close>

lemma processRPCs_step_cases:
  assumes "processRPCs_step env ev s = Some (Ok s')"
  obtains (stopped) "ev = DoneClosed" "s' = stop_batching s" "bt_phase s \<noteq> Stopped"
  | (kept) "ev \<noteq> DoneClosed" "bt_next s' = bt_next s" "bt_phase s \<noteq> Stopped" "bt_phase s' \<noteq> Stopped"
      "bt_client s' = bt_client s" "mu_calls (bt_multi s') = mu_calls (bt_multi s) @ map Some (event_calls ev)"
      "bt_phase s' = Lingering \<Longrightarrow> bt_phase s = Lingering \<or> mu_calls (bt_multi s') \<noteq> []"
  | (flushed) s1 where "ev \<noteq> DoneClosed" "bt_phase s \<noteq> Stopped" "flush env s1 = Ok s'"
      "bt_next s1 = bt_next s" "bt_client s1 = bt_client s"
      "mu_calls (bt_multi s1) = mu_calls (bt_multi s) @ map Some (event_calls ev)"
      "bt_phase s = Lingering \<or> mu_calls (bt_multi s1) \<noteq> []"
proof -
  have loop: thesis if "after_first_loop env s1 = Ok s'" "ev \<noteq> DoneClosed" "bt_phase s = Collecting"
    "bt_next s1 = bt_next s" "bt_client s1 = bt_client s"
    "mu_calls (bt_multi s1) = mu_calls (bt_multi s) @ map Some (event_calls ev)" for s1
    using after_first_loop_Ok [OF that(1)] that(2-) kept flushed [of s1]
    by (cases "mu_calls (bt_multi s1) = []") auto
  have full: thesis if "flush env s1 = Ok s'" "ev \<noteq> DoneClosed" "bt_phase s = Lingering" "bt_next s1 = bt_next s"
    "bt_client s1 = bt_client s" "mu_calls (bt_multi s1) = mu_calls (bt_multi s) @ map Some (event_calls ev)" for s1
    using that flushed [of s1] by simp
  show thesis
  proof (cases "ev = DoneClosed")
    case True
    then show ?thesis using assms stopped by (auto split: batch_phase.splits)
  next
    case False
    show ?thesis
    proof (cases "bt_phase s")
      case Collecting
      then show ?thesis using assms False loop [of s] loop [of "fst (batch_add (event_calls ev) s)"] kept
        by (auto simp: split_beta split: batch_event.splits if_splits)
    next
      case Waiting
      then show ?thesis using assms False kept by (auto split: batch_event.splits)
    next
      case Lingering
      then show ?thesis using assms False full [of s] full [of "fst (batch_add (event_calls ev) s)"] kept
        by (auto simp: split_beta split: batch_event.splits if_splits)
    next
      case Stopped
      then show ?thesis using assms by simp
    qed
  qed
qed

section \<open>Every call taken off the queue ends up in one batch\<close>

text \<open>The place of a call in a batch holds the call, or nothing if its context expired.\<close>

definition carries :: "(nat \<Rightarrow> bool) \<Rightarrow> call \<Rightarrow> call option \<Rightarrow> bool" where
  "carries gone c x \<longleftrightarrow> x = Some c \<or> x = None \<and> gone (b_ctx (call_base c))"

definition numbered :: "multi list \<Rightarrow> rpc multiset list" where
  "numbered ms = map (\<lambda>(i, m). {#Batch i m#}) (enumerate 0 ms)"

lemma numbered_snoc: "numbered (ms @ [m]) = numbered ms @ [{#Batch (length ms) m#}]"
  by (simp add: numbered_def enumerate_append_eq)

definition batch_log_ok :: "(nat \<Rightarrow> bool) \<Rightarrow> call list \<Rightarrow> multi list \<Rightarrow> batcher \<Rightarrow> bool" where
  "batch_log_ok gone taken ms s \<longleftrightarrow>
     list_all2 (carries gone) taken (concat (map mu_calls ms) @ pending_calls s) \<and>
     None \<notin> set (mu_calls (bt_multi s)) \<and>
     (if bt_phase s = Stopped then ms \<noteq> [] \<and> [] \<notin> set (map mu_calls (butlast ms))
      else bt_next s = length ms \<and> [] \<notin> set (map mu_calls ms)) \<and>
     (bt_phase s = Lingering \<longrightarrow> mu_calls (bt_multi s) \<noteq> [])"

lemma carries_Some: "list_all2 (carries gone) cs (map Some cs)"
  by (simp add: list_all2_map2 carries_def list_all2_same)

lemma carries_without_expired:
  assumes "list_all2 (carries gone) cs xs" "None \<notin> set xs" "\<And>ctx. expired ctx \<Longrightarrow> gone ctx"
  shows "list_all2 (carries gone) cs (without_expired expired xs)"
  using assms(1,2)
proof (induction rule: list_all2_induct)
  case (Cons c cs x xs)
  then show ?case using assms(3) by (cases x) (auto simp: without_expired_def carries_def)
qed (simp add: without_expired_def)

lemma batch_log_step:
  assumes "batch_log_ok gone taken ms s" "processRPCs_step env ev s = Some (Ok s')"
    and "ids_ok (bt_client s)" "fresh_id (bt_client s)" "\<And>ctx. se_expired env ctx \<Longrightarrow> gone ctx"
  shows "\<exists>ms'. numbered ms' = numbered ms @ handed_over s s' \<and> batch_log_ok gone (taken @ event_calls ev) ms' s'"
  using assms(2)
proof (cases rule: processRPCs_step_cases)
  case stopped
  then have "handed_over s s' = [{#Batch (length ms) (bt_multi s)#}]" using assms(1)
    by (simp add: handed_over_def stop_batching_def batch_log_ok_def)
  then show ?thesis using assms(1) stopped
    by (intro exI [of _ "ms @ [bt_multi s]"])
      (simp add: numbered_snoc batch_log_ok_def stop_batching_def pending_calls_def)
next
  case kept
  then have "handed_over s s' = []" by (simp add: handed_over_def)
  then show ?thesis using assms(1) kept carries_Some [of gone "event_calls ev"]
    by (intro exI [of _ ms]) (auto simp: batch_log_ok_def pending_calls_def list_all2_appendI simp flip: append_assoc)
next
  case (flushed s1)
  have "ids_ok (bt_client s1)" "fresh_id (bt_client s1)" using assms(3,4) flushed(5) by simp_all
  with flushed(3) obtain m where m: "in_hand (bt_client s') = add_mset (Batch (bt_next s1) m) (in_hand (bt_client s1))"
    "mu_calls m = without_expired (se_expired env) (mu_calls (bt_multi s1))"
    "bt_phase s' = Collecting" "mu_calls (bt_multi s') = []" "bt_next s' = bt_next s1 + 1"
    by (rule flush_hands_over)
  have inv: "list_all2 (carries gone) taken (concat (map mu_calls ms) @ mu_calls (bt_multi s))"
    "None \<notin> set (mu_calls (bt_multi s1))" "bt_next s = length ms" "[] \<notin> set (map mu_calls ms)"
    using assms(1) flushed(2,6) by (auto simp: batch_log_ok_def pending_calls_def)
  have "handed_over s s' = [{#Batch (length ms) m#}]" using m(1) flushed(4,5) inv(3) by (simp add: handed_over_def)
  moreover obtain t1 t2 where t: "taken = t1 @ t2" "list_all2 (carries gone) t1 (concat (map mu_calls ms))"
      "list_all2 (carries gone) t2 (mu_calls (bt_multi s))"
    using inv(1) by (auto simp: list_all2_append2)
  moreover have "list_all2 (carries gone) (t2 @ event_calls ev) (mu_calls m)"
    unfolding m(2) using t(3) carries_Some flushed(6) inv(2)
    by (intro carries_without_expired assms(5)) (simp_all add: list_all2_appendI)
  moreover have "mu_calls m \<noteq> []"
    using flushed(6,7) m(2) assms(1) by (auto simp: without_expired_def batch_log_ok_def)
  ultimately show ?thesis using m(3-5) flushed(4) inv(3,4)
    by (intro exI [of _ "ms @ [m]"]) (auto simp: numbered_snoc batch_log_ok_def pending_calls_def intro: list_all2_appendI)
qed

lemma batch_run_log:
  assumes "batch_run gone (start_processRPCs c) taken log s"
  shows "\<exists>ms. log = numbered ms \<and> batch_log_ok gone taken ms s"
  using assms
proof induction
  case start
  then show ?case
    by (intro exI [of _ "[]"]) (simp add: numbered_def batch_log_ok_def start_processRPCs_def pending_calls_def)
next
  case (step taken log s env ev s')
  then show ?case using batch_log_step [of gone taken _ s env ev s'] by metis
next
  case (interference taken log s c)
  then show ?case by (auto simp: batch_log_ok_def pending_calls_def split: if_splits)
qed

text \<open>
  C15. The batching goroutine neither loses, duplicates nor reorders calls, however the cases
  of its \<^verbatim>\<open>select\<close> statements and the other goroutines interleave. What its steps put into the
  table of sent calls or answer are batches, one at a time and numbered in sequence, and at any
  moment the calls it took off the queue are, in order, those of these batches followed by
  those of the batch being filled, except that a call whose context expired has left its place
  empty. No empty batch is sent; only the last batch, which is answered with an error when the
  client is closed, may be empty.
\<close>

theorem batching_conserves:
  assumes "batch_run gone (start_processRPCs c) taken log s"
  shows "\<exists>ms. log = map (\<lambda>(i, m). {#Batch i m#}) (enumerate 0 ms) \<and>
    list_all2 (\<lambda>c x. x = Some c \<or> x = None \<and> gone (b_ctx (call_base c))) taken
      (concat (map mu_calls ms) @ pending_calls s) \<and>
    (if bt_phase s = Stopped then ms \<noteq> [] \<and> [] \<notin> set (map mu_calls (butlast ms))
     else bt_next s = length ms \<and> [] \<notin> set (map mu_calls ms))"
  using batch_run_log [OF assms] unfolding batch_log_ok_def numbered_def carries_def [abs_def] by blast

definition sample_env :: send_env where
  "sample_env = \<lparr>se_proto = sample_proto, se_order = id, se_expired = \<lambda>_. False, se_write_ok = True, se_up_ok = True\<rparr>"

text \<open>A call is taken off the queue; the batch is full and is flushed.\<close>

lemma sample_flush:
  "\<exists>s'. processRPCs_step sample_env (GotRpcs [Get sample_get]) (start_processRPCs sample_client) = Some (Ok s')"
proof -
  obtain req where req: "(Get_ToProto sample_get :: (rpc_error, _) outcome) = Ok req"
    using consistency_field_read [of TimelineConsistency]
    by (auto simp: Get_ToProto_def regionSpecifier_def sample_get_def Let_def valid_consistency_def TimelineConsistency_def)
  then show ?thesis
    by (simp add: sample_env_def start_processRPCs_def sample_client_def NewClient_def batch_add_def multi_add_def newMulti_def
        after_first_loop_def multi_len_def flush_def trySend_def send_def multi_SerializeCellBlocks_def multi_toProto_def
        lookup_actions_def sample_get_def registerRPC_def write_request_def request_frame_def sample_proto_def
        put_uint32_def compress_request_def inFlightUp_def settle_send_def split_beta Let_def)
qed

theorem batching_conserves_witness:
  "\<exists>m s. batch_run (\<lambda>_. False) (start_processRPCs sample_client) [Get sample_get] [{#Batch 0 m#}] s \<and>
    mu_calls m = [Some (Get sample_get)] \<and> bt_phase s = Collecting"
proof -
  let ?s = "start_processRPCs sample_client"
  obtain s' where step: "processRPCs_step sample_env (GotRpcs [Get sample_get]) ?s = Some (Ok s')" using sample_flush by blast
  have ok: "ids_ok (bt_client ?s)" "fresh_id (bt_client ?s)"
    by (simp_all add: ids_ok_def fresh_id_def sample_client_def NewClient_def start_processRPCs_def)
  have "batch_run (\<lambda>_. False) ?s ([] @ event_calls (GotRpcs [Get sample_get])) ([] @ handed_over ?s s') s'"
    by (rule batch_run.step [OF batch_run.start ok _ step]) (simp add: sample_env_def)
  then have run: "batch_run (\<lambda>_. False) ?s [Get sample_get] (handed_over ?s s') s'" by simp
  have s': "bt_phase s' = Collecting" "mu_calls (bt_multi s') = []" "bt_next s' = 1"
    using step
    by (auto simp: start_processRPCs_def sample_client_def NewClient_def batch_add_def multi_add_def newMulti_def
        after_first_loop_def multi_len_def flush_def Let_def)
  obtain ms where ms: "handed_over ?s s' = map (\<lambda>(i, m). {#Batch i m#}) (enumerate 0 ms)" "length ms = 1"
      "concat (map mu_calls ms) = [Some (Get sample_get)]"
    using batching_conserves [OF run] s' by (auto simp: pending_calls_def list_all2_Cons1)
  then obtain m where "ms = [m]" by (auto simp: length_Suc_conv)
  with ms have "handed_over ?s s' = [{#Batch 0 m#}]" "mu_calls m = [Some (Get sample_get)]" by simp_all
  with run s'(1) show ?thesis by auto
qed

end
