(* ===== verification/In_Flight.thy ===== *)
theory In_Flight
  imports Region_Client
begin

text \<open>
  The goroutines of a region client, interleaved (\<^verbatim>\<open>src/region/client.go\<close>). Any number of
  goroutines are inside \<^verbatim>\<open>trySend\<close>, one is inside \<^verbatim>\<open>receive\<close>, and any of them, or a caller of
  \<^verbatim>\<open>Close\<close>, may run \<^verbatim>\<open>fail\<close>. A step is the code between two points at which another
  goroutine can interfere: a critical section, an operation on the connection, or a
  delivery. The state has logs of what happened to the calls, which no code reads.

  Of the connection only the following is used: once it is closed, writing to it and
  setting a deadline fail. The relation has some runs that the code does not: after an error
  of \<^verbatim>\<open>inFlightDown\<close> the receiver may go on reading, where the code fails the client and ends the
  goroutine. What holds in all runs holds in those of the code.
\<close>

datatype sender_phase =
    Registered              \<comment> \<open>\<^verbatim>\<open>registerRPC\<close> returned\<close>
  | Written                 \<comment> \<open>the request is on the wire, \<^verbatim>\<open>inFlightUp\<close> follows\<close>
  | Failing rpc_error       \<comment> \<open>\<^verbatim>\<open>trySend\<close> got a server error and calls \<^verbatim>\<open>fail\<close>\<close>
  | Unregistering rpc_error \<comment> \<open>about to call \<^verbatim>\<open>unregisterRPC\<close>\<close>

datatype receiver_phase =
    Reading
  | Taken rpc   \<comment> \<open>\<^verbatim>\<open>unregisterRPC\<close> returned the call, \<^verbatim>\<open>inFlightDown\<close> follows\<close>
  | Holding rpc \<comment> \<open>about to deliver the response\<close>

record conn_state =
  cs_client :: client
  cs_senders :: "(u32 \<times> rpc \<times> sender_phase) list"
  cs_receiver :: receiver_phase
  cs_failing :: bool              \<comment> \<open>\<^verbatim>\<open>fail\<close> closed the connection but did not yet fail the sent calls\<close>
  cs_registered :: "rpc list"     \<comment> \<open>log of the calls registered\<close>
  cs_expired :: "rpc list"        \<comment> \<open>log of the responses dropped as their caller is gone\<close>
  cs_lost :: "rpc list"           \<comment> \<open>log of the calls dropped without an answer\<close>

definition conn_start :: "client \<Rightarrow> conn_state" where
  "conn_start c = \<lparr>cs_client = c, cs_senders = [], cs_receiver = Reading, cs_failing = False,
     cs_registered = [], cs_expired = [], cs_lost = []\<rparr>"

text \<open>The two halves of \<^verbatim>\<open>fail\<close>, whose callers wait for each other (\<^verbatim>\<open>sync.Once\<close>).\<close>

definition close_conn :: "client \<Rightarrow> client" where
  "close_conn c = c\<lparr>rc_done := True, rc_conn := False\<rparr>"

lemma client_fail_split: "\<not> rc_done c \<Longrightarrow> client_fail err c = failSentRPCs (close_conn c)"
  by (simp add: client_fail_def close_conn_def)

inductive conn_step :: "conn_state \<Rightarrow> conn_state \<Rightarrow> bool" where
  register: "registerRPC rpc (cs_client s) = (i, c) \<Longrightarrow>
    conn_step s (s\<lparr>cs_client := c, cs_senders := (i, rpc, Registered) # cs_senders s,
      cs_registered := cs_registered s @ [rpc]\<rparr>)"
| write_ok: "cs_senders s = xs @ (i, rpc, Registered) # ys \<Longrightarrow> rc_conn (cs_client s) \<Longrightarrow>
    conn_step s (s\<lparr>cs_senders := xs @ (i, rpc, Written) # ys\<rparr>)"
| send_error: "cs_senders s = xs @ (i, rpc, Registered) # ys \<Longrightarrow>
    conn_step s (s\<lparr>cs_senders := xs @ (i, rpc, if is_server_error err then Failing err else Unregistering err) # ys\<rparr>)"
| up_ok: "cs_senders s = xs @ (i, rpc, Written) # ys \<Longrightarrow> rc_conn (cs_client s) \<Longrightarrow>
    inFlightUp True (cs_client s) = (True, c) \<Longrightarrow>
    conn_step s (s\<lparr>cs_client := c, cs_senders := xs @ ys\<rparr>)"
| up_error: "cs_senders s = xs @ (i, rpc, Written) # ys \<Longrightarrow> inFlightUp False (cs_client s) = (False, c) \<Longrightarrow>
    conn_step s (s\<lparr>cs_client := c, cs_senders := xs @ (i, rpc, Failing (ServerError e)) # ys\<rparr>)"
| failed: "cs_senders s = xs @ (i, rpc, Failing err) # ys \<Longrightarrow> rc_done (cs_client s) \<Longrightarrow> \<not> cs_failing s \<Longrightarrow>
    conn_step s (s\<lparr>cs_senders := xs @ (i, rpc, Unregistering err) # ys\<rparr>)"
| unregister: "cs_senders s = xs @ (i, rpc, Unregistering err) # ys \<Longrightarrow>
    unregisterRPC i (cs_client s) = (r, c) \<Longrightarrow>
    conn_step s (s\<lparr>cs_client := (if r \<noteq> None then returnResult rpc (Inl err) c else c), cs_senders := xs @ ys\<rparr>)"
| take_response: "cs_receiver s = Reading \<Longrightarrow> unregisterRPC i (cs_client s) = (Some rpc, c) \<Longrightarrow>
    conn_step s (s\<lparr>cs_client := c, cs_receiver := Taken rpc\<rparr>)"
| down_ok: "cs_receiver s = Taken rpc \<Longrightarrow> rc_conn (cs_client s) \<or> rc_inFlight (cs_client s) \<noteq> 1 \<Longrightarrow>
    inFlightDown True (cs_client s) = (True, c) \<Longrightarrow>
    conn_step s (s\<lparr>cs_client := c, cs_receiver := Holding rpc\<rparr>)"
| down_error: "cs_receiver s = Taken rpc \<Longrightarrow> inFlightDown False (cs_client s) = (False, c) \<Longrightarrow>
    conn_step s (s\<lparr>cs_client := c, cs_receiver := Reading, cs_lost := cs_lost s @ [rpc]\<rparr>)"
| deliver: "cs_receiver s = Holding rpc \<Longrightarrow>
    conn_step s (s\<lparr>cs_client := returnResult rpc ans (cs_client s), cs_receiver := Reading\<rparr>)"
| caller_gone: "cs_receiver s = Holding rpc \<Longrightarrow>
    conn_step s (s\<lparr>cs_receiver := Reading, cs_expired := cs_expired s @ [rpc]\<rparr>)"
| fail_begin: "\<not> rc_done (cs_client s) \<Longrightarrow>
    conn_step s (s\<lparr>cs_client := close_conn (cs_client s), cs_failing := True\<rparr>)"
| fail_end: "cs_failing s \<Longrightarrow>
    conn_step s (s\<lparr>cs_client := failSentRPCs (cs_client s), cs_failing := False\<rparr>)"

inductive conn_reach :: "client \<Rightarrow> conn_state \<Rightarrow> bool" for c0 :: client where
  init: "conn_reach c0 (conn_start c0)"
| step: "conn_reach c0 s \<Longrightarrow> conn_step s s' \<Longrightarrow> conn_reach c0 s'"

section \<open>The invariant\<close>

definition held :: "receiver_phase \<Rightarrow> rpc multiset" where
  "held p = (case p of Reading \<Rightarrow> {#} | Taken r \<Rightarrow> {#r#} | Holding r \<Rightarrow> {#r#})"

definition id_of :: "nat \<Rightarrow> u32" where
  "id_of n = word_of_nat n"

definition id_range :: "nat \<Rightarrow> u32 set" where
  "id_range n = id_of ` {1..n}"

text \<open>
  A sender knows the call its ID is registered for; a sender that will notice that the client
  failed, since the connection is closed, has not yet written its request.
\<close>

definition sender_ok :: "(u32 \<times> rpc) list \<Rightarrow> u32 \<times> rpc \<times> sender_phase \<Rightarrow> bool" where
  "sender_ok sent x \<longleftrightarrow> (case map_of sent (fst x) of None \<Rightarrow> True | Some r \<Rightarrow> r = fst (snd x))"

definition noticing :: "(u32 \<times> rpc \<times> sender_phase) list \<Rightarrow> u32 set" where
  "noticing senders = fst ` set (filter (\<lambda>x. snd (snd x) \<noteq> Written) senders)"

text \<open>
  Every call registered is, once, in the table of sent calls, with the receiver, answered,
  dropped or lost; and once \<^verbatim>\<open>fail\<close> has run, only calls of senders that are about to notice are
  left in the table.
\<close>

definition conn_inv :: "conn_state \<Rightarrow> bool" where
  "conn_inv s \<longleftrightarrow>
     ids_ok (cs_client s) \<and>
     rc_id (cs_client s) = id_of (length (cs_registered s)) \<and>
     fst ` set (rc_sent (cs_client s)) \<subseteq> id_range (length (cs_registered s)) \<and>
     fst ` set (cs_senders s) \<subseteq> id_range (length (cs_registered s)) \<and>
     distinct (map fst (cs_senders s)) \<and>
     mset (cs_registered s) = in_hand (cs_client s) + held (cs_receiver s) + mset (cs_expired s) + mset (cs_lost s) \<and>
     list_all (sender_ok (rc_sent (cs_client s))) (cs_senders s) \<and>
     (rc_done (cs_client s) \<longrightarrow> \<not> rc_conn (cs_client s)) \<and>
     (cs_failing s \<longrightarrow> rc_done (cs_client s)) \<and>
     (rc_done (cs_client s) \<and> \<not> cs_failing s \<longrightarrow> fst ` set (rc_sent (cs_client s)) \<subseteq> noticing (cs_senders s))"

definition dialed :: "client \<Rightarrow> bool" where
  "dialed c \<longleftrightarrow> rc_sent c = [] \<and> rc_returned c = [] \<and> rc_id c = 0 \<and> \<not> rc_done c"

lemma id_range_Suc: "id_range (Suc n) = insert (id_of (Suc n)) (id_range n)"
  by (auto simp: id_range_def atLeastAtMostSuc_conv)

lemma id_of_fresh: "Suc n < 2 ^ 32 \<Longrightarrow> id_of (Suc n) \<notin> id_range n"
proof
  assume n: "Suc n < 2 ^ 32" and "id_of (Suc n) \<in> id_range n"
  then obtain k where "k \<le> n" "id_of (Suc n) = id_of k" by (auto simp: id_range_def)
  moreover have "unat (id_of m) = m" if "m < 2 ^ 32" for m using that unfolding id_of_def by (intro unat_word_of_nat) simp
  ultimately show False using n by (metis Suc_n_not_le_n le_less_trans lessI less_imp_le order.strict_trans)
qed

lemma id_of_Suc: "id_of n + 1 = id_of (Suc n)"
  by (simp add: id_of_def)

lemma map_of_filter_key: "map_of (filter (\<lambda>e. fst e \<noteq> i) xs) j = (if j = i then None else map_of xs j)"
  by (induction xs) auto

lemma noticing_simps [simp]:
  "noticing [] = {}" "noticing (x # xs) = (if snd (snd x) \<noteq> Written then insert (fst x) (noticing xs) else noticing xs)"
  "noticing (xs @ ys) = noticing xs \<union> noticing ys"
  by (auto simp: noticing_def)

lemma unregisterRPC_fields:
  assumes "unregisterRPC i c = (r, c')"
  shows "r = map_of (rc_sent c) i" "rc_sent c' = filter (\<lambda>e. fst e \<noteq> i) (rc_sent c)" "rc_id c' = rc_id c"
    "rc_done c' = rc_done c" "rc_conn c' = rc_conn c" "rc_returned c' = rc_returned c"
  using assms by (auto simp: unregisterRPC_def)

lemma ids_ok_unregister: "ids_ok c \<Longrightarrow> unregisterRPC i c = (r, c') \<Longrightarrow> ids_ok c'"
  by (auto simp: ids_ok_def unregisterRPC_def intro: distinct_map_filter)

lemma inFlight_snd:
  "inFlightUp ok c = (b, c') \<Longrightarrow> c' = snd (inFlightUp ok c)" "inFlightDown ok c = (b, c') \<Longrightarrow> c' = snd (inFlightDown ok c)"
  by simp_all

text \<open>The invariant speaks of the client through its table, its ID, its answers and its flags only.\<close>

lemma conn_inv_cong:
  assumes "conn_inv s" "rc_sent c = rc_sent (cs_client s)" "rc_id c = rc_id (cs_client s)"
    "rc_returned c = rc_returned (cs_client s)" "rc_done c = rc_done (cs_client s)" "rc_conn c = rc_conn (cs_client s)"
  shows "conn_inv (s\<lparr>cs_client := c\<rparr>)"
  using assms unfolding conn_inv_def ids_ok_def in_hand_def by simp

lemma conn_inv_inFlight:
  assumes "conn_inv s"
  shows "inFlightUp ok (cs_client s) = (b, c) \<Longrightarrow> conn_inv (s\<lparr>cs_client := c\<rparr>)"
    and "inFlightDown ok (cs_client s) = (b, c) \<Longrightarrow> conn_inv (s\<lparr>cs_client := c\<rparr>)"
  using conn_inv_cong [OF assms, of c] by (auto dest: inFlight_snd)

text \<open>Changing the phase of one sender.\<close>

lemma conn_inv_phase:
  assumes "conn_inv s" "cs_senders s = xs @ (i, rpc, p) # ys"
    "q \<noteq> Written \<or> p = Written \<or> rc_conn (cs_client s)"
  shows "conn_inv (s\<lparr>cs_senders := xs @ (i, rpc, q) # ys\<rparr>)"
proof -
  have "noticing (cs_senders s) \<subseteq> noticing (xs @ (i, rpc, q) # ys)" if "q \<noteq> Written \<or> p = Written"
    using that assms(2) by auto
  then have "fst ` set (rc_sent (cs_client s)) \<subseteq> noticing (xs @ (i, rpc, q) # ys)"
    if "rc_done (cs_client s)" "\<not> cs_failing s"
    using that assms(1,3) unfolding conn_inv_def by (meson subset_trans)
  moreover have "list_all (sender_ok sent) (cs_senders s) = list_all (sender_ok sent) (xs @ (i, rpc, q) # ys)" for sent
    using assms(2) by (simp add: sender_ok_def split: option.split)
  moreover have "fst ` set (xs @ (i, rpc, q) # ys) = fst ` set (cs_senders s)"
    "map fst (xs @ (i, rpc, q) # ys) = map fst (cs_senders s)" using assms(2) by auto
  ultimately show ?thesis using assms(1) unfolding conn_inv_def by simp
qed

text \<open>Removing a sender whose call is not in the table any more.\<close>

lemma conn_inv_leave:
  assumes "conn_inv s" "cs_senders s = xs @ (i, rpc, p) # ys"
    "i \<notin> fst ` set (rc_sent (cs_client s)) \<or> \<not> rc_done (cs_client s)"
  shows "conn_inv (s\<lparr>cs_senders := xs @ ys\<rparr>)"
  using assms unfolding conn_inv_def by (auto split: if_splits)

lemma conn_inv_register:
  assumes "conn_inv s" "registerRPC rpc (cs_client s) = (i, c)" "Suc (length (cs_registered s)) < 2 ^ 32"
  shows "conn_inv (s\<lparr>cs_client := c, cs_senders := (i, rpc, Registered) # cs_senders s,
      cs_registered := cs_registered s @ [rpc]\<rparr>)"
proof -
  let ?n = "length (cs_registered s)" and ?sent = "rc_sent (cs_client s)"
  have new: "id_of (Suc ?n) \<notin> id_range ?n" using assms(3) by (rule id_of_fresh)
  have id: "rc_id (cs_client s) + 1 = id_of (Suc ?n)" using assms(1) by (simp add: conn_inv_def id_of_Suc)
  have "fresh_id (cs_client s)" using assms(1) new unfolding fresh_id_def id conn_inv_def by blast
  from registerRPC_fresh [OF this, of rpc] assms(2) id
  have c: "i = id_of (Suc ?n)" "c = (cs_client s)\<lparr>rc_id := i, rc_sent := (i, rpc) # ?sent\<rparr>"
    by simp_all
  have i: "i \<notin> fst ` set ?sent" "i \<notin> fst ` set (cs_senders s)"
    using assms(1) new c(1) by (auto simp: conn_inv_def)
  have "sender_ok ((i, rpc) # ?sent) x" if "x \<in> set (cs_senders s)" for x
  proof -
    have "fst x \<noteq> i" using i(2) that by auto
    moreover have "sender_ok ?sent x" using assms(1) that by (simp add: conn_inv_def list_all_iff)
    ultimately show ?thesis by (simp add: sender_ok_def)
  qed
  then have "list_all (sender_ok ((i, rpc) # ?sent)) ((i, rpc, Registered) # cs_senders s)"
    by (simp add: list_all_iff) (simp add: sender_ok_def)
  moreover have "noticing (cs_senders s) \<subseteq> noticing ((i, rpc, Registered) # cs_senders s)"
    "i \<in> noticing ((i, rpc, Registered) # cs_senders s)" by auto
  moreover have "in_hand c = add_mset rpc (in_hand (cs_client s))" "ids_ok c"
    using assms(1) i(1) by (simp_all add: c(2) in_hand_def ids_ok_def conn_inv_def)
  ultimately show ?thesis using assms(1) i c(1) unfolding conn_inv_def
    by (simp add: c(2) id_range_Suc subset_insertI2)
qed

text \<open>Taking a call out of the table: the holder takes it over.\<close>

lemma conn_inv_unregister:
  assumes "conn_inv s" "unregisterRPC i (cs_client s) = (r, c)"
  shows "ids_ok c" "fst ` set (rc_sent c) \<subseteq> fst ` set (rc_sent (cs_client s)) - {i}"
    "list_all (sender_ok (rc_sent c)) (cs_senders s)"
    "in_hand (cs_client s) = in_hand c + (case r of None \<Rightarrow> {#} | Some r \<Rightarrow> {#r#})"
proof -
  note u = unregisterRPC_fields [OF assms(2)]
  have ok: "ids_ok (cs_client s)" "list_all (sender_ok (rc_sent (cs_client s))) (cs_senders s)"
    using assms(1) by (simp_all add: conn_inv_def)
  show "ids_ok c" by (rule ids_ok_unregister [OF ok(1) assms(2)])
  show "fst ` set (rc_sent c) \<subseteq> fst ` set (rc_sent (cs_client s)) - {i}" using u(2) by auto
  show "list_all (sender_ok (rc_sent c)) (cs_senders s)"
    using ok(2) by (auto simp: u(2) sender_ok_def map_of_filter_key list_all_iff)
  show "in_hand (cs_client s) = in_hand c + (case r of None \<Rightarrow> {#} | Some r \<Rightarrow> {#r#})"
    by (rule in_hand_unregister [OF ok(1) assms(2)])
qed

lemma conn_inv_take:
  assumes "conn_inv s" "cs_receiver s = Reading" "unregisterRPC i (cs_client s) = (Some rpc, c)"
  shows "conn_inv (s\<lparr>cs_client := c, cs_receiver := Taken rpc\<rparr>)"
proof -
  note u = unregisterRPC_fields [OF assms(3)] and v = conn_inv_unregister [OF assms(1,3)]
  have "fst ` set (rc_sent c) \<subseteq> fst ` set (rc_sent (cs_client s))" using v(2) by blast
  then show ?thesis using assms(1,2) u(3-5) v(1,3,4) unfolding conn_inv_def held_def
    by simp (meson subset_trans)
qed

lemma conn_inv_give_up:
  assumes "conn_inv s" "cs_senders s = xs @ (i, rpc, p) # ys" "unregisterRPC i (cs_client s) = (r, c)"
  shows "conn_inv (s\<lparr>cs_client := (if r \<noteq> None then returnResult rpc (Inl err) c else c), cs_senders := xs @ ys\<rparr>)"
proof -
  note u = unregisterRPC_fields [OF assms(3)] and v = conn_inv_unregister [OF assms(1,3)]
  have "sender_ok (rc_sent (cs_client s)) (i, rpc, p)" using assms(1,2) by (simp add: conn_inv_def)
  then have r: "r = None \<or> r = Some rpc" using u(1) by (auto simp: sender_ok_def split: option.splits)
  define c2 where "c2 = (if r \<noteq> None then returnResult rpc (Inl err) c else c)"
  have hand: "in_hand c2 = in_hand (cs_client s)" using r v(4) by (auto simp: c2_def)
  have same: "rc_sent c2 = rc_sent c" "rc_id c2 = rc_id (cs_client s)" "rc_done c2 = rc_done (cs_client s)"
    "rc_conn c2 = rc_conn (cs_client s)" "ids_ok c2" using u v(1) by (simp_all add: ids_ok_def c2_def)
  have "fst ` set (rc_sent c) \<subseteq> fst ` set (rc_sent (cs_client s))" using v(2) by blast
  then have inv2: "conn_inv (s\<lparr>cs_client := c2\<rparr>)"
    using assms(1) v(3) hand same unfolding conn_inv_def by simp (meson subset_trans)
  have "cs_senders (s\<lparr>cs_client := c2\<rparr>) = xs @ (i, rpc, p) # ys" using assms(2) by simp
  moreover have "i \<notin> fst ` set (rc_sent (cs_client (s\<lparr>cs_client := c2\<rparr>)))" using v(2) same(1) by auto
  ultimately have "conn_inv (s\<lparr>cs_client := c2, cs_senders := xs @ ys\<rparr>)"
    using conn_inv_leave [OF inv2] by blast
  then show ?thesis unfolding c2_def .
qed

lemma conn_step_inv:
  assumes "conn_step s s'" "conn_inv s" "length (cs_registered s') < 2 ^ 32"
  shows "conn_inv s'"
  using assms(1)
proof cases
  case (register rpc i c)
  then show ?thesis using conn_inv_register [OF assms(2)] assms(3) by simp
next
  case (write_ok xs i rpc ys)
  then show ?thesis using conn_inv_phase [OF assms(2)] by simp
next
  case (send_error xs i rpc ys err)
  then show ?thesis using conn_inv_phase [OF assms(2)] by simp
next
  case (up_ok xs i rpc ys c)
  then have "\<not> rc_done (cs_client s)" using assms(2) by (auto simp: conn_inv_def)
  with conn_inv_inFlight(1) [OF assms(2) up_ok(4)] show ?thesis using conn_inv_leave [of "s\<lparr>cs_client := c\<rparr>" xs i rpc Written ys] up_ok(1,2)
      inFlight_snd(1) [OF up_ok(4)] by simp
next
  case (up_error xs i rpc ys c e)
  from conn_inv_inFlight(1) [OF assms(2) up_error(3)] show ?thesis using conn_inv_phase [of "s\<lparr>cs_client := c\<rparr>" xs i rpc Written ys] up_error(1,2) by simp
next
  case (failed xs i rpc err ys)
  then show ?thesis using conn_inv_phase [OF assms(2)] by simp
next
  case (unregister xs i rpc err ys r c)
  then show ?thesis using conn_inv_give_up [OF assms(2)] by simp
next
  case (take_response i rpc c)
  then show ?thesis using conn_inv_take [OF assms(2)] by simp
next
  case (down_ok rpc c)
  from conn_inv_inFlight(2) [OF assms(2) down_ok(4)] show ?thesis using down_ok(1,2) by (simp add: conn_inv_def held_def)
next
  case (down_error rpc c)
  from conn_inv_inFlight(2) [OF assms(2) down_error(3)] show ?thesis using down_error(1,2) by (simp add: conn_inv_def held_def)
next
  case (deliver rpc ans)
  then show ?thesis using assms(2) by (simp add: conn_inv_def held_def ids_ok_def)
next
  case (caller_gone rpc)
  then show ?thesis using assms(2) by (simp add: conn_inv_def held_def)
next
  case fail_begin
  then show ?thesis using assms(2) by (simp add: conn_inv_def close_conn_def ids_ok_def in_hand_def)
next
  case fail_end
  have "list_all (sender_ok []) (cs_senders s)" by (simp add: list_all_iff sender_ok_def)
  with fail_end show ?thesis using assms(2) in_hand_failSentRPCs [of "cs_client s"]
    by (simp add: conn_inv_def failSentRPCs_eq ids_ok_def)
qed

lemma conn_step_registered: "conn_step s s' \<Longrightarrow> length (cs_registered s) \<le> length (cs_registered s')"
  by (cases rule: conn_step.cases) auto

lemma conn_reach_inv:
  assumes "conn_reach c0 s" "dialed c0" "length (cs_registered s) < 2 ^ 32"
  shows "conn_inv s"
  using assms(1,3)
proof induction
  case init
  then show ?case using assms(2)
    by (simp add: conn_inv_def conn_start_def dialed_def ids_ok_def in_hand_def held_def id_of_def)
next
  case (step s s')
  then show ?case using conn_step_inv conn_step_registered le_less_trans by blast
qed

section \<open>Properties\<close>

text \<open>
  C4. No call is answered twice, in any interleaving of senders, the receiver and \<^verbatim>\<open>fail\<close>, as
  long as fewer than \<open>2 ^ 32\<close> calls were sent: each call that was registered is, exactly once,
  still awaiting its response, in the hands of the receiver, answered, or dropped.
\<close>

theorem in_flight_exactly_once:
  assumes "conn_reach c0 s" "dialed c0" "length (cs_registered s) < 2 ^ 32"
  shows "mset (cs_registered s) =
    mset (map snd (rc_sent (cs_client s))) + held (cs_receiver s) +
    mset (map fst (rc_returned (cs_client s))) + mset (cs_expired s) + mset (cs_lost s)"
  using conn_reach_inv [OF assms] by (simp add: conn_inv_def in_hand_def)

text \<open>
  C16. A closed client answers everything: when \<^verbatim>\<open>fail\<close> has run and no goroutine is in the middle
  of sending or receiving, no call is left waiting, so each call registered was answered
  exactly once, or dropped since its caller was gone, or lost as described below.
\<close>

theorem closed_client_answers_all:
  assumes "conn_reach c0 s" "dialed c0" "length (cs_registered s) < 2 ^ 32"
    and "rc_done (cs_client s)" "\<not> cs_failing s" "cs_senders s = []" "cs_receiver s = Reading"
  shows "rc_sent (cs_client s) = [] \<and>
    mset (cs_registered s) = mset (map fst (rc_returned (cs_client s))) + mset (cs_expired s) + mset (cs_lost s)"
  using conn_reach_inv [OF assms(1-3)] assms(4-) by (simp add: conn_inv_def in_hand_def held_def)

section \<open>Two races\<close>

lemma sample_dialed: "dialed sample_client" "rc_conn sample_client" "rc_sent sample_client = []"
  "rc_inFlight sample_client = 0" "rc_id sample_client = 0" "\<not> rc_done sample_client" "rc_returned sample_client = []"
  by (simp_all add: dialed_def sample_client_def NewClient_def)

text \<open>A call that is registered and written.\<close>

definition written_state :: "rpc \<Rightarrow> conn_state" where
  "written_state r = (conn_start sample_client)\<lparr>cs_client := sample_client\<lparr>rc_id := 1, rc_sent := [(1, r)]\<rparr>,
     cs_senders := [(1, r, Written)], cs_registered := [r]\<rparr>"

lemma written_reach: "conn_reach sample_client (written_state r)"
proof -
  let ?c = "sample_client\<lparr>rc_id := 1, rc_sent := [(1, r)]\<rparr>"
  let ?s = "(conn_start sample_client)\<lparr>cs_client := ?c, cs_senders := [(1, r, Registered)], cs_registered := [r]\<rparr>"
  have "registerRPC r (cs_client (conn_start sample_client)) = (1, ?c)"
    by (simp add: registerRPC_def conn_start_def sample_dialed Let_def)
  from conn_step.register [OF this] have "conn_step (conn_start sample_client) ?s" by (simp add: conn_start_def)
  then have "conn_reach sample_client ?s" by (rule conn_reach.step [OF conn_reach.init])
  moreover have "conn_step ?s (written_state r)"
    using conn_step.write_ok [of ?s "[]" 1 r "[]"] by (simp add: written_state_def conn_start_def sample_dialed)
  ultimately show ?thesis by (rule conn_reach.step)
qed

definition counted :: "client \<Rightarrow> client" where
  "counted c = c\<lparr>rc_inFlight := rc_inFlight c + 1, rc_deadline := True\<rparr>"

lemma up_written:
  assumes "rc_conn (cs_client s)" "cs_senders s = [(i, r, Written)]"
  shows "conn_step s (s\<lparr>cs_client := counted (cs_client s), cs_senders := []\<rparr>)"
proof -
  have "inFlightUp True (cs_client s) = (True, counted (cs_client s))"
    by (simp add: inFlightUp_def counted_def Let_def)
  from conn_step.up_ok [OF _ assms(1) this, of "[]" i r "[]"] assms(2) show ?thesis by simp
qed

text \<open>
  C39. Closing a client can lose a call: the receiver has taken a call whose response it read
  out of the table, \<^verbatim>\<open>Close\<close> runs, and resetting the read deadline of the closed connection
  fails. \<^verbatim>\<open>receive\<close> then returns before the deferred delivery was set up, and \<^verbatim>\<open>fail\<close> no longer
  finds the call: everything is at rest and the caller was never answered.
\<close>

theorem close_loses_call:
  "\<exists>s. conn_reach sample_client s \<and> rc_done (cs_client s) \<and> \<not> cs_failing s \<and> cs_senders s = [] \<and>
    cs_receiver s = Reading \<and> cs_registered s = [r] \<and> rc_sent (cs_client s) = [] \<and>
    rc_returned (cs_client s) = [] \<and> cs_expired s = []"
proof -
  let ?s0 = "written_state r"
  let ?s1 = "?s0\<lparr>cs_client := counted (cs_client ?s0), cs_senders := []\<rparr>"
  let ?c2 = "(cs_client ?s1)\<lparr>rc_sent := []\<rparr>"
  let ?s2 = "?s1\<lparr>cs_client := ?c2, cs_receiver := Taken r\<rparr>"
  let ?s3 = "?s2\<lparr>cs_client := close_conn ?c2, cs_failing := True\<rparr>"
  let ?c4 = "(close_conn ?c2)\<lparr>rc_inFlight := 0\<rparr>"
  let ?s4 = "?s3\<lparr>cs_client := ?c4, cs_receiver := Reading, cs_lost := [r]\<rparr>"
  let ?s5 = "?s4\<lparr>cs_client := failSentRPCs ?c4, cs_failing := False\<rparr>"
  have "conn_step ?s0 ?s1"
    by (rule up_written [where i = 1 and r = r]) (simp_all add: written_state_def sample_dialed)
  then have r1: "conn_reach sample_client ?s1" by (rule conn_reach.step [OF written_reach])
  have "unregisterRPC 1 (cs_client ?s1) = (Some r, ?c2)"
    by (simp add: unregisterRPC_def written_state_def counted_def)
  then have "conn_step ?s1 ?s2"
    by (intro conn_step.take_response) (simp_all add: written_state_def conn_start_def)
  then have r2: "conn_reach sample_client ?s2" by (rule conn_reach.step [OF r1])
  have "conn_step ?s2 ?s3"
    using conn_step.fail_begin [of ?s2] by (simp add: written_state_def counted_def sample_dialed)
  then have r3: "conn_reach sample_client ?s3" by (rule conn_reach.step [OF r2])
  have "inFlightDown False (cs_client ?s3) = (False, ?c4)"
    by (simp add: inFlightDown_def close_conn_def written_state_def counted_def sample_dialed Let_def)
  then have "conn_step ?s3 ?s4"
    using conn_step.down_error [of ?s3 r ?c4] by (simp add: written_state_def conn_start_def)
  then have r4: "conn_reach sample_client ?s4" by (rule conn_reach.step [OF r3])
  have "conn_step ?s4 ?s5" using conn_step.fail_end [of ?s4] by simp
  then have "conn_reach sample_client ?s5" by (rule conn_reach.step [OF r4])
  then show ?thesis
    by (intro exI [of _ ?s5])
      (simp add: failSentRPCs_eq close_conn_def written_state_def conn_start_def counted_def sample_dialed)
qed

text \<open>
  C40. The read deadline can stay armed on an idle connection: when the response arrives between
  writing the request and \<^verbatim>\<open>inFlightUp\<close>, the counter of calls in flight wraps around and comes
  back to zero with the deadline set. No call is in flight, yet the next read times out and
  closes the client, which \<^verbatim>\<open>inFlightDown\<close> is written to prevent.
\<close>

theorem deadline_left_armed:
  "\<exists>s ans. conn_reach sample_client s \<and> \<not> rc_done (cs_client s) \<and> cs_senders s = [] \<and> cs_receiver s = Reading \<and>
    rc_sent (cs_client s) = [] \<and> rc_returned (cs_client s) = [(r, ans)] \<and>
    rc_inFlight (cs_client s) = 0 \<and> rc_deadline (cs_client s)"
proof -
  let ?s0 = "written_state r" and ?ans = "Inr None :: answer"
  let ?c1 = "(cs_client ?s0)\<lparr>rc_sent := []\<rparr>"
  let ?s1 = "?s0\<lparr>cs_client := ?c1, cs_receiver := Taken r\<rparr>"
  let ?c2 = "?c1\<lparr>rc_inFlight := - 1\<rparr>"
  let ?s2 = "?s1\<lparr>cs_client := ?c2, cs_receiver := Holding r\<rparr>"
  let ?s3 = "?s2\<lparr>cs_client := returnResult r ?ans ?c2, cs_receiver := Reading\<rparr>"
  let ?s4 = "?s3\<lparr>cs_client := counted (cs_client ?s3), cs_senders := []\<rparr>"
  have "unregisterRPC 1 (cs_client ?s0) = (Some r, ?c1)" by (simp add: unregisterRPC_def written_state_def)
  then have "conn_step ?s0 ?s1"
    by (intro conn_step.take_response) (simp_all add: written_state_def conn_start_def)
  then have r1: "conn_reach sample_client ?s1" by (rule conn_reach.step [OF written_reach])
  have "inFlightDown True (cs_client ?s1) = (True, ?c2)"
    by (simp add: inFlightDown_def written_state_def sample_dialed Let_def)
  then have "conn_step ?s1 ?s2"
    using conn_step.down_ok [of ?s1 r ?c2] by (simp add: written_state_def sample_dialed)
  then have r2: "conn_reach sample_client ?s2" by (rule conn_reach.step [OF r1])
  have "conn_step ?s2 ?s3" using conn_step.deliver [of ?s2 r ?ans] by simp
  then have r3: "conn_reach sample_client ?s3" by (rule conn_reach.step [OF r2])
  have "conn_step ?s3 ?s4"
    by (rule up_written [where i = 1 and r = r]) (simp_all add: written_state_def sample_dialed)
  then have "conn_reach sample_client ?s4" by (rule conn_reach.step [OF r3])
  then show ?thesis
    by (intro exI [of _ ?s4] exI [of _ ?ans])
      (simp add: written_state_def conn_start_def counted_def returnResult_def sample_dialed)
qed

section \<open>Witnesses\<close>

theorem in_flight_exactly_once_witness:
  "\<exists>s. conn_reach sample_client s \<and> cs_registered s = [Single sample_status] \<and>
    mset (cs_registered s) = mset (map snd (rc_sent (cs_client s))) + held (cs_receiver s) +
      mset (map fst (rc_returned (cs_client s))) + mset (cs_expired s) + mset (cs_lost s)"
  using in_flight_exactly_once [OF written_reach sample_dialed(1), of "Single sample_status"]
    written_reach [of "Single sample_status"]
  by (intro exI [of _ "written_state (Single sample_status)"]) (simp add: written_state_def)

text \<open>A call waits for its response when the client fails: it is answered, and nothing is left.\<close>

lemma failed_reach:
  "\<exists>s. conn_reach sample_client s \<and> rc_done (cs_client s) \<and> \<not> cs_failing s \<and> cs_senders s = [] \<and>
    cs_receiver s = Reading \<and> cs_registered s = [r] \<and> cs_expired s = [] \<and> cs_lost s = []"
proof -
  let ?s0 = "written_state r"
  let ?s1 = "?s0\<lparr>cs_client := counted (cs_client ?s0), cs_senders := []\<rparr>"
  let ?s2 = "?s1\<lparr>cs_client := close_conn (cs_client ?s1), cs_failing := True\<rparr>"
  let ?s3 = "?s2\<lparr>cs_client := failSentRPCs (cs_client ?s2), cs_failing := False\<rparr>"
  have "conn_step ?s0 ?s1"
    by (rule up_written [where i = 1 and r = r]) (simp_all add: written_state_def sample_dialed)
  then have r1: "conn_reach sample_client ?s1" by (rule conn_reach.step [OF written_reach])
  have "conn_step ?s1 ?s2"
    using conn_step.fail_begin [of ?s1] by (simp add: written_state_def counted_def sample_dialed)
  then have r2: "conn_reach sample_client ?s2" by (rule conn_reach.step [OF r1])
  have "conn_step ?s2 ?s3" using conn_step.fail_end [of ?s2] by simp
  then have "conn_reach sample_client ?s3" by (rule conn_reach.step [OF r2])
  then show ?thesis
    by (intro exI [of _ ?s3])
      (simp add: failSentRPCs_eq close_conn_def written_state_def conn_start_def counted_def sample_dialed)
qed

theorem closed_client_answers_all_witness:
  "\<exists>s. conn_reach sample_client s \<and> rc_done (cs_client s) \<and> cs_registered s = [Single sample_status] \<and>
    rc_sent (cs_client s) = [] \<and> map fst (rc_returned (cs_client s)) = [Single sample_status]"
proof -
  obtain s where s: "conn_reach sample_client s" "rc_done (cs_client s)" "\<not> cs_failing s" "cs_senders s = []"
      "cs_receiver s = Reading" "cs_registered s = [Single sample_status]" "cs_expired s = []" "cs_lost s = []"
    using failed_reach by blast
  have "length (cs_registered s) < 2 ^ 32" using s(6) by simp
  from closed_client_answers_all [OF s(1) sample_dialed(1) this s(2-5)] s
  have "rc_sent (cs_client s) = []" "mset (map fst (rc_returned (cs_client s))) = {#Single sample_status#}" by simp_all
  with s(1,2,6) show ?thesis by (auto simp flip: mset_single_iff)
qed

end
