(* ===== verification/Responses.thy ===== *)
theory Responses
  imports Region_Client
begin

text \<open>
  What the reader goroutine of a region client makes of a stream of responses
  (\<^verbatim>\<open>receiveRPCs\<close> and \<^verbatim>\<open>receive\<close>, \<^verbatim>\<open>src/region/client.go\<close>). The server may answer in any order.
\<close>

text \<open>
  The loop, with what happens around each of its turns: which contexts have expired, and whether
  the deadline of the connection can be set. \<open>None\<close> when the goroutine has ended.
\<close>

type_synonym read_turn = "(nat \<Rightarrow> bool) \<times> bool"

fun receiveRPCs ::
  "proto_ops \<Rightarrow> read_turn list \<Rightarrow> bytes \<Rightarrow> client \<Rightarrow> (rpc_error, bytes option \<times> client) outcome" where
  "receiveRPCs P [] stream c = Ok (Some stream, c)"
| "receiveRPCs P ((expired, down_ok) # turns) stream c =
     and_then (receive_turn P expired down_ok stream c) (\<lambda>(stream', c').
       case stream' of None \<Rightarrow> Ok (None, c') | Some s \<Rightarrow> receiveRPCs P turns s c')"

text \<open>A response on the wire, several of them in a row, and that the content of one answers a call.\<close>

definition frame :: "bytes \<Rightarrow> bytes" where
  "frame b = put_uint32 (word_of_nat (length b)) @ b"

fun wire :: "('i \<times> bytes \<times> 'a) list \<Rightarrow> bytes" where
  "wire [] = []"
| "wire ((i, b, r) # rs) = frame b @ wire rs"

definition answers :: "proto_ops \<Rightarrow> codec_ops option \<Rightarrow> u32 \<Rightarrow> bytes \<Rightarrow> rpc \<Rightarrow> response \<Rightarrow> bool" where
  "answers P cdc i b rpc resp \<longleftrightarrow> length b < 2 ^ 32 \<and>
     (\<exists>hb hl header. consume_bytes P b = Inr (hb, hl) \<and> unmarshal_header P hb = Inr header \<and>
       rsp_call_id header = Some i \<and> decode_response P cdc rpc header b hl = Ok resp)"

definition counted_down :: "client \<Rightarrow> client \<Rightarrow> nat \<Rightarrow> bool" where
  "counted_down c c' n \<longleftrightarrow> rc_inFlight c' = rc_inFlight c - word_of_nat n \<and>
     (n \<noteq> 0 \<longrightarrow> rc_inFlight c' = 0 \<longrightarrow> \<not> rc_deadline c') \<and> (n = 0 \<longrightarrow> rc_deadline c' = rc_deadline c)"

lemma counted_down_0: "counted_down c c 0" by (simp add: counted_down_def)

lemma counted_down_trans: "counted_down c c1 m \<Longrightarrow> counted_down c1 c2 n \<Longrightarrow> counted_down c c2 (m + n)"
  by (auto simp: counted_down_def diff_diff_eq)

lemma receive_frame:
  assumes "answers P (rc_compressor c) i b rpc resp" "map_of (rc_sent c) i = Some rpc" "\<not> rpc_expired expired rpc"
  shows "\<exists>c'. receive P expired True (frame b @ rest) c = Ok (None, rest, c') \<and>
    rc_returned c' = rc_returned c @ [(rpc, Inr (Some resp))] \<and>
    rc_sent c' = filter (\<lambda>e. fst e \<noteq> i) (rc_sent c) \<and> rc_compressor c' = rc_compressor c \<and> rc_done c' = rc_done c \<and>
    counted_down c c' 1"
proof -
  obtain hb hl header where h: "length b < 2 ^ 32" "consume_bytes P b = Inr (hb, hl)" "unmarshal_header P hb = Inr header"
      "rsp_call_id header = Some i" "decode_response P (rc_compressor c) rpc header b hl = Ok resp"
    using assms(1) by (auto simp: answers_def)
  let ?n = "word_of_nat (length b) :: u32"
  have n: "unat ?n = length b" using h(1) by (simp add: unat_of_nat)
  have "take 4 (frame b @ rest) = put_uint32 ?n" "drop 4 (frame b @ rest) = b @ rest" "\<not> length (frame b @ rest) < 4"
    by (simp_all add: frame_def)
  then show ?thesis using h n assms(2,3)
    by (auto simp: receive_def Let_def unregisterRPC_def inFlightDown_def returnResult_def counted_down_def)
qed

lemma receive_turn_frame:
  assumes "answers P (rc_compressor c) i b rpc resp" "map_of (rc_sent c) i = Some rpc" "\<not> rpc_expired expired rpc" "\<not> rc_done c"
  shows "\<exists>c'. receive_turn P expired True (frame b @ rest) c = Ok (Some rest, c') \<and>
    rc_returned c' = rc_returned c @ [(rpc, Inr (Some resp))] \<and>
    rc_sent c' = filter (\<lambda>e. fst e \<noteq> i) (rc_sent c) \<and> rc_compressor c' = rc_compressor c \<and> \<not> rc_done c' \<and>
    counted_down c c' 1"
  using receive_frame [OF assms(1-3), of rest] assms(4) by (auto simp: receive_turn_def)

lemma map_of_other: "i \<noteq> j \<Longrightarrow> map_of (filter (\<lambda>e. fst e \<noteq> i) xs) j = map_of xs j"
  by (induction xs) auto

text \<open>
  Responses are delivered to the calls they answer: when the server sends responses to calls
  in the table, in whatever order, each of the calls gets the response with its own ID, once;
  exactly these calls leave the table, and the bytes behind the responses are not touched. The
  count of calls in flight goes down with each, and at zero the deadline is taken away.
\<close>

lemma responses_matched:
  assumes "\<forall>(i, b, rpc, resp) \<in> set rs. answers P (rc_compressor c) i b rpc resp \<and> map_of (rc_sent c) i = Some rpc \<and>
      (\<forall>(expired, down_ok) \<in> set turns. \<not> rpc_expired expired rpc)"
    and "length turns = length rs" "\<forall>(expired, down_ok) \<in> set turns. down_ok" "distinct (map fst rs)" "\<not> rc_done c"
  shows "\<exists>c'. receiveRPCs P turns (wire rs @ rest) c = Ok (Some rest, c') \<and>
    rc_returned c' = rc_returned c @ map (\<lambda>(i, b, rpc, resp). (rpc, Inr (Some resp))) rs \<and>
    rc_sent c' = filter (\<lambda>e. fst e \<notin> fst ` set rs) (rc_sent c) \<and> counted_down c c' (length rs)"
  using assms
proof (induction rs arbitrary: c turns)
  case (Cons r rs)
  obtain i b rpc resp where r: "r = (i, b, rpc, resp)" by (metis prod_cases4)
  obtain expired turns' where t: "turns = (expired, True) # turns'" "length turns' = length rs"
    using Cons.prems(2,3) by (cases turns) auto
  let ?rest = "wire rs @ rest"
  obtain c1 where c1: "receive_turn P expired True (frame b @ ?rest) c = Ok (Some ?rest, c1)"
      "rc_returned c1 = rc_returned c @ [(rpc, Inr (Some resp))]" "rc_sent c1 = filter (\<lambda>e. fst e \<noteq> i) (rc_sent c)"
      "rc_compressor c1 = rc_compressor c" "\<not> rc_done c1" "counted_down c c1 1"
    using receive_turn_frame [of P c i b rpc resp expired ?rest] Cons.prems r t by auto
  have "case x of (j, b, rpc, resp) \<Rightarrow> answers P (rc_compressor c1) j b rpc resp \<and> map_of (rc_sent c1) j = Some rpc \<and>
      (\<forall>(expired, down_ok) \<in> set turns'. \<not> rpc_expired expired rpc)" if x: "x \<in> set rs" for x
  proof -
    obtain j b' rpc' resp' where x': "x = (j, b', rpc', resp')" by (metis prod_cases4)
    have "fst x \<in> fst ` set rs" using x by (rule imageI)
    then have "i \<noteq> j" using Cons.prems(4) r x' by auto
    moreover have "answers P (rc_compressor c) j b' rpc' resp' \<and> map_of (rc_sent c) j = Some rpc' \<and>
        (\<forall>(expired, down_ok) \<in> set turns'. \<not> rpc_expired expired rpc')"
      using Cons.prems(1) x x' t by auto
    ultimately show ?thesis using c1(3,4) x' map_of_other [of i j "rc_sent c"] by simp
  qed
  then have ok: "\<forall>(j, b, rpc, resp) \<in> set rs. answers P (rc_compressor c1) j b rpc resp \<and> map_of (rc_sent c1) j = Some rpc \<and>
      (\<forall>(expired, down_ok) \<in> set turns'. \<not> rpc_expired expired rpc)" by (rule ballI)
  have d: "\<forall>(expired, down_ok) \<in> set turns'. down_ok" "distinct (map fst rs)" using Cons.prems(3,4) t by auto
  from Cons.IH [OF ok t(2) d c1(5)] obtain c' where c': "receiveRPCs P turns' ?rest c1 = Ok (Some rest, c')"
      "rc_returned c' = rc_returned c1 @ map (\<lambda>(i, b, rpc, resp). (rpc, Inr (Some resp))) rs"
      "rc_sent c' = filter (\<lambda>e. fst e \<notin> fst ` set rs) (rc_sent c1)" "counted_down c1 c' (length rs)" by (elim exE conjE)
  have "rc_sent c' = filter (\<lambda>e. fst e \<notin> fst ` set (r # rs)) (rc_sent c)"
    using c'(3) c1(3) r by (simp add: conj_commute)
  then show ?case using c' c1(1,2) r t counted_down_trans [OF c1(6) c'(4)] by simp
qed (simp add: counted_down_0)

end
