(* ===== verification/Wire.thy ===== *)
theory Wire
  imports Region_Client
begin

text \<open>
  What a server reads off the connection (\<^verbatim>\<open>send\<close> of \<^verbatim>\<open>src/region/client.go\<close>, which describes the
  format in a comment): four bytes with the length of the rest, the header and the request, each
  after its own length, and then the cell blocks, whose length is in the header.
\<close>

section \<open>The protobuf runtime\<close>

text \<open>
  What the client relies on: the announced sizes are those of the messages, and a message
  that follows its length is found again.
\<close>

locale protobuf =
  fixes P :: proto_ops
  assumes header_size: "marshal_header P h = Inr hb \<Longrightarrow> size_header P h = length hb"
    and request_size: "marshal_request P r = Inr rb \<Longrightarrow> size_request P r = length rb"
    and varint_size: "length (append_varint P n) = size_varint P n"
    and consume: "length b < 2 ^ 32 \<Longrightarrow>
      consume_bytes P (append_varint P (length b) @ b @ rest) = Inr (b, length (append_varint P (length b)) + length b)"

text \<open>The request as the format describes it: header, request and cell blocks.\<close>

definition read_request :: "proto_ops \<Rightarrow> bytes \<Rightarrow> (bytes \<times> bytes \<times> bytes) option" where
  "read_request P frame =
     (case (uint32 (take 4 frame) :: (unit, u32) outcome) of
        Ok n \<Rightarrow>
          if unat n \<noteq> length (drop 4 frame) then None
          else (case consume_bytes P (drop 4 frame) of
              Inl _ \<Rightarrow> None
            | Inr (header, hn) \<Rightarrow>
                (case consume_bytes P (drop (4 + hn) frame) of
                   Inl _ \<Rightarrow> None
                 | Inr (request, rn) \<Rightarrow> Some (header, request, drop (4 + hn + rn) frame)))
      | _ \<Rightarrow> None)"

context protobuf
begin

lemma request_frame_eq:
  assumes "marshal_header P h = Inr hb" "marshal_request P r = Inr rb"
  shows "request_frame P h r cells =
    Ok (put_uint32 (word_of_nat (length (append_varint P (length hb) @ hb @ append_varint P (length rb) @ rb)) +
          (case cells of None \<Rightarrow> 0 | Some (_, len) \<Rightarrow> len)) @
        append_varint P (length hb) @ hb @ append_varint P (length rb) @ rb @
        (case cells of None \<Rightarrow> [] | Some (cbs, _) \<Rightarrow> concat cbs))"
  using header_size [OF assms(1)] request_size [OF assms(2)] varint_size assms
  by (simp add: request_frame_def Let_def add_ac)

lemma read_frame:
  fixes hb rb cells :: bytes
  defines "body \<equiv> append_varint P (length hb) @ hb @ append_varint P (length rb) @ rb @ cells"
  assumes "length body < 2 ^ 32"
  shows "read_request P (put_uint32 (word_of_nat (length body)) @ body) = Some (hb, rb, cells)"
proof -
  have n: "unat (word_of_nat (length body) :: u32) = length body" using assms(2) by (simp add: unat_of_nat)
  have "length hb < 2 ^ 32" "length rb < 2 ^ 32" using assms(2) by (simp_all add: body_def)
  then have "consume_bytes P body = Inr (hb, length (append_varint P (length hb)) + length hb)"
      "consume_bytes P (append_varint P (length rb) @ rb @ cells) = Inr (rb, length (append_varint P (length rb)) + length rb)"
    by (simp_all add: body_def consume)
  moreover have "drop (length (append_varint P (length hb)) + length hb) body = append_varint P (length rb) @ rb @ cells"
      "drop (length (append_varint P (length rb)) + length rb) (append_varint P (length rb) @ rb @ cells) = cells"
    by (simp_all add: body_def)
  ultimately show ?thesis using n
    by (simp add: read_request_def drop_drop [symmetric] add.commute add.left_commute del: drop_drop)
qed

end

section \<open>Lengths of cell blocks\<close>

definition block_length :: "bytes list \<Rightarrow> u32" where
  "block_length cbs = word_of_nat (length (concat cbs))"

lemma block_length_simps [simp]:
  "block_length [] = 0" "block_length (xs @ ys) = block_length xs + block_length ys" "block_length [b] = word_of_nat (length b)"
  by (simp_all add: block_length_def)

lemma Mutate_toProto_length:
  "(Mutate_toProto m True [] :: ('e, _) outcome) = Ok (r, bl, sz) \<Longrightarrow> sz = block_length bl"
  by (auto simp: Mutate_toProto_def valuesToCellblocks_eq Let_def word_gt_0 split: if_splits)

lemma call_action_length:
  "(call_action b c [] :: ('e, _) outcome) = Ok (body, bl, sz) \<Longrightarrow> sz = block_length bl"
  by (cases c) (auto simp: Mutate_SerializeCellBlocks_def dest: Mutate_toProto_length split: if_splits)

definition map_length :: "region_map \<Rightarrow> u32" where
  "map_length m = sum_list (map (block_length \<circ> as_cellblocks \<circ> snd) m)"

lemma map_length_mset: "map_length m = sum_mset (image_mset (block_length \<circ> as_cellblocks \<circ> snd) (mset m))"
  by (simp add: map_length_def flip: sum_mset_sum_list)

lemma block_length_concat: "block_length (concat (map f xs)) = sum_list (map (block_length \<circ> f) xs)"
  by (induction xs) auto

lemma map_length_set:
  "map_length (set_actions r a m) = map_length m + block_length (as_cellblocks a) - block_length (as_cellblocks (lookup_actions r m))"
  by (induction m) (auto simp: map_length_def lookup_actions_def)

lemma collect_actions_length:
  "(collect_actions expired b i cs m sz :: ('e, _) outcome) = Ok (cs', m', sz') \<Longrightarrow> sz = map_length m \<Longrightarrow> sz' = map_length m'"
proof (induction cs arbitrary: i m sz cs')
  case (Cons co cs)
  obtain c where c: "co = Some c" using Cons.prems(1) by (cases co) auto
  show ?case
  proof (cases "expired (b_ctx (call_base c))")
    case False
    let ?as = "lookup_actions (b_region (call_base c)) m"
    obtain body bl s where a: "(call_action b c [] :: ('e, _) outcome) = Ok (body, bl, s)"
      using Cons.prems(1) False c call_action_append [of b c "as_cellblocks ?as", where 'a = 'e]
      by (cases "call_action b c [] :: ('e, _) outcome") auto
    then have s: "s = block_length bl" by (rule call_action_length)
    obtain a where "(collect_actions expired b (Suc i) cs (set_actions (b_region (call_base c))
        \<lparr>as_pbs = as_pbs ?as @ [\<lparr>a_index = word_of_nat i + 1, a_body = body\<rparr>], as_cellblocks = as_cellblocks ?as @ bl\<rparr> m)
        (sz + s) :: ('e, _) outcome) = Ok (a, m', sz')"
      using Cons.prems(1) False c a call_action_append [of b c "as_cellblocks ?as", where 'a = 'e] by (auto simp: Let_def)
    then show ?thesis by (rule Cons.IH) (simp add: map_length_set Cons.prems(2) s)
  next
    case True
    then show ?thesis using Cons c by auto
  qed
qed simp

lemma serialize_length:
  assumes "\<forall>xs. mset (order xs) = mset xs" "serialize_rpc order expired rpc = Ok (rpc', request, Some (cbs, len))"
  shows "len = block_length cbs"
  using assms(2)
proof (cases "(order, expired, rpc)" rule: serialize_rpc.cases)
  case (1 _ _ n m)
  then obtain calls perReg where c: "(collect_actions expired True 0 (mu_calls m) [] 0 :: (rpc_error, _) outcome) = Ok (calls, perReg, len)"
      and cbs: "cbs = concat (map (as_cellblocks \<circ> snd) (order perReg))"
    using assms(2)
    by (cases "collect_actions expired True 0 (mu_calls m) [] 0 :: (rpc_error, _) outcome")
      (auto simp: multi_SerializeCellBlocks_def multi_toProto_def Let_def split: if_splits)
  have "len = map_length perReg" by (rule collect_actions_length [OF c]) (simp add: map_length_def)
  also have "\<dots> = map_length (order perReg)"
    using assms(1) by (simp add: map_length_mset)
  also have "\<dots> = block_length cbs"
    unfolding cbs map_length_def by (simp add: block_length_concat comp_assoc)
  finally show ?thesis .
qed (use assms(2) in \<open>auto simp: Mutate_SerializeCellBlocks_def dest: Mutate_toProto_length\<close>)

section \<open>Properties\<close>

text \<open>The cell blocks as they are sent, and their length.\<close>

lemma compress_request_bytes:
  assumes "\<And>cbs len. cells = Some (cbs, len) \<Longrightarrow> len = block_length cbs"
  shows "case compress_request cdc cells of
      None \<Rightarrow> cells = None
    | Some (cbs', len') \<Rightarrow> len' = block_length cbs' \<and> (\<exists>cbs len. cells = Some (cbs, len) \<and>
        concat cbs' = (case cdc of None \<Rightarrow> concat cbs | Some C \<Rightarrow> compressCellblocks C cbs len))"
  using assms by (auto simp: compress_request_def Let_def split: option.splits)

context protobuf
begin

lemma request_frame_no_panic: "request_frame P h r cells \<noteq> Panic p"
proof (cases "marshal_header P h")
  case (Inr hb)
  then show ?thesis using request_frame_eq [of h hb r]
    by (cases "marshal_request P r") (auto simp: request_frame_def Let_def)
qed (simp add: request_frame_def Let_def)

lemma request_frame_read:
  assumes "request_frame P h r cells = Ok fr" "length fr < 2 ^ 32" "\<And>cbs len. cells = Some (cbs, len) \<Longrightarrow> len = block_length cbs"
  obtains hb rb where "marshal_header P h = Inr hb" "marshal_request P r = Inr rb"
    "read_request P fr = Some (hb, rb, case cells of None \<Rightarrow> [] | Some (cbs, _) \<Rightarrow> concat cbs)"
    "length (case cells of None \<Rightarrow> [] | Some (cbs, _) \<Rightarrow> concat cbs) < 2 ^ 32"
proof -
  obtain hb rb where m: "marshal_header P h = Inr hb" "marshal_request P r = Inr rb"
    using assms(1) by (cases "marshal_header P h"; cases "marshal_request P r") (auto simp: request_frame_def Let_def)
  let ?bytes = "case cells of None \<Rightarrow> [] | Some (cbs, _) \<Rightarrow> concat cbs"
  let ?body = "append_varint P (length hb) @ hb @ append_varint P (length rb) @ rb @ ?bytes"
  have "(case cells of None \<Rightarrow> 0 | Some (_, len) \<Rightarrow> len) = word_of_nat (length ?bytes)"
    using assms(3) by (auto simp: block_length_def split: option.split)
  then have fr: "fr = put_uint32 (word_of_nat (length ?body)) @ ?body"
    using request_frame_eq [OF m, of cells] assms(1) by (simp add: add_ac)
  have "length ?body < 2 ^ 32" using assms(2) by (simp add: fr)
  then have "read_request P fr = Some (hb, rb, ?bytes)" "length ?bytes < 2 ^ 32" unfolding fr by (rule read_frame, simp)
  then show thesis using m that by blast
qed

end

text \<open>
  That a server which reads the header \<open>h\<close>, the bytes \<open>rb\<close> of the request and \<open>bytes\<close> behind it
  has the call \<open>rpc\<close>, registered as \<open>rpc'\<close> under the ID \<open>i\<close>, before it.
\<close>

definition request_of ::
  "proto_ops \<Rightarrow> (region_map \<Rightarrow> region_map) \<Rightarrow> (nat \<Rightarrow> bool) \<Rightarrow> codec_ops option \<Rightarrow> rpc \<Rightarrow> u32 \<times> rpc
     \<Rightarrow> request_header \<times> bytes \<times> bytes \<Rightarrow> bool" where
  "request_of P order expired cdc rpc = (\<lambda>(i, rpc') (h, rb, bytes).
     rh_call_id h = i \<and> rh_method_name h = rpc_name rpc \<and>
     (\<exists>request cells. serialize_rpc order expired rpc = Ok (rpc', request, cells) \<and> marshal_request P request = Inr rb \<and>
       (case cells of
          None \<Rightarrow> bytes = [] \<and> rh_cell_block_len h = None
        | Some (cbs, len) \<Rightarrow>
            bytes = (case cdc of None \<Rightarrow> concat cbs | Some C \<Rightarrow> compressCellblocks C cbs len) \<and>
            map_option unat (rh_cell_block_len h) = Some (length bytes))))"

lemma compressed_length:
  fixes cells cdc
  defines "cells' \<equiv> compress_request cdc cells"
  defines "bytes \<equiv> case cells' of None \<Rightarrow> [] | Some (cbs, _) \<Rightarrow> concat cbs"
  assumes len: "\<And>cbs len. cells = Some (cbs, len) \<Longrightarrow> len = block_length cbs" and "length bytes < 2 ^ 32"
  shows "case cells of
      None \<Rightarrow> bytes = [] \<and> map_option snd cells' = None
    | Some (cbs, len) \<Rightarrow>
        bytes = (case cdc of None \<Rightarrow> concat cbs | Some C \<Rightarrow> compressCellblocks C cbs len) \<and>
        map_option (unat \<circ> snd) cells' = Some (length bytes)"
proof (cases cells)
  case (Some x)
  obtain cbs' len' where r: "cells' = Some (cbs', len')" using Some unfolding cells'_def
    by (cases x; cases cdc) (simp_all add: compress_request_def Let_def)
  have z: "len' = block_length cbs'" "\<exists>cbs len. cells = Some (cbs, len) \<and>
      concat cbs' = (case cdc of None \<Rightarrow> concat cbs | Some C \<Rightarrow> compressCellblocks C cbs len)"
    using compress_request_bytes [of cells cdc] len r unfolding cells'_def by auto
  moreover have "unat len' = length (concat cbs')" using z(1) assms(4) unfolding bytes_def r by (simp add: block_length_def unat_of_nat)
  ultimately show ?thesis unfolding bytes_def r by auto
qed (simp add: compress_request_def cells'_def bytes_def)

lemma send_registered: "send P order expired write_ok up_ok rpc c = Ok (i, rpc', res, c') \<Longrightarrow> map_of (rc_sent c') i = Some rpc'"
  by (auto elim!: send_OkE simp: registerRPC_def Let_def dest!: write_request_keeps(1))

lemma send_frame:
  assumes "protobuf P" "\<forall>xs. mset (order xs) = mset xs"
    and "send P order expired True up_ok rpc c = Ok (i, rpc', res, c')" "rc_written c' \<noteq> rc_written c"
    and "length (rc_written c') < length (rc_written c) + 2 ^ 32"
  obtains fr h hb rb bytes where "rc_written c' = rc_written c @ fr" "read_request P fr = Some (hb, rb, bytes)"
    "marshal_header P h = Inr hb" "request_of P order expired (rc_compressor c) rpc (i, rpc') (h, rb, bytes)"
proof -
  obtain request cells where s: "serialize_rpc order expired rpc = Ok (rpc', request, cells)"
    using assms(3) by (auto simp: send_def Let_def registerRPC_def)
  let ?cells = "compress_request (rc_compressor c) cells"
  define h where "h = \<lparr>rh_method_name = rpc_name rpc, rh_request_param = True, rh_cell_block_len = map_option snd ?cells, rh_call_id = i\<rparr>"
  have w: "write_request P True up_ok h request ?cells (snd (registerRPC rpc' c)) = Ok (res, c')"
    using assms(3) s by (auto simp: send_def registerRPC_def Let_def h_def)
  then obtain fr where fr: "request_frame P h request ?cells = Ok fr" "rc_written c' = rc_written c @ fr"
    using assms(4) by (auto simp: write_request_def inFlightUp_def registerRPC_def Let_def split: outcome.splits if_splits)
  have len: "cells = Some (cbs, len) \<Longrightarrow> len = block_length cbs" for cbs len
    using serialize_length [OF assms(2)] s by blast
  have "?cells = Some (cbs, len) \<Longrightarrow> len = block_length cbs" for cbs len
    using compress_request_bytes [of cells "rc_compressor c"] len by auto
  moreover have "length fr < 2 ^ 32" using assms(5) fr(2) by simp
  ultimately obtain hb rb where hb: "marshal_header P h = Inr hb" "marshal_request P request = Inr rb"
      "read_request P fr = Some (hb, rb, case ?cells of None \<Rightarrow> [] | Some (cbs, _) \<Rightarrow> concat cbs)"
      "length (case ?cells of None \<Rightarrow> [] | Some (cbs, _) \<Rightarrow> concat cbs) < 2 ^ 32" (is "length ?bytes < _")
    by (rule_tac protobuf.request_frame_read [OF assms(1) fr(1)]) auto
  have "request_of P order expired (rc_compressor c) rpc (i, rpc') (h, rb, ?bytes)"
    using compressed_length [OF len hb(4)] s hb(2) by (auto simp: request_of_def h_def option.map_comp split: option.splits)
  then show thesis using that fr(2) hb(1,3) by blast
qed

text \<open>
  What \<^verbatim>\<open>send\<close> writes is one frame that a server reads back, given a protobuf runtime that keeps
  its promises: the header with the method and the ID under which the call is registered, the
  request, and behind them exactly the cell blocks, compressed if the client compresses, as long
  as the header says. The check of the size never panics.
\<close>

theorem send_wire_format:
  assumes "protobuf P" "\<forall>xs. mset (order xs) = mset xs"
    and "send P order expired True up_ok rpc c = Ok (i, rpc', res, c')" "rc_written c' \<noteq> rc_written c"
    and "length (rc_written c') < length (rc_written c) + 2 ^ 32"
  shows "(\<exists>frame header request cells hb rb bytes.
      rc_written c' = rc_written c @ frame \<and> read_request P frame = Some (hb, rb, bytes) \<and>
      marshal_header P header = Inr hb \<and> rh_call_id header = i \<and> rh_method_name header = rpc_name rpc \<and>
      map_of (rc_sent c') i = Some rpc' \<and>
      serialize_rpc order expired rpc = Ok (rpc', request, cells) \<and> marshal_request P request = Inr rb \<and>
      (case cells of
         None \<Rightarrow> bytes = [] \<and> rh_cell_block_len header = None
       | Some (cbs, len) \<Rightarrow>
           bytes = (case rc_compressor c of None \<Rightarrow> concat cbs | Some C \<Rightarrow> compressCellblocks C cbs len) \<and>
           map_option unat (rh_cell_block_len header) = Some (length bytes))) \<and>
    (\<forall>header request cells p. request_frame P header request cells \<noteq> Panic p)"
proof -
  obtain fr h hb rb bytes where w: "rc_written c' = rc_written c @ fr" "read_request P fr = Some (hb, rb, bytes)"
      "marshal_header P h = Inr hb" "request_of P order expired (rc_compressor c) rpc (i, rpc') (h, rb, bytes)"
    using assms by (rule send_frame)
  moreover have "map_of (rc_sent c') i = Some rpc'" by (rule send_registered [OF assms(3)])
  ultimately show ?thesis using protobuf.request_frame_no_panic [OF assms(1)]
    unfolding request_of_def by fastforce
qed

text \<open>A runtime with the varints of protobuf, seven bits in each byte, and messages of a few bytes.\<close>

fun varint :: "nat \<Rightarrow> bytes" where
  "varint n = (if n < 128 then [word_of_nat n] else word_of_nat (n mod 128 + 128) # varint (n div 128))"

declare varint.simps [simp del]

fun read_varint :: "bytes \<Rightarrow> (nat \<times> bytes) option" where
  "read_varint [] = None"
| "read_varint (b # bs) =
     (if unat b < 128 then Some (unat b, bs)
      else map_option (\<lambda>(n, rest). (unat b - 128 + 128 * n, rest)) (read_varint bs))"

lemma read_varint_varint: "read_varint (varint n @ rest) = Some (n, rest)"
proof (induction n rule: varint.induct)
  case (1 n)
  have u: "unat (word_of_nat m :: byte) = m" if "m < 256" for m using that by (simp add: unat_of_nat)
  have "unat (word_of_nat (n mod 128 + 128) :: byte) = n mod 128 + 128" by (rule u) simp
  moreover have "n < 128 \<Longrightarrow> unat (word_of_nat n :: byte) = n" by (rule u) simp
  ultimately show ?case using 1 by (subst varint.simps) (auto simp del: of_nat_add)
qed

definition header_bytes :: "request_header \<Rightarrow> bytes" where
  "header_bytes h = put_uint32 (rh_call_id h) @ [if rh_request_param h then 1 else 0] @
     (case rh_cell_block_len h of None \<Rightarrow> 0 # put_uint32 0 | Some n \<Rightarrow> 1 # put_uint32 n) @ str (rh_method_name h)"

definition read_header :: "bytes \<Rightarrow> request_header option" where
  "read_header b =
     (case ((uint32 (take 4 b), uint32 (take 4 (drop 6 b))) :: (unit, u32) outcome \<times> (unit, u32) outcome) of
        (Ok i, Ok n) \<Rightarrow> Some \<lparr>rh_method_name = map (char_of \<circ> unat) (drop 10 b), rh_request_param = b ! 4 = 1,
          rh_cell_block_len = if b ! 5 = 0 then None else Some n, rh_call_id = i\<rparr>
      | _ \<Rightarrow> None)"

lemma read_header_bytes: "read_header (header_bytes h) = Some h"
proof -
  have s: "map (char_of \<circ> unat) (str t) = t" for t by (simp add: str_def map_idI unat_char_byte)
  show ?thesis
    by (cases h; cases "rh_cell_block_len h") (auto simp: read_header_def header_bytes_def s nth_append)
qed

definition plain_proto :: proto_ops where
  "plain_proto = sample_proto\<lparr>marshal_header := \<lambda>h. Inr (header_bytes h), size_header := \<lambda>h. length (header_bytes h),
     append_varint := varint, size_varint := \<lambda>n. length (varint n),
     consume_bytes := \<lambda>b. case read_varint b of
        None \<Rightarrow> Inl ''EOF''
      | Some (n, rest) \<Rightarrow>
          if length rest < n then Inl ''EOF'' else Inr (take n rest, length b - length rest + n)\<rparr>"

interpretation plain: protobuf plain_proto
  by unfold_locales (auto simp: plain_proto_def sample_proto_def read_varint_varint)

lemma plain_header: "marshal_header plain_proto h = Inr hb \<Longrightarrow> read_header hb = Some h"
  by (auto simp: plain_proto_def read_header_bytes)

lemma plain_send:
  fixes c :: client and k x
  defines "i \<equiv> rc_id c + 1" and "rpc \<equiv> Single (NewClusterStatus k x)"
  shows "\<exists>fr c'. send plain_proto id (\<lambda>_. False) True True rpc c = Ok (i, rpc, None, c') \<and>
    rc_written c' = rc_written c @ fr \<and> length fr = 33"
proof -
  let ?h = "\<lparr>rh_method_name = rpc_name rpc, rh_request_param = True, rh_cell_block_len = None, rh_call_id = i\<rparr>"
  have n: "length (header_bytes ?h) = 26" by (simp add: header_bytes_def rpc_def NewClusterStatus_def str_def)
  then have "\<exists>fr. request_frame plain_proto ?h r None = Ok fr \<and> length fr = 33" for r
    by (simp add: request_frame_def plain_proto_def sample_proto_def varint.simps Let_def)
  then obtain fr where fr: "request_frame plain_proto ?h r None = Ok (fr r)" "length (fr r) = 33" for r by metis
  then show ?thesis
    by (simp add: send_def rpc_def i_def NewClusterStatus_def compress_request_def registerRPC_def write_request_def
        inFlightUp_def Let_def)
qed

theorem send_wire_format_witness:
  "\<exists>rpc' res c' h hb rb. send plain_proto id (\<lambda>_. False) True True (Single sample_status) sample_client = Ok (1, rpc', res, c') \<and>
    read_request plain_proto (rc_written c') = Some (hb, rb, []) \<and> read_header hb = Some h \<and> rh_call_id h = 1"
proof -
  have w: "rc_written sample_client = []" "rc_id sample_client = 0" by (simp_all add: sample_client_def NewClient_def)
  then obtain fr c' where s: "send plain_proto id (\<lambda>_. False) True True (Single sample_status) sample_client = Ok (1, Single sample_status, None, c')"
      "rc_written c' = fr" "length fr = 33"
    using plain_send [of 5 0 sample_client] by (auto simp: sample_status_def)
  have "serialize_rpc id (\<lambda>_. False) (Single sample_status) = Ok (rpc', r, cells) \<Longrightarrow> cells = None" for rpc' r cells
    by (simp add: sample_status_def NewClusterStatus_def)
  moreover have "rc_written c' \<noteq> rc_written sample_client" "length (rc_written c') < length (rc_written sample_client) + 2 ^ 32"
    using s(2,3) w by auto
  ultimately show ?thesis
    using send_wire_format [OF plain.protobuf_axioms _ s(1)] s(1,2) w plain_header by fastforce
qed

end
