(* ===== verification/Exchange.thy ===== *)
theory Exchange
  imports Responses Wire
begin

text \<open>
  A whole exchange on the connection to a server (\<^verbatim>\<open>send\<close>, \<^verbatim>\<open>receiveRPCs\<close> and \<^verbatim>\<open>receive\<close> of
  \<^verbatim>\<open>src/region/client.go\<close> together): calls are sent one after the other, a server reads the requests off
  the bytes that were written and answers each under the ID in its header, in whatever order, and
  the client reads the answers.
\<close>

section \<open>The server\<close>

text \<open>A server can read the header that the client's runtime wrote: protobuf decodes what it encodes.\<close>

locale protobuf_server = protobuf +
  fixes dec :: "bytes \<Rightarrow> request_header option"
  assumes decode: "marshal_header P h = Inr hb \<Longrightarrow> dec hb = Some h"

text \<open>It reads frame after frame.\<close>

fun read_requests :: "proto_ops \<Rightarrow> (bytes \<Rightarrow> request_header option) \<Rightarrow> bytes \<Rightarrow> (request_header \<times> bytes \<times> bytes) list option" where
  "read_requests P dec [] = Some []"
| "read_requests P dec (x # xs) =
     (case (uint32 (take 4 (x # xs)) :: (unit, u32) outcome) of
        Ok n \<Rightarrow>
          (case read_request P (take (4 + unat n) (x # xs)) of
             None \<Rightarrow> None
           | Some (hb, rb, cells) \<Rightarrow>
               (case dec hb of
                  None \<Rightarrow> None
                | Some h \<Rightarrow> map_option (Cons (h, rb, cells)) (read_requests P dec (drop (4 + unat n) (x # xs)))))
      | _ \<Rightarrow> None)"

lemma read_requests_frame:
  assumes "read_request P fr = Some (hb, rb, cells)" "dec hb = Some h"
  shows "read_requests P dec (fr @ rest) = map_option (Cons (h, rb, cells)) (read_requests P dec rest)"
proof -
  obtain n where n: "(uint32 (take 4 fr) :: (unit, u32) outcome) = Ok n" "unat n = length (drop 4 fr)"
    using assms(1) by (auto simp: read_request_def split: outcome.splits if_splits)
  then have l: "4 \<le> length fr" by (auto simp: uint32_def split: if_splits)
  then obtain x xs where fr: "fr @ rest = x # xs" by (cases fr) auto
  have "take 4 (fr @ rest) = take 4 fr" "take (4 + unat n) (fr @ rest) = fr" "drop (4 + unat n) (fr @ rest) = rest"
    using l n(2) by simp_all
  then show ?thesis using assms n(1) unfolding fr by (simp del: take_Suc_Cons drop_Suc_Cons take_append drop_append add: take_Cons' drop_Cons')
qed

section \<open>Sending several calls\<close>

fun send_all ::
  "proto_ops \<Rightarrow> (region_map \<Rightarrow> region_map) \<Rightarrow> (nat \<Rightarrow> bool) \<Rightarrow> rpc list \<Rightarrow> client
     \<Rightarrow> (rpc_error, (u32 \<times> rpc) list \<times> client) outcome" where
  "send_all P order expired [] c = Ok ([], c)"
| "send_all P order expired (rpc # rpcs) c =
     and_then (send P order expired True True rpc c) (\<lambda>(i, rpc', res, c1).
       case res of
         Some e \<Rightarrow> Err e
       | None \<Rightarrow> and_then (send_all P order expired rpcs c1) (\<lambda>(sent, c2). Ok ((i, rpc') # sent, c2)))"

lemma send_state:
  assumes "send P order expired True True rpc c = Ok (i, rpc', None, c')"
  obtains fr where "rc_written c' = rc_written c @ fr" "fr \<noteq> []" "i = rc_id c + 1" "rc_id c' = i"
    "rc_sent c' = (i, rpc') # filter (\<lambda>e. fst e \<noteq> i) (rc_sent c)" "rc_inFlight c' = rc_inFlight c + 1"
    "rc_compressor c' = rc_compressor c" "rc_done c' = rc_done c" "rc_returned c' = rc_returned c"
proof -
  obtain request cells c1 header where w: "write_request P True True header request cells c1 = Ok (None, c')"
      and c1: "(i, c1) = registerRPC rpc' c"
    using assms by (auto simp: send_def Let_def registerRPC_def elim!: ok_elims)
  then obtain fr where fr: "request_frame P header request cells = Ok fr" "c' = snd (inFlightUp True (c1\<lparr>rc_written := rc_written c1 @ fr\<rparr>))"
    by (auto simp: write_request_def inFlightUp_def Let_def split: outcome.splits)
  have "put_uint32 x \<noteq> []" for x using length_put_uint(2) [of x] by fastforce
  then have "fr \<noteq> []" using fr(1) by (auto simp: request_frame_def Let_def split: sum.splits if_splits)
  then show thesis using that fr(2) c1 by (auto simp: registerRPC_def inFlightUp_def Let_def)
qed

lemma send_appends:
  assumes "send P order expired True True rpc c = Ok (i, rpc', None, c')"
  shows "length (rc_written c) < length (rc_written c')" "rc_compressor c' = rc_compressor c"
  using assms by (auto elim: send_state)

lemma send_all_ConsE:
  assumes "send_all P order expired (rpc # rpcs) c = Ok (sent, c')"
  obtains i rpc' c1 sent' where "send P order expired True True rpc c = Ok (i, rpc', None, c1)"
    "send_all P order expired rpcs c1 = Ok (sent', c')" "sent = (i, rpc') # sent'"
  using assms by (auto elim!: ok_elims split: option.splits)

lemma send_all_written: "send_all P order expired rpcs c = Ok (sent, c') \<Longrightarrow> length (rc_written c) \<le> length (rc_written c')"
proof (induction rpcs arbitrary: c sent)
  case (Cons rpc rpcs)
  from Cons.prems show ?case
    by (rule send_all_ConsE) (force dest: Cons.IH elim!: send_state)
qed simp

text \<open>
  While IDs do not wrap around, each call has its own entry in the table, and the server reads the
  requests in the order of the calls.
\<close>

lemma send_all_state:
  assumes "send_all P order expired rpcs c = Ok (sent, c')" "unat (rc_id c) + length rpcs < 2 ^ 32"
    "\<forall>e \<in> set (rc_sent c). unat (fst e) \<le> unat (rc_id c)"
  shows "length sent = length rpcs \<and> rc_sent c' = rev sent @ rc_sent c \<and>
    map (unat \<circ> fst) sent = [Suc (unat (rc_id c))..<Suc (unat (rc_id c) + length rpcs)] \<and>
    rc_inFlight c' = rc_inFlight c + word_of_nat (length rpcs) \<and> rc_compressor c' = rc_compressor c \<and>
    rc_done c' = rc_done c \<and> rc_returned c' = rc_returned c"
  using assms
proof (induction rpcs arbitrary: c sent)
  case (Cons rpc rpcs)
  obtain i rpc' c1 sent' where s: "send P order expired True True rpc c = Ok (i, rpc', None, c1)"
      "send_all P order expired rpcs c1 = Ok (sent', c')" "sent = (i, rpc') # sent'"
    using Cons.prems(1) by (rule send_all_ConsE)
  obtain fr where c1: "rc_written c1 = rc_written c @ fr" "i = rc_id c + 1" "rc_id c1 = i"
    "rc_sent c1 = (i, rpc') # filter (\<lambda>e. fst e \<noteq> i) (rc_sent c)" "rc_inFlight c1 = rc_inFlight c + 1"
    "rc_compressor c1 = rc_compressor c" "rc_done c1 = rc_done c" "rc_returned c1 = rc_returned c"
    using send_state [OF s(1)] by metis
  have i: "unat i = Suc (unat (rc_id c))" using Cons.prems(2) c1(2) by (simp add: unat_word_ariths)
  then have f: "filter (\<lambda>e. fst e \<noteq> i) (rc_sent c) = rc_sent c" using Cons.prems(3) by (fastforce simp: filter_id_conv)
  have "unat (rc_id c1) + length rpcs < 2 ^ 32" "\<forall>e \<in> set (rc_sent c1). unat (fst e) \<le> unat (rc_id c1)"
    using Cons.prems(2,3) c1(3,4) i f by fastforce+
  note IH = Cons.IH [OF s(2) this]
  then show ?case using s(3) c1 i f by (auto simp: upt_rec add_ac simp del: upt_Suc)
qed simp

context protobuf_server
begin

lemma send_all_read:
  assumes "\<forall>xs. mset (order xs) = mset xs" "send_all P order expired rpcs c = Ok (sent, c')"
    and "length (rc_written c') < length (rc_written c) + 2 ^ 32"
  shows "\<exists>fr reqs. rc_written c' = rc_written c @ fr \<and> read_requests P dec fr = Some reqs \<and> length reqs = length rpcs \<and>
    length sent = length rpcs \<and> (\<forall>k < length rpcs. request_of P order expired (rc_compressor c) (rpcs ! k) (sent ! k) (reqs ! k))"
  using assms(2,3)
proof (induction rpcs arbitrary: c sent)
  case (Cons rpc rpcs)
  obtain i rpc' c1 sent' where s: "send P order expired True True rpc c = Ok (i, rpc', None, c1)"
      "send_all P order expired rpcs c1 = Ok (sent', c')" "sent = (i, rpc') # sent'"
    using Cons.prems(1) by (rule send_all_ConsE)
  have c1: "length (rc_written c1) \<le> length (rc_written c')" "length (rc_written c) \<le> length (rc_written c1)"
      "rc_compressor c1 = rc_compressor c" "rc_written c1 \<noteq> rc_written c"
    using send_all_written [OF s(2)] send_appends [OF s(1)] by auto
  obtain fr h hb rb bytes where f: "rc_written c1 = rc_written c @ fr" "read_request P fr = Some (hb, rb, bytes)"
      "marshal_header P h = Inr hb" "request_of P order expired (rc_compressor c) rpc (i, rpc') (h, rb, bytes)"
    by (rule send_frame [OF protobuf_axioms assms(1) s(1) c1(4)]) (use Cons.prems(2) c1(1) in auto)
  obtain fr' reqs where r: "rc_written c' = rc_written c1 @ fr'" "read_requests P dec fr' = Some reqs" "length reqs = length rpcs"
      "length sent' = length rpcs" "\<forall>k < length rpcs. request_of P order expired (rc_compressor c1) (rpcs ! k) (sent' ! k) (reqs ! k)"
    using Cons.IH [OF s(2)] Cons.prems(2) c1(2) by auto
  have "read_requests P dec (fr @ fr') = Some ((h, rb, bytes) # reqs)"
    using read_requests_frame [OF f(2), of dec h fr'] decode [OF f(3)] r(2) by simp
  moreover have "\<forall>k < length (rpc # rpcs). request_of P order expired (rc_compressor c) ((rpc # rpcs) ! k) (sent ! k) (((h, rb, bytes) # reqs) ! k)"
    using f(4) r(5) s(3) c1(3) by (auto simp: less_Suc_eq_0_disj)
  ultimately show ?case using f(1) r(1,3,4) s(3)
    by (intro exI [of _ "fr @ fr'"] exI [of _ "(h, rb, bytes) # reqs"]) simp
qed simp

end

section \<open>The exchange\<close>

lemma wire_replies: "wire (map (\<lambda>k. (f k, b k, g k)) p) = concat (map (\<lambda>k. frame (b k)) p)"
  by (induction p) auto

text \<open>The reader's part: every call in the table is answered, and the answers are taken in some order.\<close>

lemma replies_delivered:
  assumes "rc_sent c = rev sent" "distinct (map fst sent)" "rc_inFlight c = word_of_nat (length sent)" "\<not> rc_done c"
    and p: "mset p = mset [0..<length sent]"
    and a: "\<forall>k < length sent. answers P (rc_compressor c) (fst (sent ! k)) (reply k) (snd (sent ! k)) (resp k)"
    and t: "length turns = length sent" "\<forall>(expired, down_ok) \<in> set turns. down_ok \<and> (\<forall>e \<in> set sent. \<not> rpc_expired expired (snd e))"
  shows "\<exists>c'. receiveRPCs P turns (concat (map (\<lambda>k. frame (reply k)) p)) c = Ok (Some [], c') \<and>
    rc_returned c' = rc_returned c @ map (\<lambda>k. (snd (sent ! k), Inr (Some (resp k)))) p \<and>
    rc_sent c' = [] \<and> rc_inFlight c' = 0 \<and> (sent \<noteq> [] \<longrightarrow> \<not> rc_deadline c')"
proof -
  let ?rs = "map (\<lambda>k. (fst (sent ! k), reply k, snd (sent ! k), resp k)) p"
  have p': "set p = {..<length sent}" "distinct p" "length p = length sent"
    using mset_eq_setD [OF p] mset_eq_imp_distinct_iff [OF p] mset_eq_length [OF p] by auto
  have "map_of (rc_sent c) (fst (sent ! k)) = Some (snd (sent ! k))" if "k < length sent" for k
    using that assms(1,2) by (simp add: map_of_eq_Some_iff rev_map [symmetric])
  then have "\<forall>(i, b, rpc, resp) \<in> set ?rs. answers P (rc_compressor c) i b rpc resp \<and> map_of (rc_sent c) i = Some rpc \<and>
      (\<forall>(expired, down_ok) \<in> set turns. \<not> rpc_expired expired rpc)"
    using a t(2) p'(1) by fastforce
  moreover have "distinct (map fst ?rs)"
    using p' inj_on_nth [OF assms(2), of "set p"] by (auto simp: distinct_map inj_on_def)
  moreover have "\<forall>(expired, down_ok) \<in> set turns. down_ok" "length turns = length ?rs" using t p'(3) by auto
  ultimately obtain c' where c': "receiveRPCs P turns (wire ?rs @ []) c = Ok (Some [], c')"
      "rc_returned c' = rc_returned c @ map (\<lambda>(i, b, rpc, resp). (rpc, Inr (Some resp))) ?rs"
      "rc_sent c' = filter (\<lambda>e. fst e \<notin> fst ` set ?rs) (rc_sent c)" "counted_down c c' (length ?rs)"
    using responses_matched [of ?rs P c turns "[]"] assms(4) by blast
  have "fst e \<in> fst ` set ?rs" if "e \<in> set sent" for e
    using that p'(1) by (force simp: in_set_conv_nth)
  then have "rc_sent c' = []" using c'(3) assms(1) by (auto simp: filter_empty_conv)
  then show ?thesis using c' assms(3) p'(3) by (auto simp: wire_replies counted_down_def comp_def)
qed

text \<open>
  C13. A call gets the answer to its own request. Calls are sent on an idle connection, and the server
  reads from the bytes exactly these calls, in order, each with its method, its request and its
  cell blocks. When it answers every request it has read, in whatever order, under the ID in
  the header of the request, the reader goroutine gives each call what its answer decodes to, once;
  the table of calls is empty then, no call is in flight and no deadline is left.
\<close>

theorem exchange:
  assumes "protobuf_server P dec" "\<forall>xs. mset (order xs) = mset xs"
    and "rc_sent c = []" "rc_inFlight c = 0" "\<not> rc_done c"
    and "send_all P order expired rpcs c = Ok (sent, c1)"
    and "unat (rc_id c) + length rpcs < 2 ^ 32" "length (rc_written c1) < length (rc_written c) + 2 ^ 32"
  shows "\<exists>reqs. read_requests P dec (drop (length (rc_written c)) (rc_written c1)) = Some reqs \<and> length reqs = length rpcs \<and>
    (\<forall>k < length rpcs. request_of P order expired (rc_compressor c) (rpcs ! k) (sent ! k) (reqs ! k)) \<and>
    (\<forall>p reply resp turns. mset p = mset [0..<length rpcs] \<and>
      (\<forall>k < length rpcs. answers P (rc_compressor c) (rh_call_id (fst (reqs ! k))) (reply k) (snd (sent ! k)) (resp k)) \<and>
      length turns = length rpcs \<and> (\<forall>(expired, down_ok) \<in> set turns. down_ok \<and> (\<forall>e \<in> set sent. \<not> rpc_expired expired (snd e))) \<longrightarrow>
      (\<exists>c2. receiveRPCs P turns (concat (map (\<lambda>k. frame (reply k)) p)) c1 = Ok (Some [], c2) \<and>
        rc_returned c2 = rc_returned c @ map (\<lambda>k. (snd (sent ! k), Inr (Some (resp k)))) p \<and>
        rc_sent c2 = [] \<and> rc_inFlight c2 = 0 \<and> (rpcs \<noteq> [] \<longrightarrow> \<not> rc_deadline c2)))"
proof -
  let ?n = "length rpcs"
  have c1: "length sent = ?n" "rc_sent c1 = rev sent" "map (unat \<circ> fst) sent = [Suc (unat (rc_id c))..<Suc (unat (rc_id c) + ?n)]"
      "rc_inFlight c1 = word_of_nat ?n" "rc_compressor c1 = rc_compressor c" "\<not> rc_done c1" "rc_returned c1 = rc_returned c"
    using send_all_state [OF assms(6,7)] assms(3-5) by auto
  obtain reqs where r: "read_requests P dec (drop (length (rc_written c)) (rc_written c1)) = Some reqs" "length reqs = ?n"
      "\<forall>k < ?n. request_of P order expired (rc_compressor c) (rpcs ! k) (sent ! k) (reqs ! k)"
    using protobuf_server.send_all_read [OF assms(1,2,6,8)] by auto
  have d: "distinct (map fst sent)" using c1(3) by (metis distinct_map distinct_upt map_map)
  have ids: "rh_call_id (fst (reqs ! k)) = fst (sent ! k)" if "k < ?n" for k
    using r(3) that by (auto simp: request_of_def split_beta)
  have n: "rpcs \<noteq> [] \<longleftrightarrow> sent \<noteq> []" using c1(1) by auto
  show ?thesis
    using r replies_delivered [OF c1(2) d _ c1(6)] ids c1(1,4,5,7) n
    by (intro exI [of _ reqs] conjI allI impI) auto
qed

text \<open>A server that answers a request with the ID alone, which the client takes for an empty status.\<close>

definition echo_proto :: proto_ops where
  "echo_proto = plain_proto\<lparr>unmarshal_header := \<lambda>b. case b of [] \<Rightarrow> Inl ''EOF''
     | i # _ \<Rightarrow> Inr \<lparr>rsp_call_id = Some (ucast i), rsp_exception = None, rsp_cell_block_len = None\<rparr>\<rparr>"

interpretation echo: protobuf_server echo_proto read_header
proof unfold_locales
qed (auto simp: echo_proto_def plain_header plain.header_size plain.request_size plain.varint_size plain.consume)

lemma echo_frame: "request_frame echo_proto h r cells = request_frame plain_proto h r cells"
proof -
  have "marshal_header echo_proto = marshal_header plain_proto" "marshal_request echo_proto = marshal_request plain_proto"
      "size_header echo_proto = size_header plain_proto" "size_request echo_proto = size_request plain_proto"
      "append_varint echo_proto = append_varint plain_proto" "size_varint echo_proto = size_varint plain_proto"
    by (simp_all add: echo_proto_def)
  then show ?thesis by (simp only: request_frame_def)
qed

lemma echo_send: "send echo_proto order expired w u rpc c = send plain_proto order expired w u rpc c"
  by (simp add: send_def write_request_def echo_frame)

lemma echo_sends:
  fixes k x l y
  defines "rpc1 \<equiv> Single (NewClusterStatus k x)" and "rpc2 \<equiv> Single (NewClusterStatus l y)"
  shows "\<exists>c1. send_all echo_proto id (\<lambda>_. False) [rpc1, rpc2] c = Ok ([(rc_id c + 1, rpc1), (rc_id c + 2, rpc2)], c1) \<and>
    length (rc_written c1) = length (rc_written c) + 66"
proof -
  obtain fr c' where a: "send plain_proto id (\<lambda>_. False) True True rpc1 c = Ok (rc_id c + 1, rpc1, None, c')"
      "rc_written c' = rc_written c @ fr" "length fr = 33"
    using plain_send [of k x c] unfolding rpc1_def by blast
  moreover have "rc_id c' = rc_id c + 1" using a(1) by (rule send_state)
  moreover obtain fr2 c1 where "send plain_proto id (\<lambda>_. False) True True rpc2 c' = Ok (rc_id c' + 1, rpc2, None, c1)"
      "rc_written c1 = rc_written c' @ fr2" "length fr2 = 33"
    using plain_send [of l y c'] unfolding rpc2_def by blast
  ultimately show ?thesis by (simp add: echo_send add_ac)
qed

theorem exchange_witness:
  "let status = Inr (Some (Response (AdminResponse (GetClusterStatusResponse None))));
       rpc1 = Single (NewClusterStatus 5 0); rpc2 = Single (NewClusterStatus 6 0) in
   \<exists>c1 c2. send_all echo_proto id (\<lambda>_. False) [rpc1, rpc2] sample_client = Ok ([(1, rpc1), (2, rpc2)], c1) \<and>
     receiveRPCs echo_proto [(\<lambda>_. False, True), (\<lambda>_. False, True)] (frame [1, 2, 0] @ frame [1, 1, 0]) c1 = Ok (Some [], c2) \<and>
     rc_returned c2 = [(rpc2, status), (rpc1, status)] \<and> rc_sent c2 = [] \<and> \<not> rc_deadline c2"
proof -
  let ?rpc1 = "Single (NewClusterStatus 5 0)" and ?rpc2 = "Single (NewClusterStatus 6 0)"
  let ?resp = "Response (AdminResponse (GetClusterStatusResponse None))" and ?c = sample_client
  let ?turns = "[(\<lambda>_ :: nat. False, True), (\<lambda>_ :: nat. False, True)]"
  have c: "rc_sent ?c = []" "rc_inFlight ?c = 0" "\<not> rc_done ?c" "rc_id ?c = 0" "rc_compressor ?c = None" "rc_returned ?c = []"
    by (simp_all add: sample_client_def NewClient_def)
  obtain c1 where s: "send_all echo_proto id (\<lambda>_. False) [?rpc1, ?rpc2] ?c = Ok ([(1, ?rpc1), (2, ?rpc2)], c1)"
      "length (rc_written c1) = length (rc_written ?c) + 66"
    using echo_sends [of 5 0 6 0 ?c] c(4) by auto
  define rpcs sent where "rpcs = [?rpc1, ?rpc2]" and "sent = [(1 :: u32, ?rpc1), (2, ?rpc2)]"
  have n: "length rpcs = 2" by (simp add: rpcs_def)
  have p: "\<forall>xs. mset (id xs) = mset xs" "unat (rc_id ?c) + length rpcs < 2 ^ 32" "length (rc_written c1) < length (rc_written ?c) + 2 ^ 32"
    using c(4) s(2) n by simp_all
  obtain reqs where r: "\<forall>k < 2. request_of echo_proto id (\<lambda>_. False) None (rpcs ! k) (sent ! k) (reqs ! k)"
    and d: "\<forall>p reply resp turns. mset p = mset [0..<2] \<and>
      (\<forall>k < 2. answers echo_proto None (rh_call_id (fst (reqs ! k))) (reply k) (snd (sent ! k)) (resp k)) \<and>
      length turns = 2 \<and> (\<forall>(expired, down_ok) \<in> set turns. down_ok \<and> (\<forall>e \<in> set sent. \<not> rpc_expired expired (snd e))) \<longrightarrow>
      (\<exists>c2. receiveRPCs echo_proto turns (concat (map (\<lambda>k. frame (reply k)) p)) c1 = Ok (Some [], c2) \<and>
        rc_returned c2 = [] @ map (\<lambda>k. (snd (sent ! k), Inr (Some (resp k)))) p \<and>
        rc_sent c2 = [] \<and> rc_inFlight c2 = 0 \<and> (rpcs \<noteq> [] \<longrightarrow> \<not> rc_deadline c2))"
    using exchange [OF echo.protobuf_server_axioms p(1) c(1-3) s(1) [folded rpcs_def sent_def] p(2,3)]
    unfolding n c(5,6) by (elim exE conjE)
  have "answers echo_proto None 1 [1, 1, 0] ?rpc1 ?resp" "answers echo_proto None 2 [1, 2, 0] ?rpc2 ?resp"
    by (simp_all add: answers_def echo_proto_def plain_proto_def sample_proto_def decode_response_def slice_from_def)
  then have "\<forall>k < 2. answers echo_proto None (rh_call_id (fst (reqs ! k))) (if k = 0 then [1, 1, 0] else [1, 2, 0])
      (snd (sent ! k)) ?resp"
    using r by (auto simp: request_of_def split_beta less_2_cases_iff sent_def)
  then have "\<exists>c2. receiveRPCs echo_proto ?turns (concat (map (\<lambda>k. frame (if k = 0 then [1, 1, 0] else [1, 2, 0])) [1, 0 :: nat])) c1 = Ok (Some [], c2) \<and>
      rc_returned c2 = [] @ map (\<lambda>k. (snd (sent ! k), Inr (Some ?resp))) [1, 0] \<and>
      rc_sent c2 = [] \<and> rc_inFlight c2 = 0 \<and> (rpcs \<noteq> [] \<longrightarrow> \<not> rc_deadline c2)"
    by (intro d [rule_format]) (auto simp: numeral_2_eq_2 sent_def NewClusterStatus_def)
  then show ?thesis using s(1) by (auto simp: Let_def sent_def rpcs_def)
qed

end
