(* ===== verification/Key_Region_Cache.thy ===== *)
theory Key_Region_Cache
  imports Region_Info
begin

text \<open>
  The key-to-region cache of \<^verbatim>\<open>src/caches.go\<close> and the cached lookup of
  \<^verbatim>\<open>src/rpc.go\<close>. The cache is a B+tree of \<^verbatim>\<open>modernc.org/b/v2\<close> ordered by
  \<^verbatim>\<open>region.Compare\<close>; the tree is not part of the repository, so its operations are a
  parameter \<open>T\<close> of every definition and its documented behaviour the locale \<open>btree\<close>.
\<close>

section \<open>Search keys\<close>

definition fullyQualifiedTable :: "region \<Rightarrow> bytes" where
  "fullyQualifiedTable r =
     (case ri_namespace r of
        None \<Rightarrow> ri_table r
      | Some namespace \<Rightarrow> namespace @ [colon] @ ri_table r)"

definition MaxInt16 :: int where "MaxInt16 = 32767"

definition createRegionSearchKey :: "bytes \<Rightarrow> bytes \<Rightarrow> ('e, bytes) outcome" where
  "createRegionSearchKey table key =
     (let keylen = MaxInt16 - int (length table) - 3;
          keylen = (if int (length key) < keylen then int (length key) else keylen)
      in if keylen < 0 then Panic IndexOutOfRange
         else Ok (table @ [comma] @ take (nat keylen) key @ [comma] @ [colon]))"

section \<open>The tree's operations\<close>

text \<open>
  \<open>None\<close> from an enumerator is \<^verbatim>\<open>io.EOF\<close>. The callback of \<open>tree_put\<close> receives the
  value stored under the key, if any, and returns the value to write, if any, with the
  variables of the caller it assigns (the overlaps and whether the region was put).
\<close>

type_synonym entry = "bytes \<times> region"
type_synonym put_vars = "region list \<times> bool"

record ('t, 'e) tree_ops =
  tree_len :: "'t \<Rightarrow> nat"
  tree_seek :: "'t \<Rightarrow> bytes \<Rightarrow> 'e \<times> bool"
  tree_seek_first :: "'t \<Rightarrow> 'e option"
  enum_next :: "'e \<Rightarrow> entry option \<times> 'e"
  enum_prev :: "'e \<Rightarrow> entry option \<times> 'e"
  tree_put :: "'t \<Rightarrow> bytes \<Rightarrow> (region option \<Rightarrow> (unit, region option \<times> put_vars) outcome)
                 \<Rightarrow> (unit, 't \<times> put_vars) outcome"
  tree_delete :: "'t \<Rightarrow> bytes \<Rightarrow> 't \<times> bool"

section \<open>keyRegionCache\<close>

definition krc_get :: "('t, 'e) tree_ops \<Rightarrow> 't \<Rightarrow> bytes \<Rightarrow> (unit, entry option) outcome" where
  "krc_get T t key =
     (case tree_seek T t key of (enum, found) \<Rightarrow>
        if found then Panic (Fatal ''got exact match for region search key'')
        else case enum_prev T enum of (kv, _) \<Rightarrow> Ok kv)"

definition isRegionOverlap :: "region \<Rightarrow> region \<Rightarrow> bool" where
  "isRegionOverlap regA regB \<longleftrightarrow>
     case_option [] id (ri_namespace regA) = case_option [] id (ri_namespace regB) \<and>
     ri_table regA = ri_table regB \<and>
     (length (ri_stopKey regB) = 0 \<or> bytes_compare (ri_startKey regA) (ri_stopKey regB) < 0) \<and>
     (length (ri_stopKey regA) = 0 \<or> bytes_compare (ri_stopKey regA) (ri_startKey regB) > 0)"

text \<open>
  The loop of \<^verbatim>\<open>getOverlaps\<close> appends regions until the end of the tree or the first one
  that does not overlap. The fuel is one more than the number of entries, and
  \<open>krc_getOverlaps_list\<close> below shows that this is enough.
\<close>

fun collect_overlaps ::
  "('t, 'e) tree_ops \<Rightarrow> nat \<Rightarrow> region \<Rightarrow> 'e \<Rightarrow> region list \<Rightarrow> (unit, region list) outcome" where
  "collect_overlaps T 0 reg enum overlaps = Panic (Explicit ''out of fuel'')"
| "collect_overlaps T (Suc n) reg enum overlaps =
     (case enum_next T enum of
        (None, _) \<Rightarrow> Ok overlaps
      | (Some (k, v), enum') \<Rightarrow>
          if isRegionOverlap v reg then collect_overlaps T n reg enum' (overlaps @ [v])
          else Ok overlaps)"

text \<open>
  What \<^verbatim>\<open>getOverlaps\<close> does from the first candidate on, which is kept if it overlaps and
  passed over otherwise.
\<close>

definition overlaps_from ::
  "('t, 'e) tree_ops \<Rightarrow> nat \<Rightarrow> region \<Rightarrow> 'e \<Rightarrow> (unit, region list) outcome" where
  "overlaps_from T n reg enum =
     (case enum_next T enum of
        (None, _) \<Rightarrow> Panic (Fatal ''error accessing first region'')
      | (Some (k, v), enum') \<Rightarrow>
          collect_overlaps T n reg enum' (if isRegionOverlap v reg then [v] else []))"

definition krc_getOverlaps ::
  "('t, 'e) tree_ops \<Rightarrow> 't \<Rightarrow> region \<Rightarrow> (unit, region list) outcome" where
  "krc_getOverlaps T t reg =
     (if tree_len T t = 0 then Ok []
      else and_then (createRegionSearchKey (fullyQualifiedTable reg) (ri_startKey reg)) (\<lambda>key.
        case tree_seek T t key of (enum, found) \<Rightarrow>
        if found then Panic (Fatal ''found a region with exact name as the search key'')
        else let enum1 = snd (enum_prev T enum); (kv, enum2) = enum_next T enum1 in
          case kv of
            None \<Rightarrow>
              (case tree_seek_first T t of
                 None \<Rightarrow> Panic (Fatal ''error seeking first region'')
               | Some enum' \<Rightarrow> overlaps_from T (Suc (tree_len T t)) reg enum')
          | Some _ \<Rightarrow> overlaps_from T (Suc (tree_len T t)) reg enum2))"

text \<open>\<^verbatim>\<open>put\<close>: the callback decides, then the replaced regions are deleted and marked dead.\<close>

definition put_callback ::
  "('t, 'e) tree_ops \<Rightarrow> 't \<Rightarrow> region \<Rightarrow> region option \<Rightarrow> (unit, region option \<times> put_vars) outcome" where
  "put_callback T t reg old =
     (case old of
        Some v \<Rightarrow> Ok (None, [v], False)
      | None \<Rightarrow>
          and_then (krc_getOverlaps T t reg) (\<lambda>overlaps.
            if \<exists>ov \<in> set overlaps. ri_id ov > ri_id reg then Ok (None, overlaps, False)
            else Ok (Some reg, overlaps, True)))"

fun delete_overlaps ::
  "('t, 'e) tree_ops \<Rightarrow> region list \<Rightarrow> 't \<Rightarrow> region_heap \<Rightarrow> 't \<times> region_heap" where
  "delete_overlaps T [] t h = (t, h)"
| "delete_overlaps T (ov # ovs) t h =
     delete_overlaps T ovs (fst (tree_delete T t (ri_name ov))) (MarkDead ov h)"

definition krc_put ::
  "('t, 'e) tree_ops \<Rightarrow> region \<Rightarrow> 't \<Rightarrow> region_heap \<Rightarrow> (unit, put_vars \<times> 't \<times> region_heap) outcome" where
  "krc_put T reg t h =
     and_then (tree_put T t (ri_name reg) (put_callback T t reg)) (\<lambda>(t1, overlaps, replaced).
       if \<not> replaced then Ok ((overlaps, replaced), t1, h)
       else Ok ((overlaps, replaced), delete_overlaps T overlaps t1 h))"

definition krc_del ::
  "('t, 'e) tree_ops \<Rightarrow> region \<Rightarrow> 't \<Rightarrow> region_heap \<Rightarrow> bool \<times> 't \<times> region_heap" where
  "krc_del T reg t h =
     (case tree_delete T t (ri_name reg) of (t', success) \<Rightarrow> (success, t', MarkDead reg h))"

text \<open>
  The part of \<^verbatim>\<open>getRegionFromCache\<close> after the admin and meta cases: the cached region
  before the search key, if it is of the table and its stop key is beyond the row.
\<close>

definition cached_region ::
  "('t, 'e) tree_ops \<Rightarrow> 't \<Rightarrow> bytes \<Rightarrow> bytes \<Rightarrow> (unit, region option) outcome" where
  "cached_region T t table key =
     and_then (createRegionSearchKey table key) (\<lambda>regionName.
     and_then (krc_get T t regionName) (\<lambda>kv.
       case kv of
         None \<Rightarrow> Ok None
       | Some (_, reg) \<Rightarrow>
           if fullyQualifiedTable reg \<noteq> table then Ok None
           else if length (ri_stopKey reg) \<noteq> 0 \<and> bytes_compare key (ri_stopKey reg) \<ge> 0 then Ok None
           else Ok (Some reg)))"

section \<open>What the tree promises\<close>

text \<open>
  The reference model of the tree: the entries in the order of \<^verbatim>\<open>region.Compare\<close>. An
  enumerator stands at a position of the entries; \<open>EndOfTree\<close> is sticky. After a
  \<^verbatim>\<open>Seek\<close> that found no equal key the position is that of the first greater entry, and
  \<^verbatim>\<open>Prev\<close> first steps back from it. Both move the enumerator past the entry they return.
\<close>

definition cmp_less :: "bytes \<Rightarrow> bytes \<Rightarrow> bool" where
  "cmp_less a b \<longleftrightarrow> (case (Compare a b :: (unit, int) outcome) of Ok r \<Rightarrow> r < 0 | _ \<Rightarrow> False)"

definition keys_ok :: "entry list \<Rightarrow> bool" where
  "keys_ok xs \<longleftrightarrow> sorted_wrt cmp_less (map fst xs) \<and> (\<forall>n \<in> set (map fst xs). wf_name n)"

definition key_pos :: "bytes \<Rightarrow> entry list \<Rightarrow> nat" where
  "key_pos k xs = length (takeWhile (\<lambda>e. cmp_less (fst e) k) xs)"

definition insert_key :: "bytes \<Rightarrow> region \<Rightarrow> entry list \<Rightarrow> entry list" where
  "insert_key k v xs = takeWhile (\<lambda>e. cmp_less (fst e) k) xs
     @ (k, v) # dropWhile (\<lambda>e. cmp_less (fst e) k \<or> fst e = k) xs"

definition delete_key :: "bytes \<Rightarrow> entry list \<Rightarrow> entry list" where
  "delete_key k xs = filter (\<lambda>e. fst e \<noteq> k) xs"

datatype cursor = EndOfTree | At "entry list" nat bool

fun cur_next :: "cursor \<Rightarrow> entry option \<times> cursor" where
  "cur_next EndOfTree = (None, EndOfTree)"
| "cur_next (At xs i hit) =
     (if i < length xs then (Some (xs ! i), if Suc i < length xs then At xs (Suc i) True else EndOfTree)
      else (None, EndOfTree))"

fun cur_prev :: "cursor \<Rightarrow> entry option \<times> cursor" where
  "cur_prev EndOfTree = (None, EndOfTree)"
| "cur_prev (At xs i hit) =
     (if hit then
        (if i < length xs then (Some (xs ! i), if i = 0 then EndOfTree else At xs (i - 1) True)
         else (None, EndOfTree))
      else if 0 < i \<and> i \<le> length xs
      then (Some (xs ! (i - 1)), if i = 1 then EndOfTree else At xs (i - 2) True)
      else (None, EndOfTree))"

locale btree =
  fixes T :: "('t, 'e) tree_ops"
    and tinv :: "'t \<Rightarrow> bool"
    and entries :: "'t \<Rightarrow> entry list"
    and cur :: "'e \<Rightarrow> cursor"
  assumes keys: "tinv t \<Longrightarrow> keys_ok (entries t)"
    and len: "tinv t \<Longrightarrow> tree_len T t = length (entries t)"
    and seek: "tinv t \<Longrightarrow> wf_name k \<Longrightarrow> map_prod cur id (tree_seek T t k) =
      (At (entries t) (key_pos k (entries t)) (k \<in> fst ` set (entries t)), k \<in> fst ` set (entries t))"
    and seek_first: "tinv t \<Longrightarrow> map_option cur (tree_seek_first T t) =
      (if entries t = [] then None else Some (At (entries t) 0 True))"
    and enum_next: "map_prod id cur (enum_next T e) = cur_next (cur e)"
    and enum_prev: "map_prod id cur (enum_prev T e) = cur_prev (cur e)"
    and put_write: "tinv t \<Longrightarrow> wf_name k \<Longrightarrow> upd (map_of (entries t) k) = Ok (Some v, vars) \<Longrightarrow>
      \<exists>t'. tree_put T t k upd = Ok (t', vars) \<and> tinv t' \<and> entries t' = insert_key k v (entries t)"
    and put_keep: "tinv t \<Longrightarrow> wf_name k \<Longrightarrow> upd (map_of (entries t) k) = Ok (None, vars) \<Longrightarrow>
      \<exists>t'. tree_put T t k upd = Ok (t', vars) \<and> tinv t' \<and> entries t' = entries t"
    and put_panic: "tinv t \<Longrightarrow> wf_name k \<Longrightarrow> upd (map_of (entries t) k) = Panic q \<Longrightarrow>
      tree_put T t k upd = Panic q"
    and put_err: "tinv t \<Longrightarrow> wf_name k \<Longrightarrow> upd (map_of (entries t) k) = Err u \<Longrightarrow>
      tree_put T t k upd = Err u"
    and delete: "tinv t \<Longrightarrow> wf_name k \<Longrightarrow>
      \<exists>t'. tree_delete T t k = (t', k \<in> fst ` set (entries t)) \<and> tinv t'
        \<and> entries t' = delete_key k (entries t)"

text \<open>The reference model as an instance.\<close>

definition list_tree :: "(entry list, cursor) tree_ops" where
  "list_tree = \<lparr>
     tree_len = length,
     tree_seek = (\<lambda>xs k. let found = k \<in> fst ` set xs in (At xs (key_pos k xs) found, found)),
     tree_seek_first = (\<lambda>xs. if xs = [] then None else Some (At xs 0 True)),
     enum_next = cur_next,
     enum_prev = cur_prev,
     tree_put = (\<lambda>xs k upd. and_then (upd (map_of xs k)) (\<lambda>(w, vars).
       case w of None \<Rightarrow> Ok (xs, vars) | Some v \<Rightarrow> Ok (insert_key k v xs, vars))),
     tree_delete = (\<lambda>xs k. (delete_key k xs, k \<in> fst ` set xs))\<rparr>"

lemma list_tree_sel:
  "tree_len list_tree = length"
  "tree_seek list_tree xs k = (At xs (key_pos k xs) (k \<in> fst ` set xs), k \<in> fst ` set xs)"
  "tree_seek_first list_tree xs = (if xs = [] then None else Some (At xs 0 True))"
  "enum_next list_tree = cur_next"
  "enum_prev list_tree = cur_prev"
  "tree_put list_tree xs k upd = and_then (upd (map_of xs k)) (\<lambda>(w, vars).
     case w of None \<Rightarrow> Ok (xs, vars) | Some v \<Rightarrow> Ok (insert_key k v xs, vars))"
  "tree_delete list_tree xs k = (delete_key k xs, k \<in> fst ` set xs)"
  by (simp_all add: list_tree_def Let_def)

lemma cmp_less_name_less: "wf_name a \<Longrightarrow> wf_name b \<Longrightarrow> cmp_less a b \<longleftrightarrow> name_less a b"
  using Compare_wf_names [of a b, where 'e = unit] by (auto simp: cmp_less_def)

text \<open>On well-formed names the tree's order is \<^const>\<open>name_less\<close>.\<close>

lemma keys_ok_Nil [simp]: "keys_ok []"
  by (simp add: keys_ok_def)

lemma keys_ok_Cons [simp]:
  "keys_ok (e # xs) \<longleftrightarrow> wf_name (fst e) \<and> (\<forall>x \<in> set xs. name_less (fst e) (fst x)) \<and> keys_ok xs"
  unfolding keys_ok_def by (auto simp: cmp_less_name_less; metis cmp_less_name_less fst_conv)

lemma keys_ok_wf: "keys_ok xs \<Longrightarrow> e \<in> set xs \<Longrightarrow> wf_name (fst e)"
  by (auto simp: keys_ok_def)

lemma keys_ok_append:
  "keys_ok (xs @ ys) \<longleftrightarrow>
     keys_ok xs \<and> keys_ok ys \<and> (\<forall>x \<in> set xs. \<forall>y \<in> set ys. name_less (fst x) (fst y))"
  by (induction xs) auto

lemma insert_key_simps:
  "insert_key k v [] = [(k, v)]"
  "insert_key k v (e # xs) =
     (if cmp_less (fst e) k then e # insert_key k v xs
      else (k, v) # dropWhile (\<lambda>e. cmp_less (fst e) k \<or> fst e = k) (e # xs))"
  by (simp_all add: insert_key_def)

lemma set_insert_key: "set (insert_key k v xs) \<subseteq> insert (k, v) (set xs)"
  by (auto simp: insert_key_def dest: set_takeWhileD set_dropWhileD)

lemma keys_ok_insert_key:
  assumes "keys_ok xs" "wf_name k"
  shows "keys_ok (insert_key k v xs)"
  using assms(1)
proof (induction xs)
  case Nil
  then show ?case using assms(2) by (simp add: insert_key_simps)
next
  case (Cons e xs)
  let ?P = "\<lambda>e. cmp_less (fst e) k \<or> fst e = k"
  show ?case
  proof (cases "cmp_less (fst e) k")
    case True
    then have "name_less (fst e) k" using Cons.prems assms(2) by (simp add: cmp_less_name_less)
    then show ?thesis using True Cons set_insert_key [of k v xs] by (auto simp: insert_key_simps)
  next
    case False
    have "name_less k (fst e) \<or> k = fst e"
      using False Cons.prems assms(2) name_less_linear [of k "fst e"]
      by (auto simp: cmp_less_name_less)
    then have greater: "name_less k (fst x)" if "x \<in> set (dropWhile ?P (e # xs))" for x
      using that Cons.prems by (auto dest: set_dropWhileD name_less_trans split: if_splits)
    have "keys_ok (takeWhile ?P (e # xs) @ dropWhile ?P (e # xs))"
      using Cons.prems by (simp only: takeWhile_dropWhile_id)
    with greater assms(2) False show ?thesis by (simp add: insert_key_simps keys_ok_append del: dropWhile.simps)
  qed
qed

lemma keys_ok_filter: "keys_ok xs \<Longrightarrow> keys_ok (filter P xs)"
  by (induction xs) auto

lemma keys_ok_delete_key: "keys_ok xs \<Longrightarrow> keys_ok (delete_key k xs)"
  by (simp add: delete_key_def keys_ok_filter)

interpretation list_btree: btree list_tree keys_ok id id
  by unfold_locales
    (auto simp: list_tree_def keys_ok_insert_key keys_ok_delete_key Let_def prod.map_id)

subsection \<open>The cache on any such tree refines the cache on the reference model\<close>

lemma wf_search_key:
  assumes "createRegionSearchKey table key = Ok k" "no_comma table"
  shows "wf_name k"
proof -
  from assms(1) obtain key' where "k = region_name table key' [colon]"
    by (auto simp: createRegionSearchKey_def region_name_def Let_def split: if_splits)
  then show ?thesis using assms(2) by (simp add: no_comma_def)
qed

context btree
begin

lemma seek_eq:
  assumes "tinv t" "wf_name k"
  obtains e where "tree_seek T t k = (e, k \<in> fst ` set (entries t))"
    "cur e = At (entries t) (key_pos k (entries t)) (k \<in> fst ` set (entries t))"
  using seek [OF assms] by (cases "tree_seek T t k") auto

lemma next_eq: "cur_next (cur e) = (fst (tree_ops.enum_next T e), cur (snd (tree_ops.enum_next T e)))"
  by (subst enum_next [symmetric]) (simp add: prod_eq_iff)

lemma prev_eq: "cur_prev (cur e) = (fst (tree_ops.enum_prev T e), cur (snd (tree_ops.enum_prev T e)))"
  by (subst enum_prev [symmetric]) (simp add: prod_eq_iff)

lemma krc_get_refines:
  assumes "tinv t" "wf_name k"
  shows "krc_get T t k = krc_get list_tree (entries t) k"
proof -
  obtain e where e: "tree_seek T t k = (e, k \<in> fst ` set (entries t))"
    "cur e = At (entries t) (key_pos k (entries t)) (k \<in> fst ` set (entries t))"
    using assms by (rule seek_eq)
  show ?thesis using prev_eq [of e]
    by (auto simp: krc_get_def e list_tree_def Let_def split: prod.split)
qed

lemma collect_overlaps_refines:
  "collect_overlaps T n reg e ovs = collect_overlaps list_tree n reg (cur e) ovs"
proof (induction n arbitrary: e ovs)
  case (Suc n)
  show ?case using next_eq [of e] Suc
    by (auto simp: list_tree_def split: prod.split option.split)
qed simp

lemma overlaps_from_refines:
  "overlaps_from T n reg e = overlaps_from list_tree n reg (cur e)"
  using next_eq [of e]
  by (auto simp: overlaps_from_def collect_overlaps_refines list_tree_def
    simp del: collect_overlaps.simps split: prod.split option.split)

lemma krc_getOverlaps_refines:
  assumes "tinv t" "no_comma (fullyQualifiedTable reg)"
  shows "krc_getOverlaps T t reg = krc_getOverlaps list_tree (entries t) reg"
proof (cases "createRegionSearchKey (fullyQualifiedTable reg) (ri_startKey reg) :: (unit, bytes) outcome")
  case (Ok key)
  then have "wf_name key" using assms(2) by (rule wf_search_key)
  with assms(1) obtain e where e: "tree_seek T t key = (e, key \<in> fst ` set (entries t))"
    "cur e = At (entries t) (key_pos key (entries t)) (key \<in> fst ` set (entries t))"
    by (rule seek_eq)
  define e1 where "e1 = snd (tree_ops.enum_prev T e)"
  define e2 where "e2 = snd (tree_ops.enum_next T e1)"
  have start: "cur_prev (cur e) = (fst (tree_ops.enum_prev T e), cur e1)"
    "cur_next (cur e1) = (fst (tree_ops.enum_next T e1), cur e2)"
    by (simp_all add: prev_eq next_eq e1_def e2_def)
  then have "tree_ops.enum_prev list_tree (cur e) = (fst (tree_ops.enum_prev T e), cur e1)"
    "tree_ops.enum_next list_tree (cur e1) = (fst (tree_ops.enum_next T e1), cur e2)"
    by (simp_all add: list_tree_def)
  moreover have "tree_ops.enum_next T e1 = (fst (tree_ops.enum_next T e1), e2)"
    by (simp add: e2_def)
  moreover have "tree_seek list_tree (entries t) key = (cur e, key \<in> fst ` set (entries t))"
    by (simp add: e list_tree_def)
  moreover have "map_option cur (tree_seek_first T t) = tree_seek_first list_tree (entries t)"
    by (simp add: seek_first assms list_tree_def)
  moreover have "tree_len list_tree (entries t) = tree_len T t"
    by (simp add: len assms list_tree_def)
  ultimately show ?thesis
    unfolding krc_getOverlaps_def Ok and_then.simps Let_def e1_def [symmetric]
    by (cases "tree_seek_first T t")
      (auto simp: e(1) e1_def [symmetric] overlaps_from_refines split: option.split)
next
  case (Panic p)
  then show ?thesis using len [OF assms(1)] by (simp add: krc_getOverlaps_def list_tree_def)
next
  case (Err u)
  then show ?thesis using len [OF assms(1)] by (simp add: krc_getOverlaps_def list_tree_def)
qed

end

section \<open>Well-formed regions and what they cover\<close>

text \<open>
  What HBase guarantees of the regions it reports: the name is made of the qualified
  table, the start key and a suffix that starts below \<^verbatim>\<open>:\<close> (a timestamp), it fits in a row
  key, the key range is not empty, and the namespace is separated by the first colon.
\<close>

definition wf_table :: "region \<Rightarrow> bool" where
  "wf_table r \<longleftrightarrow>
     (case ri_namespace r of
        None \<Rightarrow> colon \<notin> set (ri_table r)
      | Some n \<Rightarrow> n \<noteq> [] \<and> colon \<notin> set n)"

definition wf_region :: "region \<Rightarrow> bool" where
  "wf_region r \<longleftrightarrow>
     (case name_parts (ri_name r) of (t, k, s) \<Rightarrow>
        wf_name (ri_name r) \<and> t = fullyQualifiedTable r \<and> k = ri_startKey r \<and> s \<noteq> [] \<and> s < [colon]) \<and>
     int (length (ri_name r)) \<le> MaxInt16 \<and>
     (ri_stopKey r = [] \<or> ri_startKey r < ri_stopKey r) \<and> wf_table r"

definition covers :: "region \<Rightarrow> bytes \<Rightarrow> bytes \<Rightarrow> bool" where
  "covers r table key \<longleftrightarrow>
     fullyQualifiedTable r = table \<and> ri_startKey r \<le> key \<and> (ri_stopKey r = [] \<or> key < ri_stopKey r)"

lemma wf_regionE:
  assumes "wf_region r"
  obtains s where "no_comma (fullyQualifiedTable r)" "no_comma s" "s \<noteq> []" "s < [colon]"
    "ri_name r = region_name (fullyQualifiedTable r) (ri_startKey r) s"
    "name_parts (ri_name r) = (fullyQualifiedTable r, ri_startKey r, s)"
    "int (length (ri_name r)) \<le> MaxInt16" "ri_stopKey r = [] \<or> ri_startKey r < ri_stopKey r"
  using assms unfolding wf_region_def by (auto elim!: wf_nameE)

lemma wf_region_name: "wf_region r \<Longrightarrow> wf_name (ri_name r)"
  by (auto simp: wf_region_def)

lemma append_sep_inj:
  assumes "a @ c # x = b @ c # y" "c \<notin> set a" "c \<notin> set b"
  shows "a = b \<and> x = y"
  using assms by (induction a arbitrary: b) (auto simp: Cons_eq_append_conv append_eq_Cons_conv)

lemma same_table_iff:
  assumes "wf_table a" "wf_table b"
  shows "case_option [] id (ri_namespace a) = case_option [] id (ri_namespace b) \<and> ri_table a = ri_table b
    \<longleftrightarrow> fullyQualifiedTable a = fullyQualifiedTable b"
proof -
  have colon: "colon \<in> set (n @ [colon] @ t)" for n t by simp
  then have mixed: "n @ [colon] @ t \<noteq> u" "u \<noteq> n @ [colon] @ t" if "colon \<notin> set u" for n t u
    using that by metis+
  show ?thesis using assms mixed
    by (cases "ri_namespace a"; cases "ri_namespace b")
      (auto simp: wf_table_def fullyQualifiedTable_def dest: append_sep_inj)
qed

lemma isRegionOverlap_iff:
  assumes "wf_region a" "wf_region b"
  shows "isRegionOverlap a b \<longleftrightarrow> fullyQualifiedTable a = fullyQualifiedTable b \<and>
    (ri_stopKey b = [] \<or> ri_startKey a < ri_stopKey b) \<and>
    (ri_stopKey a = [] \<or> ri_startKey b < ri_stopKey a)"
  using same_table_iff [of a b] assms by (auto simp: isRegionOverlap_def wf_region_def)

lemma isRegionOverlap_covers:
  assumes "wf_region a" "wf_region b"
  shows "isRegionOverlap a b \<longleftrightarrow> (\<exists>t k. covers a t k \<and> covers b t k)"
proof
  assume "isRegionOverlap a b"
  with assms have "covers a (fullyQualifiedTable a) (max (ri_startKey a) (ri_startKey b)) \<and>
    covers b (fullyQualifiedTable a) (max (ri_startKey a) (ri_startKey b))"
    by (auto simp: isRegionOverlap_iff covers_def max_def elim!: wf_regionE)
  then show "\<exists>t k. covers a t k \<and> covers b t k" by blast
next
  assume "\<exists>t k. covers a t k \<and> covers b t k"
  then show "isRegionOverlap a b"
    using assms by (auto simp: isRegionOverlap_iff covers_def)
qed

lemma isRegionOverlap_sym:
  "wf_region a \<Longrightarrow> wf_region b \<Longrightarrow> isRegionOverlap a b \<longleftrightarrow> isRegionOverlap b a"
  by (auto simp: isRegionOverlap_covers)

lemma isRegionOverlap_refl: "wf_region a \<Longrightarrow> isRegionOverlap a a"
  by (auto simp: isRegionOverlap_iff elim: wf_regionE)

section \<open>The cache invariant\<close>

text \<open>
  Entries are stored under their region's name in the tree's order, regions are well
  formed, and no two cached regions overlap.
\<close>

definition cache_inv :: "entry list \<Rightarrow> bool" where
  "cache_inv xs \<longleftrightarrow>
     keys_ok xs \<and> (\<forall>e \<in> set xs. fst e = ri_name (snd e) \<and> wf_region (snd e)) \<and>
     (\<forall>x \<in> set xs. \<forall>y \<in> set xs. x \<noteq> y \<longrightarrow> \<not> isRegionOverlap (snd x) (snd y))"

lemma cache_inv_append1: "cache_inv (xs @ ys) \<Longrightarrow> cache_inv xs \<and> cache_inv ys"
  by (auto simp: cache_inv_def keys_ok_append)

text \<open>The search key of a row splits the entries.\<close>

lemma key_pos_split:
  assumes "keys_ok xs" "wf_name k"
  obtains A B where "xs = A @ B" "key_pos k xs = length A"
    "\<And>e. e \<in> set A \<Longrightarrow> name_less (fst e) k" "\<And>e. e \<in> set B \<Longrightarrow> \<not> name_less (fst e) k"
proof
  let ?A = "takeWhile (\<lambda>e. cmp_less (fst e) k) xs" and ?B = "dropWhile (\<lambda>e. cmp_less (fst e) k) xs"
  show eq: "xs = ?A @ ?B" by simp
  show "key_pos k xs = length ?A" by (simp add: key_pos_def)
  show "name_less (fst e) k" if "e \<in> set ?A" for e
    using set_takeWhileD [OF that] assms keys_ok_wf [of xs e] cmp_less_name_less by blast
  show "\<not> name_less (fst e) k" if e: "e \<in> set ?B" for e
  proof
    assume less: "name_less (fst e) k"
    from e obtain b bs where B: "?B = b # bs" by (cases ?B) auto
    then have "\<not> cmp_less (fst b) k" by (metis hd_dropWhile list.discI list.sel(1))
    moreover have "keys_ok (b # bs)"
      using assms(1) eq B by (metis keys_ok_append)
    ultimately show False
      using e B less assms(2) by (auto simp: cmp_less_name_less dest: name_less_trans)
  qed
qed

text \<open>The search key of a table and row, and where it lies among the names.\<close>

lemma createRegionSearchKey_short:
  assumes "int (length table) + int (length key) + 3 \<le> MaxInt16"
  shows "createRegionSearchKey table key = Ok (region_name table key [colon])"
  using assms by (auto simp: createRegionSearchKey_def region_name_def Let_def)

lemma createRegionSearchKey_prefix:
  assumes "createRegionSearchKey table key = Ok k"
  obtains n where "k = region_name table (take n key) [colon]"
  using assms
  by (auto simp: createRegionSearchKey_def region_name_def Let_def split: if_splits)
    (metis order_refl take_all_iff)

lemma name_less_search_key:
  assumes "wf_region r" "no_comma table"
  shows "name_less (ri_name r) (region_name table key [colon]) \<longleftrightarrow>
    fullyQualifiedTable r < table \<or> (fullyQualifiedTable r = table \<and> ri_startKey r \<le> key)"
  using assms
  by (elim wf_regionE) (auto simp: name_less_def no_comma_def le_less)

lemma search_key_not_stored:
  assumes "cache_inv xs" "no_comma table"
  shows "region_name table key [colon] \<notin> fst ` set xs"
proof
  assume "region_name table key [colon] \<in> fst ` set xs"
  then obtain r where r: "wf_region r" "ri_name r = region_name table key [colon]"
    using assms(1) by (auto simp: cache_inv_def)
  from r(1) obtain s where "s < [colon]" "name_parts (ri_name r) = (fullyQualifiedTable r, ri_startKey r, s)"
    by (rule wf_regionE)
  then show False using r(2) assms(2) by (simp add: no_comma_def)
qed

lemma search_key_split:
  assumes "cache_inv xs" "no_comma table" and k_def: "k = region_name table key [colon]"
  obtains A B where "xs = A @ B" "key_pos k xs = length A"
    "\<And>e. e \<in> set A \<Longrightarrow> fullyQualifiedTable (snd e) < table \<or>
       (fullyQualifiedTable (snd e) = table \<and> ri_startKey (snd e) \<le> key)"
    "\<And>e. e \<in> set B \<Longrightarrow> table < fullyQualifiedTable (snd e) \<or>
       (fullyQualifiedTable (snd e) = table \<and> key < ri_startKey (snd e))"
proof -
  have wf: "wf_name k" using assms(2) by (simp add: k_def no_comma_def)
  have xs: "keys_ok xs" "\<And>e. e \<in> set xs \<Longrightarrow> fst e = ri_name (snd e) \<and> wf_region (snd e)"
    using assms(1) by (auto simp: cache_inv_def)
  obtain A B where AB: "xs = A @ B" "key_pos k xs = length A"
    "\<And>e. e \<in> set A \<Longrightarrow> name_less (fst e) k" "\<And>e. e \<in> set B \<Longrightarrow> \<not> name_less (fst e) k"
    using key_pos_split [OF xs(1) wf] by metis
  have iff: "name_less (fst e) k \<longleftrightarrow> fullyQualifiedTable (snd e) < table \<or>
     (fullyQualifiedTable (snd e) = table \<and> ri_startKey (snd e) \<le> key)" if "e \<in> set xs" for e
    using xs(2) [OF that] name_less_search_key [of "snd e" table key] assms(2) by (simp add: k_def)
  show ?thesis
  proof (rule that [OF AB(1,2)])
    fix e assume "e \<in> set A"
    then show "fullyQualifiedTable (snd e) < table \<or>
       (fullyQualifiedTable (snd e) = table \<and> ri_startKey (snd e) \<le> key)"
      using AB(1) AB(3) [of e] iff [of e] by simp
  next
    fix e assume "e \<in> set B"
    then show "table < fullyQualifiedTable (snd e) \<or>
       (fullyQualifiedTable (snd e) = table \<and> key < ri_startKey (snd e))"
      using AB(1) AB(4) [of e] iff [of e] by auto
  qed
qed

lemma krc_get_list:
  assumes "xs = A @ B" "key_pos k xs = length A" "k \<notin> fst ` set xs"
  shows "krc_get list_tree xs k = Ok (if A = [] then None else Some (last A))"
  using assms
  by (auto simp: krc_get_def list_tree_def Let_def last_conv_nth nth_append split: prod.split)

text \<open>Names of the same table are ordered by their start keys.\<close>

lemma name_less_start:
  assumes "wf_region a" "wf_region b" "name_less (ri_name a) (ri_name b)"
  shows "fullyQualifiedTable a \<le> fullyQualifiedTable b"
    "fullyQualifiedTable a = fullyQualifiedTable b \<Longrightarrow> ri_startKey a \<le> ri_startKey b"
  using assms by (auto simp: name_less_def elim!: wf_regionE)

lemma last_before_search_key:
  assumes inv: "cache_inv (A @ B)" and r: "e \<in> set A" "covers (snd e) table key"
    and A: "\<And>e. e \<in> set A \<Longrightarrow> fullyQualifiedTable (snd e) < table \<or>
       (fullyQualifiedTable (snd e) = table \<and> ri_startKey (snd e) \<le> key)"
  shows "last A = e"
proof (rule ccontr)
  assume neq: "last A \<noteq> e"
  let ?l = "last A"
  have l: "?l \<in> set A" using r by (metis empty_iff last_in_set list.set(1))
  obtain A' where A': "A = A' @ [?l]" using r(1) by (metis append_butlast_last_id empty_iff list.set(1))
  then have "e \<in> set A'" using neq r(1) by (metis Un_iff empty_iff insert_iff list.set set_append)
  moreover have "keys_ok (A' @ [?l])" using inv A' by (metis cache_inv_append1 cache_inv_def)
  ultimately have less: "name_less (fst e) (fst ?l)" by (auto simp: keys_ok_append)
  have wf: "wf_region (snd e)" "wf_region (snd ?l)" "fst e = ri_name (snd e)" "fst ?l = ri_name (snd ?l)"
    using inv r(1) l by (auto simp: cache_inv_def)
  have "fullyQualifiedTable (snd ?l) = table"
    using name_less_start(1) [of "snd e" "snd ?l"] wf less A [OF l] r(2) by (auto simp: covers_def)
  moreover have "ri_startKey (snd e) \<le> ri_startKey (snd ?l)" "ri_startKey (snd ?l) \<le> key"
    using name_less_start(2) [of "snd e" "snd ?l"] wf less A [OF l] r(2) calculation
    by (auto simp: covers_def)
  ultimately have "covers (snd e) table (ri_startKey (snd ?l))" "covers (snd ?l) table (ri_startKey (snd ?l))"
    using r(2) wf(2) by (auto simp: covers_def elim: wf_regionE)
  then have "isRegionOverlap (snd e) (snd ?l)" using wf by (auto simp: isRegionOverlap_covers)
  then show False using inv r(1) l neq by (auto simp: cache_inv_def)
qed

section \<open>Looking a row up\<close>

text \<open>The abstract view of the cache: which region, if any, holds a row of a table.\<close>

definition region_of :: "entry list \<Rightarrow> bytes \<Rightarrow> bytes \<Rightarrow> region option" where
  "region_of xs table key = find (\<lambda>r. covers r table key) (map snd xs)"

lemma covers_unique:
  assumes "cache_inv xs" "a \<in> set xs" "b \<in> set xs" "covers (snd a) t k" "covers (snd b) t k"
  shows "a = b"
proof (rule ccontr)
  assume "a \<noteq> b"
  moreover have "isRegionOverlap (snd a) (snd b)"
    using assms by (subst isRegionOverlap_covers) (auto simp: cache_inv_def)
  ultimately show False using assms by (auto simp: cache_inv_def)
qed

lemma region_of_Some_iff:
  assumes "cache_inv xs"
  shows "region_of xs t k = Some r \<longleftrightarrow> (\<exists>e \<in> set xs. snd e = r \<and> covers r t k)"
proof
  assume "region_of xs t k = Some r"
  then show "\<exists>e \<in> set xs. snd e = r \<and> covers r t k"
    by (auto simp: region_of_def find_Some_iff dest: nth_mem)
next
  assume r: "\<exists>e \<in> set xs. snd e = r \<and> covers r t k"
  then have "region_of xs t k \<noteq> None"
    by (auto simp: region_of_def find_None_iff)
  then obtain r' where r': "region_of xs t k = Some r'" by auto
  then have "\<exists>e \<in> set xs. snd e = r' \<and> covers r' t k"
    by (auto simp: region_of_def find_Some_iff dest: nth_mem)
  with r assms covers_unique have "r = r'" by metis
  with r' show "region_of xs t k = Some r" by simp
qed

lemma region_of_None_iff: "region_of xs t k = None \<longleftrightarrow> (\<forall>e \<in> set xs. \<not> covers (snd e) t k)"
  by (auto simp: region_of_def find_None_iff)

lemma cached_region_eq:
  assumes "cache_inv xs" "no_comma table"
    and "(createRegionSearchKey table key :: (unit, bytes) outcome) = Ok k"
    and "xs = A @ B" "key_pos k xs = length A"
  shows "cached_region list_tree xs table key = Ok
    (if A \<noteq> [] \<and> fullyQualifiedTable (snd (last A)) = table \<and>
        (ri_stopKey (snd (last A)) = [] \<or> key < ri_stopKey (snd (last A)))
     then Some (snd (last A)) else None)"
proof -
  obtain n where "k = region_name table (take n key) [colon]"
    using assms(3) by (rule createRegionSearchKey_prefix)
  then have "k \<notin> fst ` set xs" using search_key_not_stored [OF assms(1,2)] by simp
  with assms(4,5) have "krc_get list_tree xs k = Ok (if A = [] then None else Some (last A))"
    by (rule krc_get_list)
  then show ?thesis using assms(3)
    by (cases "last A") (auto simp: cached_region_def not_le)
qed

lemma cached_region_list:
  assumes inv: "cache_inv xs" and t: "no_comma table"
    and len: "int (length table) + int (length key) + 3 \<le> MaxInt16"
  shows "cached_region list_tree xs table key = Ok (region_of xs table key)"
proof -
  let ?k = "region_name table key [colon]"
  obtain A B where AB: "xs = A @ B" "key_pos ?k xs = length A"
    and A: "\<And>e. e \<in> set A \<Longrightarrow> fullyQualifiedTable (snd e) < table \<or>
       (fullyQualifiedTable (snd e) = table \<and> ri_startKey (snd e) \<le> key)"
    and B: "\<And>e. e \<in> set B \<Longrightarrow> table < fullyQualifiedTable (snd e) \<or>
       (fullyQualifiedTable (snd e) = table \<and> key < ri_startKey (snd e))"
    using search_key_split [OF inv t refl] by metis
  have eq: "cached_region list_tree xs table key = Ok
    (if A \<noteq> [] \<and> fullyQualifiedTable (snd (last A)) = table \<and>
        (ri_stopKey (snd (last A)) = [] \<or> key < ri_stopKey (snd (last A)))
     then Some (snd (last A)) else None)"
    using inv t createRegionSearchKey_short [OF len] AB by (rule cached_region_eq)
  show ?thesis
  proof (cases "region_of xs table key")
    case None
    have "\<not> covers (snd (last A)) table key" if "A \<noteq> []"
      using None that AB(1) by (auto simp: region_of_None_iff)
    moreover have "fullyQualifiedTable (snd (last A)) = table \<longrightarrow> ri_startKey (snd (last A)) \<le> key"
      if "A \<noteq> []" using A [of "last A"] that by auto
    ultimately show ?thesis using None by (auto simp: eq covers_def)
  next
    case (Some r)
    then obtain e where e: "e \<in> set xs" "snd e = r" "covers r table key"
      using region_of_Some_iff [OF inv] by auto
    with B have "e \<in> set A" using AB(1) by (fastforce simp: covers_def)
    then have "last A = e" "A \<noteq> []"
      using last_before_search_key [of A B e table key] A inv AB(1) e by auto
    with e Some show ?thesis by (auto simp: eq covers_def)
  qed
qed

lemma cached_region_sound:
  assumes inv: "cache_inv xs" and t: "no_comma table"
    and res: "cached_region list_tree xs table key = Ok (Some r)"
  shows "region_of xs table key = Some r"
proof -
  obtain k where k: "(createRegionSearchKey table key :: (unit, bytes) outcome) = Ok k"
    using res by (auto simp: cached_region_def)
  then obtain n where kn: "k = region_name table (take n key) [colon]"
    by (rule createRegionSearchKey_prefix)
  obtain A B where AB: "xs = A @ B" "key_pos k xs = length A"
    and A: "\<And>e. e \<in> set A \<Longrightarrow> fullyQualifiedTable (snd e) < table \<or>
       (fullyQualifiedTable (snd e) = table \<and> ri_startKey (snd e) \<le> take n key)"
    using search_key_split [OF inv t kn] by metis
  have "take n key \<le> key" by (metis append_take_drop_id linorder_not_le prefix_not_less)
  moreover have r: "A \<noteq> []" "r = snd (last A)" "fullyQualifiedTable r = table"
    "ri_stopKey r = [] \<or> key < ri_stopKey r"
    using res cached_region_eq [OF inv t k AB] by (auto split: if_splits)
  ultimately have "covers r table key" using A [of "last A"] by (auto simp: covers_def)
  moreover have "last A \<in> set xs" using r AB(1) by simp
  ultimately show ?thesis using region_of_Some_iff [OF inv] r(2) by auto
qed

section \<open>Overlaps\<close>

lemma wf_region_search_key:
  assumes "wf_region r"
  shows "createRegionSearchKey (fullyQualifiedTable r) (ri_startKey r) =
    Ok (region_name (fullyQualifiedTable r) (ri_startKey r) [colon])"
  using assms
proof (elim wf_regionE)
  fix s assume "s \<noteq> []" "int (length (ri_name r)) \<le> MaxInt16"
    "ri_name r = region_name (fullyQualifiedTable r) (ri_startKey r) s"
  then show ?thesis by (intro createRegionSearchKey_short) (cases s; simp add: region_name_def)
qed

text \<open>The loop of \<^verbatim>\<open>getOverlaps\<close> ends within its fuel with the leading overlapping regions.\<close>

lemma collect_overlaps_end: "0 < n \<Longrightarrow> collect_overlaps list_tree n reg EndOfTree ovs = Ok ovs"
  by (cases n) (simp_all add: list_tree_def)

lemma collect_overlaps_list:
  assumes "length xs - i < n"
  shows "collect_overlaps list_tree n reg (At xs i h) ovs =
    Ok (ovs @ takeWhile (\<lambda>v. isRegionOverlap v reg) (map snd (drop i xs)))"
  using assms
proof (induction n arbitrary: i h ovs)
  case (Suc n)
  show ?case
  proof (cases "i < length xs")
    case True
    then have "map snd (drop i xs) = snd (xs ! i) # map snd (drop (Suc i) xs)"
      by (simp add: Cons_nth_drop_Suc [symmetric])
    moreover have "0 < n" using True Suc.prems by simp
    moreover have "drop (Suc i) xs = []" if "\<not> Suc i < length xs" using that by simp
    ultimately show ?thesis using Suc.IH [of "Suc i"] Suc.prems True
      by (cases "xs ! i"; cases "Suc i < length xs") (simp_all add: list_tree_sel collect_overlaps_end)
  qed (simp add: list_tree_sel)
qed simp

lemma overlaps_from_list:
  assumes "i < length xs" "length xs - i < n"
  shows "overlaps_from list_tree n reg (At xs i h) = Ok
    (filter (\<lambda>v. isRegionOverlap v reg) [snd (xs ! i)] @
     takeWhile (\<lambda>v. isRegionOverlap v reg) (map snd (drop (Suc i) xs)))"
proof -
  have "overlaps_from list_tree n reg (At xs i h) = collect_overlaps list_tree n reg
    (if Suc i < length xs then At xs (Suc i) True else EndOfTree)
    (if isRegionOverlap (snd (xs ! i)) reg then [snd (xs ! i)] else [])"
    using assms by (cases "xs ! i") (simp add: overlaps_from_def list_tree_def)
  then show ?thesis using assms
    by (cases "Suc i < length xs") (simp_all add: collect_overlaps_list collect_overlaps_end)
qed

lemma krc_getOverlaps_walk:
  assumes xs: "xs = A @ B" "key_pos k xs = length A" "k \<notin> fst ` set xs" "xs \<noteq> []"
    and k: "(createRegionSearchKey (fullyQualifiedTable reg) (ri_startKey reg) :: (unit, bytes) outcome) = Ok k"
  shows "krc_getOverlaps list_tree xs reg =
    overlaps_from list_tree (Suc (length xs)) reg (At xs (length A - 1) True)"
proof -
  have T: "tree_len list_tree = length" "enum_next list_tree = cur_next" "enum_prev list_tree = cur_prev"
    "tree_seek list_tree xs k = (At xs (length A) False, False)"
    "tree_seek_first list_tree xs = Some (At xs 0 True)"
    using assms by (simp_all add: list_tree_sel)
  have len: "length A \<le> length xs" using xs(1) by simp
  consider "length A = 0" | "length A = 1" | "length A \<ge> 2" by linarith
  then show ?thesis
  proof cases
    case 3
    then have "Suc (length A - 2) = length A - 1" "length A - 2 < length xs" "length A - 1 < length xs"
      using len by linarith+
    with 3 len show ?thesis by (simp add: krc_getOverlaps_def k T xs(4))
  qed (use len in \<open>simp_all add: krc_getOverlaps_def k T xs(4)\<close>)
qed

lemma takeWhile_eq_filter: "sorted_wrt (\<lambda>a b. P b \<longrightarrow> P a) xs \<Longrightarrow> takeWhile P xs = filter P xs"
  by (induction xs) (auto simp: filter_empty_conv)

lemma overlaps_before:
  assumes inv: "cache_inv (A @ B)" and reg: "wf_region reg" and ne: "A \<noteq> []"
    and A: "\<And>e. e \<in> set A \<Longrightarrow> fullyQualifiedTable (snd e) < fullyQualifiedTable reg \<or>
       (fullyQualifiedTable (snd e) = fullyQualifiedTable reg \<and> ri_startKey (snd e) \<le> ri_startKey reg)"
  shows "filter (\<lambda>v. isRegionOverlap v reg) (map snd A) = filter (\<lambda>v. isRegionOverlap v reg) [snd (last A)]"
proof -
  have A': "A = butlast A @ [last A]" using ne by simp
  have "\<not> isRegionOverlap (snd e) reg" if e: "e \<in> set (butlast A)" for e
  proof
    assume ov: "isRegionOverlap (snd e) reg"
    have eA: "e \<in> set A" using e by (rule in_set_butlastD)
    then have "wf_region (snd e)" using inv by (auto simp: cache_inv_def)
    with ov reg A [OF eA] have "covers (snd e) (fullyQualifiedTable reg) (ri_startKey reg)"
      by (auto simp: isRegionOverlap_iff covers_def)
    with inv eA A have "last A = e" by (intro last_before_search_key)
    moreover have "keys_ok (butlast A @ [last A])" using inv A' by (metis cache_inv_append1 cache_inv_def)
    ultimately show False using e by (auto simp: keys_ok_append)
  qed
  then have "filter (\<lambda>v. isRegionOverlap v reg) (map snd (butlast A)) = []" by (auto simp: filter_empty_conv)
  then show ?thesis by (subst A') (simp only: map_append filter_append, simp)
qed

lemma overlaps_after:
  assumes inv: "cache_inv B" and reg: "wf_region reg"
    and B: "\<And>e. e \<in> set B \<Longrightarrow> fullyQualifiedTable reg < fullyQualifiedTable (snd e) \<or>
       (fullyQualifiedTable (snd e) = fullyQualifiedTable reg \<and> ri_startKey reg < ri_startKey (snd e))"
  shows "sorted_wrt (\<lambda>a b. isRegionOverlap b reg \<longrightarrow> isRegionOverlap a reg) (map snd B)"
  using inv B
proof (induction B)
  case (Cons b B)
  have "isRegionOverlap (snd b) reg" if c: "c \<in> set B" "isRegionOverlap (snd c) reg" for c
  proof -
    have wf: "wf_region (snd b)" "wf_region (snd c)" "name_less (ri_name (snd b)) (ri_name (snd c))"
      using Cons.prems(1) c by (auto simp: cache_inv_def)
    have b: "ri_stopKey (snd b) = [] \<or> ri_startKey (snd b) < ri_stopKey (snd b)"
      using wf(1) by (auto elim: wf_regionE)
    from c wf reg have "fullyQualifiedTable (snd c) = fullyQualifiedTable reg"
      "ri_stopKey reg = [] \<or> ri_startKey (snd c) < ri_stopKey reg"
      by (auto simp: isRegionOverlap_iff)
    with name_less_start [OF wf] Cons.prems(2) [of b] b wf reg show ?thesis
      by (auto simp: isRegionOverlap_iff)
  qed
  moreover have "cache_inv B" using Cons.prems(1) cache_inv_append1 [of "[b]" B] by simp
  ultimately show ?case using Cons by auto
qed simp

lemma krc_getOverlaps_list:
  assumes inv: "cache_inv xs" and reg: "wf_region reg"
  shows "krc_getOverlaps list_tree xs reg = Ok (filter (\<lambda>v. isRegionOverlap v reg) (map snd xs))"
proof (cases "xs = []")
  case False
  let ?t = "fullyQualifiedTable reg" and ?ov = "\<lambda>v. isRegionOverlap v reg"
  let ?k = "region_name ?t (ri_startKey reg) [colon]"
  have t: "no_comma ?t" using reg by (auto elim: wf_regionE)
  obtain A B where AB: "xs = A @ B" "key_pos ?k xs = length A"
    and A: "\<And>e. e \<in> set A \<Longrightarrow> fullyQualifiedTable (snd e) < ?t \<or>
       (fullyQualifiedTable (snd e) = ?t \<and> ri_startKey (snd e) \<le> ri_startKey reg)"
    and B: "\<And>e. e \<in> set B \<Longrightarrow> ?t < fullyQualifiedTable (snd e) \<or>
       (fullyQualifiedTable (snd e) = ?t \<and> ri_startKey reg < ri_startKey (snd e))"
    using search_key_split [OF inv t refl] by metis
  have "krc_getOverlaps list_tree xs reg =
    Ok (filter ?ov [snd (xs ! (length A - 1))] @ takeWhile ?ov (map snd (drop (Suc (length A - 1)) xs)))"
    using krc_getOverlaps_walk [OF AB search_key_not_stored [OF inv t] False wf_region_search_key [OF reg]]
      False AB(1) by (subst overlaps_from_list [symmetric, where n = "Suc (length xs)" and h = True])
        (cases A; cases B; auto)+
  moreover have sorted: "sorted_wrt (\<lambda>a b. ?ov b \<longrightarrow> ?ov a) (map snd B)"
    using inv AB(1) reg B by (intro overlaps_after) (auto dest: cache_inv_append1)
  moreover have "filter ?ov [snd b] @ takeWhile ?ov (map snd B') = filter ?ov (map snd B)" if "B = b # B'" for b B'
    using sorted that by (auto simp: takeWhile_eq_filter)
  moreover have "filter ?ov (map snd A) = filter ?ov [snd (last A)]" if "A \<noteq> []"
    using overlaps_before [of A B] inv AB(1) reg A that by blast
  moreover have "takeWhile ?ov (map snd B) = filter ?ov (map snd B)"
    using sorted by (rule takeWhile_eq_filter)
  ultimately show ?thesis using AB(1) False
    by (cases A rule: rev_cases; cases B; auto simp: nth_append)
qed (simp add: krc_getOverlaps_def list_tree_def)

section \<open>Changing the cache\<close>

lemma insert_key_not_stored:
  assumes "keys_ok xs" "wf_name k" "k \<notin> fst ` set xs"
  shows "set (insert_key k v xs) = insert (k, v) (set xs)"
proof -
  have "dropWhile (\<lambda>e. cmp_less (fst e) k \<or> fst e = k) xs = dropWhile (\<lambda>e. cmp_less (fst e) k) xs"
    using assms(3) by (intro dropWhile_cong) auto
  moreover have "set xs = set (takeWhile (\<lambda>e. cmp_less (fst e) k) xs @ dropWhile (\<lambda>e. cmp_less (fst e) k) xs)"
    by simp
  ultimately show ?thesis by (auto simp: insert_key_def simp del: takeWhile_dropWhile_id)
qed

lemma cache_inv_eqI:
  "cache_inv xs \<Longrightarrow> x \<in> set xs \<Longrightarrow> y \<in> set xs \<Longrightarrow> ri_name (snd x) = ri_name (snd y) \<Longrightarrow> x = y"
  unfolding cache_inv_def
  by (metis isRegionOverlap_refl isRegionOverlap_iff wf_regionE prod.inject)

text \<open>The entries after a region replaced those it overlaps.\<close>

definition replace_overlaps :: "region \<Rightarrow> entry list \<Rightarrow> entry list" where
  "replace_overlaps reg xs = filter
     (\<lambda>e. fst e \<notin> ri_name ` {v \<in> snd ` set xs. isRegionOverlap v reg}) (insert_key (ri_name reg) reg xs)"

lemma set_replace_overlaps:
  assumes "cache_inv xs" "wf_region reg" "ri_name reg \<notin> fst ` set xs"
  shows "set (replace_overlaps reg xs) =
    insert (ri_name reg, reg) {e \<in> set xs. \<not> isRegionOverlap (snd e) reg}"
proof -
  have ins: "set (insert_key (ri_name reg) reg xs) = insert (ri_name reg, reg) (set xs)"
    using assms by (intro insert_key_not_stored) (auto simp: cache_inv_def wf_region_name)
  have name: "fst e = ri_name (snd e)" if "e \<in> set xs" for e
    using assms(1) that by (auto simp: cache_inv_def)
  define S where "S = ri_name ` {v \<in> snd ` set xs. isRegionOverlap v reg}"
  have "fst e \<in> S \<longleftrightarrow> isRegionOverlap (snd e) reg" if "e \<in> set xs" for e
    unfolding S_def using cache_inv_eqI [OF assms(1) that] that by (auto simp: name [OF that])
  moreover have "ri_name reg \<notin> S" unfolding S_def using assms(3) name by force
  ultimately show ?thesis unfolding replace_overlaps_def S_def [symmetric] set_filter ins by auto
qed

lemma cache_inv_replace_overlaps:
  assumes "cache_inv xs" "wf_region reg" "ri_name reg \<notin> fst ` set xs"
  shows "cache_inv (replace_overlaps reg xs)"
proof -
  have "keys_ok (replace_overlaps reg xs)"
    unfolding replace_overlaps_def using assms
    by (intro keys_ok_filter keys_ok_insert_key) (auto simp: cache_inv_def wf_region_name)
  moreover have "\<not> isRegionOverlap reg (snd e)" if "e \<in> set xs" "\<not> isRegionOverlap (snd e) reg" for e
    using assms that isRegionOverlap_sym [of "snd e" reg] by (auto simp: cache_inv_def)
  moreover have "\<not> isRegionOverlap (snd x) (snd y)" if "x \<in> set xs" "y \<in> set xs" "x \<noteq> y" for x y
    using assms(1) that by (auto simp: cache_inv_def)
  moreover have "\<forall>e \<in> set xs. fst e = ri_name (snd e) \<and> wf_region (snd e)"
    using assms(1) by (auto simp: cache_inv_def)
  ultimately show ?thesis using assms(2) unfolding cache_inv_def set_replace_overlaps [OF assms] by force
qed

lemma region_of_replace_overlaps:
  assumes "cache_inv xs" "wf_region reg" "ri_name reg \<notin> fst ` set xs"
  shows "region_of (replace_overlaps reg xs) t k =
    (if covers reg t k then Some reg
     else case region_of xs t k of
       None \<Rightarrow> None
     | Some r \<Rightarrow> if isRegionOverlap r reg then None else Some r)"
proof -
  note inv = cache_inv_replace_overlaps [OF assms]
  note mem = set_replace_overlaps [OF assms]
  show ?thesis
  proof (cases "region_of xs t k")
    case None
    then have "\<not> covers (snd e) t k" if "e \<in> set xs" for e
      using that by (simp add: region_of_None_iff)
    then show ?thesis unfolding None
      by (auto simp: region_of_Some_iff [OF inv] region_of_None_iff mem)
  next
    case (Some r)
    then obtain e where e: "e \<in> set xs" "snd e = r" "covers r t k"
      using region_of_Some_iff [OF assms(1)] by auto
    have "e' = e" if "e' \<in> set xs" "covers (snd e') t k" for e'
      using covers_unique [OF assms(1)] that e by blast
    with e have cov: "(\<exists>e \<in> set xs. \<not> isRegionOverlap (snd e) reg \<and> snd e = r' \<and> covers r' t k) \<longleftrightarrow>
      r' = r \<and> \<not> isRegionOverlap r reg" for r' by blast
    have "region_of (replace_overlaps reg xs) t k = Some r' \<longleftrightarrow>
      r' = reg \<and> covers reg t k \<or> r' = r \<and> \<not> isRegionOverlap r reg" for r'
      unfolding region_of_Some_iff [OF inv] mem cov [symmetric] by fastforce
    moreover have "isRegionOverlap r reg" if "covers reg t k"
      using that e assms by (subst isRegionOverlap_covers) (auto simp: cache_inv_def)
    ultimately show ?thesis using Some by (cases "region_of (replace_overlaps reg xs) t k") auto
  qed
qed

lemma cache_inv_delete_key: "cache_inv xs \<Longrightarrow> cache_inv (delete_key k xs)"
  unfolding cache_inv_def using keys_ok_delete_key [of xs k] by (simp add: delete_key_def)

lemma region_of_delete_key:
  assumes "cache_inv xs"
  shows "region_of (delete_key n xs) t k =
    (case region_of xs t k of None \<Rightarrow> None | Some r \<Rightarrow> if ri_name r = n then None else Some r)"
proof -
  have name: "fst e = ri_name (snd e)" if "e \<in> set xs" for e
    using assms that by (auto simp: cache_inv_def)
  have del: "region_of (delete_key n xs) t k = Some r \<longleftrightarrow> region_of xs t k = Some r \<and> ri_name r \<noteq> n" for r
    unfolding region_of_Some_iff [OF assms] region_of_Some_iff [OF cache_inv_delete_key [OF assms]]
    using name by (fastforce simp: delete_key_def)
  show ?thesis
    by (cases "region_of (delete_key n xs) t k"; cases "region_of xs t k") (use del in auto)
qed

lemma isRegionOverlap_name:
  assumes "cache_inv xs" "v \<in> set (filter (\<lambda>v. isRegionOverlap v reg) (map snd xs))"
  shows "wf_name (ri_name v)"
  using assms by (auto simp: cache_inv_def wf_region_name)

subsection \<open>On any tree\<close>

context btree
begin

lemma cached_region_refines:
  assumes "tinv t" "no_comma table"
  shows "cached_region T t table key = cached_region list_tree (entries t) table key"
proof (cases "createRegionSearchKey table key :: (unit, bytes) outcome")
  case (Ok k)
  with assms have "wf_name k" by (intro wf_search_key)
  with assms Ok show ?thesis by (simp add: cached_region_def krc_get_refines)
qed (simp_all add: cached_region_def)

lemma krc_getOverlaps_exact:
  assumes "tinv t" "cache_inv (entries t)" "wf_region reg"
  shows "krc_getOverlaps T t reg = Ok (filter (\<lambda>v. isRegionOverlap v reg) (map snd (entries t)))"
  using assms by (subst krc_getOverlaps_refines) (auto simp: krc_getOverlaps_list elim: wf_regionE)

lemma delete_overlaps_entries:
  assumes "tinv t" "\<And>v. v \<in> set ovs \<Longrightarrow> wf_name (ri_name v)"
  obtains t' where "delete_overlaps T ovs t h = (t', fold MarkDead ovs h)" "tinv t'"
    "entries t' = filter (\<lambda>e. fst e \<notin> ri_name ` set ovs) (entries t)"
  using assms
proof (induction ovs arbitrary: t h thesis)
  case (Cons v ovs)
  obtain t1 where t1: "fst (tree_delete T t (ri_name v)) = t1" "tinv t1"
    "entries t1 = delete_key (ri_name v) (entries t)"
    using delete [of t "ri_name v"] Cons.prems by force
  obtain t' where t': "delete_overlaps T ovs t1 (MarkDead v h) = (t', fold MarkDead ovs (MarkDead v h))"
    "tinv t'" "entries t' = filter (\<lambda>e. fst e \<notin> ri_name ` set ovs) (entries t1)"
    using Cons.IH [of t1 "MarkDead v h"] t1(2) Cons.prems(3) by auto
  show ?case
  proof (rule Cons.prems(1))
    show "entries t' = filter (\<lambda>e. fst e \<notin> ri_name ` set (v # ovs)) (entries t)"
      unfolding t'(3) t1(3) by (auto simp: delete_key_def intro: filter_cong)
  qed (use t1 t' in simp_all)
qed simp

lemma krc_put_stored:
  assumes "tinv t" "wf_region reg" "map_of (entries t) (ri_name reg) = Some v"
  obtains t' where "krc_put T reg t h = Ok (([v], False), t', h)" "tinv t'" "entries t' = entries t"
  using put_keep [of t "ri_name reg" "put_callback T t reg"] assms
  by (fastforce simp: krc_put_def put_callback_def wf_region_name)

lemma krc_put_new:
  assumes t: "tinv t" and inv: "cache_inv (entries t)" and reg: "wf_region reg"
    and new: "ri_name reg \<notin> fst ` set (entries t)"
    and ovs: "ovs = filter (\<lambda>v. isRegionOverlap v reg) (map snd (entries t))"
    and r: "replaced \<longleftrightarrow> (\<forall>v \<in> set ovs. ri_id v \<le> ri_id reg)"
  obtains t' where "tinv t'" "krc_put T reg t h =
      Ok ((ovs, replaced), t', if replaced then fold MarkDead ovs h else h)"
    "entries t' = (if replaced then replace_overlaps reg (entries t) else entries t)"
proof -
  let ?n = "ri_name reg"
  have wf: "wf_name ?n" using reg by (rule wf_region_name)
  have cb: "put_callback T t reg (map_of (entries t) ?n) = Ok (if replaced then Some reg else None, ovs, replaced)"
    using krc_getOverlaps_exact [OF t inv reg] new
    by (auto simp: put_callback_def map_of_eq_None_iff [THEN iffD2] ovs r not_less)
  show thesis
  proof (cases replaced)
    case True
    with cb obtain t1 where t1: "tree_put T t ?n (put_callback T t reg) = Ok (t1, ovs, True)" "tinv t1"
      "entries t1 = insert_key ?n reg (entries t)"
      using put_write [OF t wf, of "put_callback T t reg" reg "(ovs, replaced)"] by auto
    have "wf_name (ri_name v)" if "v \<in> set ovs" for v
      using that ovs inv isRegionOverlap_name by blast
    with t1(2) obtain t' where "delete_overlaps T ovs t1 h = (t', fold MarkDead ovs h)" "tinv t'"
      "entries t' = filter (\<lambda>e. fst e \<notin> ri_name ` set ovs) (entries t1)"
      by (rule delete_overlaps_entries)
    then show thesis using t1 True ovs
      by (intro that [of t']) (auto simp: krc_put_def replace_overlaps_def)
  next
    case False
    with cb obtain t1 where "tree_put T t ?n (put_callback T t reg) = Ok (t1, ovs, False)" "tinv t1"
      "entries t1 = entries t"
      using put_keep [OF t wf, of "put_callback T t reg" "(ovs, replaced)"] by auto
    with False show thesis by (intro that [of t1]) (auto simp: krc_put_def)
  qed
qed

lemma krc_del_entries:
  assumes "tinv t" "wf_region reg"
  obtains t' where "krc_del T reg t h = (ri_name reg \<in> fst ` set (entries t), t', MarkDead reg h)" "tinv t'"
    "entries t' = delete_key (ri_name reg) (entries t)"
  using delete [of t "ri_name reg"] assms by (auto simp: krc_del_def wf_region_name)

end

section \<open>Properties\<close>

text \<open>Two neighbouring regions of a table and one that replaces both, for the witnesses.\<close>

definition sample_left :: region where
  "sample_left = NewInfo 1 1 None (str ''t'') (str ''t,,1.a.'') [] (str ''m'')"

definition sample_right :: region where
  "sample_right = NewInfo 2 2 None (str ''t'') (str ''t,m,2.b.'') (str ''m'') []"

definition sample_merged :: region where
  "sample_merged = NewInfo 3 5 None (str ''t'') (str ''t,,5.c.'') [] []"

definition sample_cache :: "entry list" where
  "sample_cache = [(ri_name sample_left, sample_left), (ri_name sample_right, sample_right)]"

lemmas sample_defs = sample_left_def sample_right_def sample_merged_def sample_cache_def

lemma sample_cache_inv: "keys_ok sample_cache" "cache_inv sample_cache" "wf_region sample_merged"
  "no_comma (str ''t'')" "int (length (str ''t'')) + int (length (str ''k'')) + 3 \<le> MaxInt16"
  by code_simp+

text \<open>
  C2. The cached lookup of a row returns exactly the cached region whose table is the
  requested one and whose key range holds the row, and nothing when no cached region does;
  it never ends the process on an exact match of the search key. This holds on any B-tree
  that behaves as documented, for tables and rows whose search key is not cut.
\<close>

theorem cached_region_exact:
  assumes "btree T tinv entries cur" "tinv t" "cache_inv (entries t)" "no_comma table"
    and "int (length table) + int (length key) + 3 \<le> MaxInt16"
  shows "\<exists>res. cached_region T t table key = Ok res \<and>
    (\<forall>r. res = Some r \<longleftrightarrow> (\<exists>e \<in> set (entries t). snd e = r \<and> covers r table key))"
  using assms btree.cached_region_refines [OF assms(1,2,4)]
  by (simp add: cached_region_list region_of_Some_iff)

theorem cached_region_exact_witness:
  "\<exists>res. cached_region list_tree sample_cache (str ''t'') (str ''k'') = Ok res \<and>
    (\<forall>r. res = Some r \<longleftrightarrow> (\<exists>e \<in> set (id sample_cache). snd e = r \<and> covers r (str ''t'') (str ''k'')))"
  by (rule cached_region_exact [OF list_btree.btree_axioms])
    (simp_all only: id_apply sample_cache_inv)

text \<open>
  A cached lookup is sound even for rows whose search key is cut to fit a row key: the
  region it returns holds the row.
\<close>

theorem cached_region_covers:
  assumes "btree T tinv entries cur" "tinv t" "cache_inv (entries t)" "no_comma table"
    and "cached_region T t table key = Ok (Some r)"
  shows "covers r table key \<and> r \<in> snd ` set (entries t)"
proof -
  have "region_of (entries t) table key = Some r"
    using assms btree.cached_region_refines [OF assms(1,2,4)] by (intro cached_region_sound) simp_all
  then show ?thesis using region_of_Some_iff [OF assms(3)] by auto
qed

theorem cached_region_covers_witness:
  "covers sample_left (str ''t'') (str ''k'') \<and> sample_left \<in> snd ` set (id sample_cache)"
  by (rule cached_region_covers [OF list_btree.btree_axioms])
    (simp_all only: id_apply sample_cache_inv, code_simp)

text \<open>
  The overlaps of a region with the cache are exactly the cached regions that share a
  row with it, in the order of the cache, although the walk over the tree visits only the
  neighbourhood of the search key; the walk ends and neither of its fatal branches is taken.
\<close>

theorem krc_getOverlaps_correct:
  assumes "btree T tinv entries cur" "tinv t" "cache_inv (entries t)" "wf_region reg"
  shows "\<exists>ovs. krc_getOverlaps T t reg = Ok ovs \<and>
    ovs = filter (\<lambda>v. isRegionOverlap v reg) (map snd (entries t)) \<and>
    (\<forall>v. v \<in> set ovs \<longleftrightarrow> v \<in> snd ` set (entries t) \<and> (\<exists>table key. covers v table key \<and> covers reg table key))"
proof -
  have "isRegionOverlap v reg \<longleftrightarrow> (\<exists>table key. covers v table key \<and> covers reg table key)"
    if "v \<in> snd ` set (entries t)" for v
    using that assms by (intro isRegionOverlap_covers) (auto simp: cache_inv_def)
  then show ?thesis using btree.krc_getOverlaps_exact [OF assms] by (simp add: conj_commute) blast
qed

theorem krc_getOverlaps_correct_witness:
  "\<exists>ovs. krc_getOverlaps list_tree sample_cache sample_merged = Ok ovs \<and>
    ovs = filter (\<lambda>v. isRegionOverlap v sample_merged) (map snd (id sample_cache)) \<and>
    (\<forall>v. v \<in> set ovs \<longleftrightarrow> v \<in> snd ` set (id sample_cache) \<and>
      (\<exists>table key. covers v table key \<and> covers sample_merged table key))"
  by (rule krc_getOverlaps_correct [OF list_btree.btree_axioms])
    (simp_all only: id_apply sample_cache_inv)

text \<open>
  C1. Putting a region into the cache, in every case. If a region of the same name is cached,
  that object is returned and nothing changes, so that a region that is looked up twice keeps
  one object. Otherwise the cached regions that overlap the new one are returned, and it takes
  their place exactly when none of them is younger: then the cache holds the region and the
  entries it does not overlap, and the regions it took the place of are marked dead; if one is
  younger, neither the cache nor any region changes. The cache invariant, in particular that
  cached regions do not overlap, is kept.
\<close>

theorem krc_put_correct:
  assumes "btree T tinv entries cur" "tinv t" "cache_inv (entries t)" "wf_region reg"
  shows "\<exists>ovs replaced t' h'. krc_put T reg t h = Ok ((ovs, replaced), t', h') \<and>
    tinv t' \<and> cache_inv (entries t') \<and>
    (case map_of (entries t) (ri_name reg) of
       Some v \<Rightarrow> ovs = [v] \<and> \<not> replaced
     | None \<Rightarrow> ovs = filter (\<lambda>v. isRegionOverlap v reg) (map snd (entries t)) \<and>
         (replaced \<longleftrightarrow> (\<forall>v \<in> set ovs. ri_id v \<le> ri_id reg))) \<and>
    (if replaced
     then set (entries t') = insert (ri_name reg, reg) {e \<in> set (entries t). \<not> isRegionOverlap (snd e) reg} \<and>
       h' = fold MarkDead ovs h
     else entries t' = entries t \<and> h' = h)"
proof (cases "map_of (entries t) (ri_name reg)")
  case (Some v)
  obtain t' where "krc_put T reg t h = Ok (([v], False), t', h)" "tinv t'" "entries t' = entries t"
    by (rule btree.krc_put_stored [OF assms(1,2,4) Some])
  then show ?thesis using assms(3) Some by (intro exI [of _ "[v]"] exI [of _ False]) simp
next
  case None
  then have new: "ri_name reg \<notin> fst ` set (entries t)" by (simp add: map_of_eq_None_iff)
  define ovs where "ovs = filter (\<lambda>v. isRegionOverlap v reg) (map snd (entries t))"
  define replaced where "replaced \<longleftrightarrow> (\<forall>v \<in> set ovs. ri_id v \<le> ri_id reg)"
  obtain t' where t': "tinv t'" "krc_put T reg t h =
      Ok ((ovs, replaced), t', if replaced then fold MarkDead ovs h else h)"
    "entries t' = (if replaced then replace_overlaps reg (entries t) else entries t)"
    by (rule btree.krc_put_new [OF assms new ovs_def replaced_def])
  moreover have "cache_inv (entries t')"
    unfolding t'(3) using cache_inv_replace_overlaps [OF assms(3,4) new] assms(3) by simp
  ultimately show ?thesis
    using set_replace_overlaps [OF assms(3,4) new] ovs_def replaced_def None by (cases replaced) auto
qed

text \<open>Two puts: a region that replaces both cached ones, and one that is cached already.\<close>

theorem krc_put_correct_witness:
  "(\<exists>t' h'. krc_put list_tree sample_merged sample_cache init_heap = Ok (([sample_left, sample_right], True), t', h') \<and>
      set t' = {(ri_name sample_merged, sample_merged)} \<and> h' = fold MarkDead [sample_left, sample_right] init_heap) \<and>
   (\<exists>t' h'. krc_put list_tree sample_left sample_cache init_heap = Ok (([sample_left], False), t', h') \<and>
      t' = sample_cache \<and> h' = init_heap)"
proof -
  note put = krc_put_correct [OF list_btree.btree_axioms, unfolded id_apply, OF sample_cache_inv(1,2)]
  have new: "map_of sample_cache (ri_name sample_merged) = None"
    "filter (\<lambda>v. isRegionOverlap v sample_merged) (map snd sample_cache) = [sample_left, sample_right]"
    "\<forall>v \<in> set [sample_left, sample_right]. ri_id v \<le> ri_id sample_merged"
    "{e \<in> set sample_cache. \<not> isRegionOverlap (snd e) sample_merged} = {}"
    and stored: "map_of sample_cache (ri_name sample_left) = Some sample_left" "wf_region sample_left"
    by code_simp+
  show ?thesis
  proof
    show "\<exists>t' h'. krc_put list_tree sample_merged sample_cache init_heap = Ok (([sample_left, sample_right], True), t', h') \<and>
      set t' = {(ri_name sample_merged, sample_merged)} \<and> h' = fold MarkDead [sample_left, sample_right] init_heap"
      using put [OF sample_cache_inv(3), of init_heap] unfolding new option.case using new(3) by force
    show "\<exists>t' h'. krc_put list_tree sample_left sample_cache init_heap = Ok (([sample_left], False), t', h') \<and>
      t' = sample_cache \<and> h' = init_heap"
      using put [OF stored(2), of init_heap] unfolding stored option.case by force
  qed
qed

text \<open>
  Deleting a region removes exactly the entry of its name, reports whether there was
  one, marks the region dead, and keeps the invariant.
\<close>

theorem krc_del_correct:
  assumes "btree T tinv entries cur" "tinv t" "cache_inv (entries t)" "wf_region reg"
  shows "\<exists>t'. krc_del T reg t h = (ri_name reg \<in> fst ` set (entries t), t', MarkDead reg h) \<and>
    tinv t' \<and> cache_inv (entries t') \<and>
    (\<forall>table key. region_of (entries t') table key =
      (case region_of (entries t) table key of
         None \<Rightarrow> None
       | Some r \<Rightarrow> if ri_name r = ri_name reg then None else Some r))"
  using btree.krc_del_entries [OF assms(1,2,4), where h = h] cache_inv_delete_key [OF assms(3)]
    region_of_delete_key [OF assms(3)] by metis

theorem krc_del_correct_witness:
  "\<exists>t'. krc_del list_tree sample_left sample_cache init_heap =
      (ri_name sample_left \<in> fst ` set (id sample_cache), t', MarkDead sample_left init_heap) \<and>
    keys_ok t' \<and> cache_inv (id t') \<and>
    (\<forall>table key. region_of (id t') table key =
      (case region_of (id sample_cache) table key of
         None \<Rightarrow> None
       | Some r \<Rightarrow> if ri_name r = ri_name sample_left then None else Some r))"
  by (rule krc_del_correct [OF list_btree.btree_axioms])
    (simp_all only: id_apply sample_cache_inv, code_simp)

text \<open>
  After a region replaced those it overlaps, a row of its range is looked up to it, a row
  of a replaced region outside the new range is no longer cached, and every other row is
  looked up as before.
\<close>

theorem krc_put_lookup:
  assumes "btree T tinv entries cur" "tinv t" "cache_inv (entries t)" "wf_region reg"
    and "ri_name reg \<notin> fst ` set (entries t)"
    and put: "krc_put T reg t h = Ok ((ovs, True), t', h')"
  shows "region_of (entries t') table key =
    (if covers reg table key then Some reg
     else case region_of (entries t) table key of
       None \<Rightarrow> None
     | Some r \<Rightarrow> if isRegionOverlap r reg then None else Some r)"
proof -
  have "entries t' = replace_overlaps reg (entries t)"
    by (rule btree.krc_put_new [OF assms(1-5) refl refl, where h = h]) (use put in auto)
  then show ?thesis by (simp add: region_of_replace_overlaps [OF assms(3-5)])
qed

theorem krc_put_lookup_witness:
  "region_of (id (replace_overlaps sample_merged sample_cache)) (str ''t'') (str ''z'') =
    (if covers sample_merged (str ''t'') (str ''z'') then Some sample_merged
     else case region_of (id sample_cache) (str ''t'') (str ''z'') of
       None \<Rightarrow> None
     | Some r \<Rightarrow> if isRegionOverlap r sample_merged then None else Some r)"
proof -
  let ?ovs = "filter (\<lambda>v. isRegionOverlap v sample_merged) (map snd (id sample_cache))"
  have new: "ri_name sample_merged \<notin> fst ` set (id sample_cache)" by (simp only: id_apply) code_simp
  have old: "True \<longleftrightarrow> (\<forall>v \<in> set ?ovs. ri_id v \<le> ri_id sample_merged)" by (simp only: id_apply) code_simp
  have inv: "keys_ok sample_cache" "cache_inv (id sample_cache)"
    by (simp_all only: id_apply sample_cache_inv)
  obtain t' where t': "krc_put list_tree sample_merged sample_cache init_heap =
      Ok ((?ovs, True), t', if True then fold MarkDead ?ovs init_heap else init_heap)"
    "id t' = (if True then replace_overlaps sample_merged (id sample_cache) else id sample_cache)"
    by (rule list_btree.krc_put_new [OF inv sample_cache_inv(3) new refl old])
  show ?thesis
    using krc_put_lookup [OF list_btree.btree_axioms inv sample_cache_inv(3) new t'(1)] t'(2)
    by (simp only: if_True id_apply)
qed

end
