(* ===== verification/Client_Region_Cache.thy ===== *)
theory Client_Region_Cache
  imports Key_Region_Cache
begin

text \<open>
  The client-to-regions cache of \<^verbatim>\<open>src/caches.go\<close> (\<^verbatim>\<open>clientRegionCache\<close>) and the
  debug dumps of both caches. The Go map is an association list in the order in which the
  iteration happens to visit it; the set of regions of a client is a list of regions that
  are distinct as objects. Every operation holds the cache's mutex for its whole body and
  is one atomic step.
\<close>

section \<open>clientRegionCache\<close>

text \<open>A region client as the cache sees it: its identity and its address.\<close>

record client_ref =
  cl_ptr :: nat
  cl_addr :: string

type_synonym client_cache = "(client_ref \<times> region list) list"

definition known :: "region \<Rightarrow> region list \<Rightarrow> bool" where
  "known r rs \<longleftrightarrow> (\<exists>x \<in> set rs. ri_ptr x = ri_ptr r)"

text \<open>
  \<^verbatim>\<open>put\<close>: \<open>c\<close> is the client \<^verbatim>\<open>newClient\<close> makes, and the flag tells whether it was made.
\<close>

definition add_region :: "region \<Rightarrow> region list \<Rightarrow> region list" where
  "add_region r rs = (if known r rs then rs else r # rs)"

definition set_entry :: "client_ref \<Rightarrow> region list \<Rightarrow> client_cache \<Rightarrow> client_cache" where
  "set_entry c rs rcc = (c, rs) # filter (\<lambda>e. cl_ptr (fst e) \<noteq> cl_ptr c) rcc"

definition crc_put ::
  "string \<Rightarrow> region \<Rightarrow> client_ref \<Rightarrow> client_cache \<Rightarrow> client_ref \<times> client_cache" where
  "crc_put addr r newClient rcc =
     (case find (\<lambda>e. addr = cl_addr (fst e)) rcc of
        Some (existingClient, regions) \<Rightarrow>
          (existingClient,
           map (\<lambda>e. if cl_ptr (fst e) = cl_ptr existingClient then (fst e, add_region r (snd e)) else e) rcc)
      | None \<Rightarrow> (newClient, set_entry newClient [r] rcc))"

definition crc_del :: "region \<Rightarrow> client_cache \<Rightarrow> region_heap \<Rightarrow> client_cache \<times> region_heap" where
  "crc_del r rcc h =
     (case Client h r of
        None \<Rightarrow> (rcc, h)
      | Some c \<Rightarrow>
          (map (\<lambda>e. if cl_ptr (fst e) = c
                    then (fst e, filter (\<lambda>x. ri_ptr x \<noteq> ri_ptr r) (snd e)) else e) rcc,
           SetClient r None h))"

text \<open>\<^verbatim>\<open>closeAll\<close>: the last component lists the clients whose \<^verbatim>\<open>Close\<close> was called.\<close>

definition release_region :: "region \<Rightarrow> region_heap \<Rightarrow> region_heap" where
  "release_region r h = SetClient r None (snd (MarkUnavailable r h))"

fun crc_closeAll :: "client_cache \<Rightarrow> region_heap \<Rightarrow> nat list \<Rightarrow> region_heap \<times> nat list" where
  "crc_closeAll [] h closed = (h, closed)"
| "crc_closeAll ((client, regions) # rcc) h closed =
     crc_closeAll rcc (fold release_region regions h) (closed @ [cl_ptr client])"

definition crc_clientDown :: "nat \<Rightarrow> client_cache \<Rightarrow> region list \<times> client_cache" where
  "crc_clientDown c rcc =
     ((case find (\<lambda>e. cl_ptr (fst e) = c) rcc of None \<Rightarrow> [] | Some e \<Rightarrow> snd e),
      filter (\<lambda>e. cl_ptr (fst e) \<noteq> c) rcc)"

section \<open>Debug dumps\<close>

text \<open>
  \<open>fmt\<close> is \<^verbatim>\<open>fmt.Sprintf("%p", \<dots>)\<close>. The maps that the caller passes in are returned updated.
\<close>

fun crc_debugInfo ::
  "(nat \<Rightarrow> string) \<Rightarrow> client_cache \<Rightarrow> (string \<rightharpoonup> region) \<Rightarrow> (string \<rightharpoonup> client_ref)
     \<Rightarrow> (string \<rightharpoonup> string list) \<Rightarrow> (string \<rightharpoonup> region) \<times> (string \<rightharpoonup> client_ref) \<times> (string \<rightharpoonup> string list)" where
  "crc_debugInfo fmt [] regions clients m = (regions, clients, m)"
| "crc_debugInfo fmt ((client, reginfos) # rcc) regions clients m =
     crc_debugInfo fmt rcc
       (fold (\<lambda>r regs. regs(fmt (ri_ptr r) \<mapsto> r)) reginfos regions)
       (clients(fmt (cl_ptr client) \<mapsto> client))
       (m(fmt (cl_ptr client) \<mapsto> map (fmt \<circ> ri_ptr) reginfos))"

text \<open>The loop of \<^verbatim>\<open>keyRegionCache.debugInfo\<close>; the fuel is one more than the number of entries.\<close>

fun debug_walk ::
  "('t, 'e) tree_ops \<Rightarrow> (nat \<Rightarrow> string) \<Rightarrow> nat \<Rightarrow> 'e \<Rightarrow> (string \<rightharpoonup> region) \<Rightarrow> (bytes \<rightharpoonup> string)
     \<Rightarrow> ((string \<rightharpoonup> region) \<times> (bytes \<rightharpoonup> string)) option" where
  "debug_walk T fmt 0 enum regions m = None"
| "debug_walk T fmt (Suc n) enum regions m =
     (case enum_next T enum of
        (None, _) \<Rightarrow> Some (regions, m)
      | (Some (k, v), enum') \<Rightarrow>
          debug_walk T fmt n enum' (regions(fmt (ri_ptr v) \<mapsto> v)) (m(k \<mapsto> fmt (ri_ptr v))))"

definition krc_debugInfo ::
  "('t, 'e) tree_ops \<Rightarrow> (nat \<Rightarrow> string) \<Rightarrow> 't \<Rightarrow> (string \<rightharpoonup> region)
     \<Rightarrow> ((string \<rightharpoonup> region) \<times> (bytes \<rightharpoonup> string)) option" where
  "krc_debugInfo T fmt t regions =
     (case tree_seek_first T t of
        None \<Rightarrow> Some (regions, Map.empty)
      | Some enum \<Rightarrow> debug_walk T fmt (Suc (tree_len T t)) enum regions Map.empty)"

section \<open>Invariant\<close>

text \<open>One entry per client, one client per address, and each region once per client.\<close>

definition crc_inv :: "client_cache \<Rightarrow> bool" where
  "crc_inv rcc \<longleftrightarrow> distinct (map (cl_ptr \<circ> fst) rcc) \<and> distinct (map (cl_addr \<circ> fst) rcc) \<and>
     (\<forall>e \<in> set rcc. distinct (map ri_ptr (snd e)))"

text \<open>The regions of a client, as objects.\<close>

definition regions_of :: "client_cache \<Rightarrow> nat \<Rightarrow> nat set option" where
  "regions_of rcc c = map_option (\<lambda>e. ri_ptr ` set (snd e)) (find (\<lambda>e. cl_ptr (fst e) = c) rcc)"

lemma distinct_map_inj: "distinct (map f xs) \<Longrightarrow> x \<in> set xs \<Longrightarrow> y \<in> set xs \<Longrightarrow> f x = f y \<Longrightarrow> x = y"
  by (auto simp: distinct_map inj_on_def)

lemma crc_inv_client:
  assumes "crc_inv rcc" "x \<in> set rcc" "y \<in> set rcc" "cl_addr (fst x) = cl_addr (fst y)"
  shows "x = y"
  using assms distinct_map_inj [of "cl_addr \<circ> fst" rcc x y] by (simp add: crc_inv_def)

lemma find_eq_SomeI:
  assumes "distinct (map f xs)" "x \<in> set xs" "f x = k"
  shows "find (\<lambda>y. f y = k) xs = Some x"
  using assms by (induction xs) (auto simp: image_iff)

lemma find_SomeD: "find P xs = Some x \<Longrightarrow> x \<in> set xs \<and> P x"
  by (induction xs) (auto split: if_splits)

lemma find_map_same:
  "(\<And>x. P (f x) = P x) \<Longrightarrow> find P (map f xs) = map_option f (find P xs)"
  by (induction xs) auto

lemma find_filter_neq: "find (\<lambda>e. f e = k) (filter (\<lambda>e. f e \<noteq> k) xs) = None"
  by (simp add: find_None_iff)

lemma find_filter_other:
  "k \<noteq> k' \<Longrightarrow> find (\<lambda>e. f e = k) (filter (\<lambda>e. f e \<noteq> k') xs) = find (\<lambda>e. f e = k) xs"
  by (induction xs) auto

lemma known_iff: "known r rs \<longleftrightarrow> ri_ptr r \<in> ri_ptr ` set rs"
  by (metis (no_types, lifting) image_iff known_def)

lemma add_region_ptrs [simp]: "ri_ptr ` set (add_region r rs) = insert (ri_ptr r) (ri_ptr ` set rs)"
  by (auto simp: add_region_def known_iff)

lemma distinct_add_region: "distinct (map ri_ptr rs) \<Longrightarrow> distinct (map ri_ptr (add_region r rs))"
  by (auto simp: add_region_def known_iff)

lemma crc_put_inv:
  assumes "crc_inv rcc" "cl_addr new = addr"
  shows "crc_inv (snd (crc_put addr r new rcc))"
proof (cases "find (\<lambda>e. addr = cl_addr (fst e)) rcc")
  case None
  then have "addr \<noteq> cl_addr (fst e)" if "e \<in> set rcc" for e using that by (cases e) (auto simp: find_None_iff)
  then have "addr \<notin> (cl_addr \<circ> fst) ` set (filter (\<lambda>e. cl_ptr (fst e) \<noteq> cl_ptr new) rcc)" by auto
  moreover have "cl_ptr new \<notin> (cl_ptr \<circ> fst) ` set (filter (\<lambda>e. cl_ptr (fst e) \<noteq> cl_ptr new) rcc)" by auto
  ultimately show ?thesis using assms None
    by (simp add: crc_put_def crc_inv_def set_entry_def distinct_map_filter)
next
  case (Some e)
  let ?f = "\<lambda>x. if cl_ptr (fst x) = cl_ptr (fst e) then (fst x, add_region r (snd x)) else x"
  have eq: "snd (crc_put addr r new rcc) = map ?f rcc"
    using Some by (cases e) (simp add: crc_put_def)
  have "map (cl_ptr \<circ> fst) (map ?f rcc) = map (cl_ptr \<circ> fst) rcc"
    "map (cl_addr \<circ> fst) (map ?f rcc) = map (cl_addr \<circ> fst) rcc" by simp_all
  then show ?thesis using assms(1) unfolding crc_inv_def eq
    by (auto simp: distinct_add_region simp del: map_map)
qed

lemma regions_of_put:
  assumes "crc_put addr r new rcc = (c, rcc')"
  shows "regions_of rcc' c' =
    (if c' = cl_ptr c
     then Some (insert (ri_ptr r) (if find (\<lambda>e. addr = cl_addr (fst e)) rcc = None then {}
                                   else the (regions_of rcc c')))
     else regions_of rcc c')"
proof (cases "find (\<lambda>e. addr = cl_addr (fst e)) rcc")
  case None
  with assms show ?thesis
    by (auto simp: crc_put_def regions_of_def set_entry_def find_filter_other)
next
  case (Some e)
  let ?f = "\<lambda>x. if cl_ptr (fst x) = cl_ptr (fst e) then (fst x, add_region r (snd x)) else x"
  have eq: "rcc' = map ?f rcc" "c = fst e" "e \<in> set rcc"
    using assms Some by (cases e; auto simp: crc_put_def find_Some_iff)+
  have find: "find (\<lambda>e. cl_ptr (fst e) = c') (map ?f rcc) =
    map_option ?f (find (\<lambda>e. cl_ptr (fst e) = c') rcc)" by (rule find_map_same) simp
  show ?thesis
  proof (cases "find (\<lambda>e. cl_ptr (fst e) = c') rcc")
    case None
    then have "c' \<noteq> cl_ptr (fst e)" using eq(3) by (cases e) (auto simp: find_None_iff)
    with None find show ?thesis by (simp add: regions_of_def eq)
  next
    case (Some x)
    then have "cl_ptr (fst x) = c'" by (auto simp: find_Some_iff)
    with Some find \<open>find (\<lambda>e. addr = cl_addr (fst e)) rcc = Some e\<close> show ?thesis
      by (auto simp: regions_of_def eq)
  qed
qed

lemma crc_put_client:
  assumes "crc_put addr r new rcc = (c, rcc')"
  shows "case find (\<lambda>e. addr = cl_addr (fst e)) rcc of
      None \<Rightarrow> c = new
    | Some e \<Rightarrow> c = fst e \<and> e \<in> set rcc \<and> cl_addr c = addr"
  using assms find_SomeD [of "\<lambda>e. addr = cl_addr (fst e)" rcc]
  by (auto simp: crc_put_def split: option.splits prod.splits)

definition ptr_unavailable :: "region_heap \<Rightarrow> nat \<Rightarrow> bool" where
  "ptr_unavailable h p \<longleftrightarrow> rs_available (rh_states h p) \<noteq> None"

lemma release_region:
  "ptr_unavailable (release_region r h) p \<longleftrightarrow> ptr_unavailable h p \<or> p = ri_ptr r"
  "rs_client (rh_states (release_region r h) p) = (if p = ri_ptr r then None else rs_client (rh_states h p))"
  by (auto simp: release_region_def region_heap_defs ptr_unavailable_def)

lemma fold_release_region:
  "ptr_unavailable (fold release_region rs h) p \<longleftrightarrow> ptr_unavailable h p \<or> p \<in> ri_ptr ` set rs"
  "rs_client (rh_states (fold release_region rs h) p) =
     (if p \<in> ri_ptr ` set rs then None else rs_client (rh_states h p))"
  by (induction rs arbitrary: h) (auto simp: release_region)

lemma crc_closeAll_heap:
  assumes "crc_closeAll rcc h closed = (h', closed')"
  shows "closed' = closed @ map (cl_ptr \<circ> fst) rcc"
    "ptr_unavailable h' p \<longleftrightarrow> ptr_unavailable h p \<or> (\<exists>e \<in> set rcc. p \<in> ri_ptr ` set (snd e))"
    "rs_client (rh_states h' p) =
      (if \<exists>e \<in> set rcc. p \<in> ri_ptr ` set (snd e) then None else rs_client (rh_states h p))"
  using assms
  by (induction rcc h closed rule: crc_closeAll.induct) (auto simp: fold_release_region)

lemma debug_walk_list:
  assumes "length xs - i < n"
  shows "debug_walk list_tree fmt n (At xs i hit) regions m =
    Some (fold (\<lambda>(k, v) regs. regs(fmt (ri_ptr v) \<mapsto> v)) (drop i xs) regions,
      fold (\<lambda>(k, v) m. m(k \<mapsto> fmt (ri_ptr v))) (drop i xs) m)"
  using assms
proof (induction n arbitrary: i hit regions m)
  case (Suc n)
  show ?case
  proof (cases "i < length xs")
    case True
    then have "drop i xs = xs ! i # drop (Suc i) xs" by (simp add: Cons_nth_drop_Suc)
    moreover have "debug_walk list_tree fmt n EndOfTree regions m = Some (regions, m)" for regions m
      using True Suc.prems by (cases n) (simp_all add: list_tree_sel)
    ultimately show ?thesis using Suc.IH [of "Suc i"] Suc.prems True
      by (cases "xs ! i"; cases "Suc i < length xs") (simp_all add: list_tree_sel fun_upd_def)
  qed (simp add: list_tree_sel)
qed simp

section \<open>Properties\<close>

text \<open>
  Putting a region under an address returns the cached client of that address if there is
  one and the new client otherwise. Afterwards that client, and no other, has gained the
  region; the clients still have distinct addresses and each region is listed once per client.
\<close>

theorem crc_put_correct:
  assumes "crc_inv rcc" "cl_addr new = addr" "cl_ptr new \<notin> (cl_ptr \<circ> fst) ` set rcc"
  shows "\<exists>c rcc'. crc_put addr r new rcc = (c, rcc') \<and> crc_inv rcc' \<and> cl_addr c = addr \<and>
    (c = new \<or> c \<in> fst ` set rcc) \<and>
    (\<forall>e \<in> set rcc. cl_addr (fst e) = addr \<longrightarrow> c = fst e) \<and>
    (\<forall>c'. regions_of rcc' c' =
      (if c' = cl_ptr c then Some (insert (ri_ptr r) (case regions_of rcc c' of None \<Rightarrow> {} | Some s \<Rightarrow> s))
       else regions_of rcc c'))"
proof -
  obtain c rcc' where put: "crc_put addr r new rcc = (c, rcc')" by fastforce
  have inv: "crc_inv rcc'" using crc_put_inv [OF assms(1,2), of r] put by simp
  note res = crc_put_client [OF put] and regs = regions_of_put [OF put]
  show ?thesis
  proof (cases "find (\<lambda>e. addr = cl_addr (fst e)) rcc")
    case None
    then have "cl_addr (fst e) \<noteq> addr" if "e \<in> set rcc" for e
      using that by (cases e) (auto simp: find_None_iff)
    moreover have "regions_of rcc (cl_ptr new) = None"
      using assms(3) by (auto simp: regions_of_def find_None_iff image_iff)
    ultimately show ?thesis using put inv res regs None assms(2) by auto
  next
    case (Some e)
    then have e: "c = fst e" "e \<in> set rcc" "cl_addr c = addr" using res by auto
    then have "fst x = c" if "x \<in> set rcc" "cl_addr (fst x) = addr" for x
      using crc_inv_client [OF assms(1)] that by metis
    moreover have "regions_of rcc (cl_ptr c) \<noteq> None"
      using e by (cases e) (auto simp: regions_of_def find_None_iff)
    ultimately show ?thesis using put inv regs Some e by (fastforce simp: regs)
  qed
qed

definition sample_clients :: client_cache where
  "sample_clients = [(\<lparr>cl_ptr = 1, cl_addr = ''a:1''\<rparr>, [sample_left]), (\<lparr>cl_ptr = 2, cl_addr = ''b:1''\<rparr>, [])]"

theorem crc_put_correct_witness:
  "\<exists>c rcc'. crc_put ''c:1'' sample_right \<lparr>cl_ptr = 3, cl_addr = ''c:1''\<rparr> sample_clients = (c, rcc') \<and>
    crc_inv rcc' \<and> cl_addr c = ''c:1'' \<and>
    (c = \<lparr>cl_ptr = 3, cl_addr = ''c:1''\<rparr> \<or> c \<in> fst ` set sample_clients) \<and>
    (\<forall>e \<in> set sample_clients. cl_addr (fst e) = ''c:1'' \<longrightarrow> c = fst e) \<and>
    (\<forall>c'. regions_of rcc' c' =
      (if c' = cl_ptr c
       then Some (insert (ri_ptr sample_right) (case regions_of sample_clients c' of None \<Rightarrow> {} | Some s \<Rightarrow> s))
       else regions_of sample_clients c'))"
  by (rule crc_put_correct) (simp_all add: sample_clients_def crc_inv_def)

text \<open>
  Closing all clients closes each cached client once, in the order of the map, and leaves
  every region of every client unavailable and without a client, and every other region as
  it was.
\<close>

theorem crc_closeAll_correct:
  "\<exists>h'. crc_closeAll rcc h [] = (h', map (cl_ptr \<circ> fst) rcc) \<and>
    (\<forall>r. IsUnavailable h' r \<longleftrightarrow> IsUnavailable h r \<or> (\<exists>e \<in> set rcc. known r (snd e))) \<and>
    (\<forall>r. Client h' r = (if \<exists>e \<in> set rcc. known r (snd e) then None else Client h r))"
proof -
  obtain h' cl where all: "crc_closeAll rcc h [] = (h', cl)" by fastforce
  have "IsUnavailable h r \<longleftrightarrow> ptr_unavailable h (ri_ptr r)" for h r
    by (simp add: IsUnavailable_def ptr_unavailable_def state_of_def)
  with all crc_closeAll_heap [OF all] show ?thesis
    by (simp add: Client_def state_of_def known_iff)
qed

theorem crc_closeAll_correct_witness:
  "\<exists>h'. crc_closeAll sample_clients init_heap [] = (h', map (cl_ptr \<circ> fst) sample_clients) \<and>
    (\<forall>r. IsUnavailable h' r \<longleftrightarrow> IsUnavailable init_heap r \<or> (\<exists>e \<in> set sample_clients. known r (snd e))) \<and>
    (\<forall>r. Client h' r = (if \<exists>e \<in> set sample_clients. known r (snd e) then None else Client init_heap r))"
  by (rule crc_closeAll_correct)

text \<open>
  When a client goes down its regions are handed to the caller and its entry is removed,
  so a second caller for the same client gets none; other clients are unaffected.
\<close>

theorem crc_clientDown_once:
  assumes "crc_inv rcc" "crc_clientDown c rcc = (down, rcc')"
  shows "ri_ptr ` set down = (case regions_of rcc c of None \<Rightarrow> {} | Some s \<Rightarrow> s) \<and> crc_inv rcc' \<and>
    fst (crc_clientDown c rcc') = [] \<and>
    (\<forall>c'. regions_of rcc' c' = (if c' = c then None else regions_of rcc c'))"
  using assms
  by (auto simp: crc_clientDown_def regions_of_def crc_inv_def distinct_map_filter
      find_filter_neq find_filter_other split: option.splits)

theorem crc_clientDown_once_witness:
  "ri_ptr ` set [sample_left] = (case regions_of sample_clients 1 of None \<Rightarrow> {} | Some s \<Rightarrow> s) \<and>
    crc_inv [(\<lparr>cl_ptr = 2, cl_addr = ''b:1''\<rparr>, [])] \<and>
    fst (crc_clientDown 1 [(\<lparr>cl_ptr = 2, cl_addr = ''b:1''\<rparr>, [])]) = [] \<and>
    (\<forall>c'. regions_of [(\<lparr>cl_ptr = 2, cl_addr = ''b:1''\<rparr>, [])] c' =
      (if c' = 1 then None else regions_of sample_clients c'))"
  by (rule crc_clientDown_once) (simp_all add: sample_clients_def crc_inv_def crc_clientDown_def)

text \<open>The debug dump of the key cache lists every entry and ends within its fuel.\<close>

lemma krc_debugInfo_list:
  "krc_debugInfo list_tree fmt xs regions =
    Some (fold (\<lambda>(k, v) regs. regs(fmt (ri_ptr v) \<mapsto> v)) xs regions,
      fold (\<lambda>(k, v) m. m(k \<mapsto> fmt (ri_ptr v))) xs Map.empty)"
  by (auto simp: krc_debugInfo_def list_tree_sel debug_walk_list simp del: debug_walk.simps)

end
