(* ===== verification/Scanner.thy ===== *)
theory Scanner
  imports Region_Errors
begin

text \<open>
  The scanner (\<^verbatim>\<open>src/scanner.go\<close>): it reads a range of rows region by region and puts rows
  together that the server sent in parts. The client it sends requests through is seen
  through the replies it gives, which are consumed one per request; a scanner that has no
  reply left waits. Requests are logged.
\<close>

section \<open>State\<close>

definition noScannerID :: u64 where "noScannerID = - 1"

text \<open>\<open>sc_rpc\<close> and \<open>sc_options\<close> are the original query; \<open>sc_started\<close> logs the requests to close a region scanner.\<close>

record scanner =
  sc_rpc :: scan
  sc_options :: "call_option list"
  curRegionScannerID :: u64
  sc_startRow :: bytes
  results :: "result option list"
  closed :: bool
  sc_sent :: "scan list"
  sc_started :: "scan list"

datatype scan_error = EOF | ContextError | ScanError go_error

text \<open>What \<^verbatim>\<open>SendRPC\<close> returns for a scan, with the region of the request.\<close>

datatype reply = SendError go_error | OtherMessage | ScanReply scan_response region

definition newScanner :: "scan \<Rightarrow> call_option list \<Rightarrow> scanner" where
  "newScanner rpc opts = \<lparr>sc_rpc = rpc, sc_options = opts, curRegionScannerID = noScannerID,
     sc_startRow = startRow rpc, results = [], closed = False, sc_sent = [], sc_started = []\<rparr>"

definition isRegionScannerClosed :: "scanner \<Rightarrow> bool" where
  "isRegionScannerClosed s \<longleftrightarrow> curRegionScannerID s = noScannerID"

definition openRegionScanner :: "u64 \<Rightarrow> scanner \<Rightarrow> (unit, scanner) outcome" where
  "openRegionScanner i s =
     (if \<not> isRegionScannerClosed s
      then Panic (Explicit ''should not happen: previous region scanner was not closed'')
      else Ok (s\<lparr>curRegionScannerID := i\<rparr>))"

text \<open>Calls are numbered by how many the scanner made; the background context is number 0.\<close>

definition next_call :: "scanner \<Rightarrow> nat" where
  "next_call s = length (sc_sent s) + length (sc_started s)"

definition closing_request :: "scanner \<Rightarrow> (string, scan) outcome" where
  "closing_request s =
     NewScanRange (next_call s) 0 (b_table (s_base (sc_rpc s))) (sc_startRow s) []
       [ScannerID (curRegionScannerID s), CloseScanner, NumberOfRows 0]"

definition closeRegionScanner :: "scanner \<Rightarrow> (unit, scanner) outcome" where
  "closeRegionScanner s =
     (if isRegionScannerClosed s then Ok s
      else and_then
        (if closeScanner (sc_rpc s) then Ok s
         else case closing_request s of
           Ok rpc \<Rightarrow> Ok (s\<lparr>sc_started := sc_started s @ [rpc]\<rparr>)
         | Err e \<Rightarrow> Panic (Explicit (''should not happen: '' @ e))
         | Panic p \<Rightarrow> Panic p)
        (\<lambda>s'. Ok (s'\<lparr>curRegionScannerID := noScannerID\<rparr>)))"

definition scanner_Close :: "scanner \<Rightarrow> (unit, scanner) outcome" where
  "scanner_Close s = (if closed s then Ok s else closeRegionScanner (s\<lparr>closed := True\<rparr>))"

section \<open>Requests\<close>

definition scan_request_for :: "scanner \<Rightarrow> (string, scan) outcome" where
  "scan_request_for s =
     (let rpc = sc_rpc s in
      if isRegionScannerClosed s
      then NewScanRange (next_call s) (b_ctx (s_base rpc)) (b_table (s_base rpc)) (sc_startRow s) (stopRow rpc)
        (sc_options s)
      else NewScanRange (next_call s) (b_ctx (s_base rpc)) (b_table (s_base rpc)) (sc_startRow s) []
        [ScannerID (curRegionScannerID s), NumberOfRows (numberOfRows rpc)])"

definition rowPadding :: bytes where
  "rowPadding = [255, 255, 255, 255, 255, 255, 255, 255]"

text \<open>The row a reversed scan continues with below the start key of a region.\<close>

definition row_before :: "bytes \<Rightarrow> bytes" where
  "row_before rsk =
     (if rsk = [] then rsk
      else if last rsk = 0 then butlast rsk
      else butlast rsk @ [last rsk - 1] @ rowPadding)"

definition more_in_region :: "scan_response \<Rightarrow> bool" where
  "more_in_region resp \<longleftrightarrow> MoreResultsInRegion resp = Some True"

definition update :: "scan_response \<Rightarrow> region \<Rightarrow> scanner \<Rightarrow> (unit, scanner) outcome" where
  "update resp region s =
     and_then (case ScannerId resp of
         Some i \<Rightarrow> if isRegionScannerClosed s then openRegionScanner i s else Ok s
       | None \<Rightarrow> Ok s) (\<lambda>s1.
       if more_in_region resp then Ok s1
       else and_then (closeRegionScanner s1) (\<lambda>s2.
         Ok (s2\<lparr>sc_startRow :=
           (if \<not> reversed (sc_rpc s2) then ri_stopKey region else row_before (ri_startKey region))\<rparr>)))"

definition isDone :: "scan_response \<Rightarrow> region \<Rightarrow> scanner \<Rightarrow> bool" where
  "isDone resp region s \<longleftrightarrow>
     (if MoreResults resp = Some False then True
      else if \<not> isRegionScannerClosed s then False
      else if ri_stopKey region = [] \<and> \<not> reversed (sc_rpc s) then True
      else if reversed (sc_rpc s) \<and> ri_startKey region = [] then True
      else if \<not> reversed (sc_rpc s)
      then stopRow (sc_rpc s) \<noteq> [] \<and> bytes_compare (stopRow (sc_rpc s)) (ri_stopKey region) \<le> 0
      else stopRow (sc_rpc s) \<noteq> [] \<and> bytes_compare (stopRow (sc_rpc s)) (ri_startKey region) \<ge> 0)"

section \<open>Fetching\<close>

datatype fetched = Again | Got "result option list" | Failed scan_error

text \<open>The body of the loop of \<^verbatim>\<open>fetch\<close> after the request was sent.\<close>

definition fetch_turn :: "reply \<Rightarrow> scanner \<Rightarrow> (unit, scanner \<times> fetched) outcome" where
  "fetch_turn r s =
     (case r of
        SendError e \<Rightarrow> and_then (scanner_Close s) (\<lambda>s'. Ok (s', Failed (ScanError e)))
      | OtherMessage \<Rightarrow> and_then (scanner_Close s) (\<lambda>s'.
          Ok (s', Failed (ScanError (Message ''got non-ScanResponse for scan request''))))
      | ScanReply resp region \<Rightarrow>
          and_then (update resp region s) (\<lambda>s1.
          and_then (if isDone resp region s1 then scanner_Close s1 else Ok s1) (\<lambda>s2.
            Ok (s2, if Results resp \<noteq> [] then Got (Results resp)
                    else if closed s2 then Failed EOF else Again))))"

text \<open>\<open>None\<close>: the scanner waits for a reply. Otherwise the outcome has the replies left.\<close>

fun fetch :: "scanner \<Rightarrow> reply list
    \<Rightarrow> (unit, (scan_error + result option list) \<times> scanner \<times> reply list) outcome option" where
  "fetch s rs =
     (case scan_request_for s of
        Panic p \<Rightarrow> Some (Panic p)
      | Err e \<Rightarrow> Some (and_then (scanner_Close s) (\<lambda>s'. Ok (Inl (ScanError (Message e)), s', rs)))
      | Ok rpc \<Rightarrow>
          (case rs of
             [] \<Rightarrow> None
           | r # rs' \<Rightarrow>
               (case fetch_turn r (s\<lparr>sc_sent := sc_sent s @ [rpc]\<rparr>) of
                  Panic p \<Rightarrow> Some (Panic p)
                | Err e \<Rightarrow> Some (Err e)
                | Ok (s', Again) \<Rightarrow> fetch s' rs'
                | Ok (s', Got xs) \<Rightarrow> Some (Ok (Inr xs, s', rs'))
                | Ok (s', Failed e) \<Rightarrow> Some (Ok (Inl e, s', rs')))))"

declare fetch.simps [simp del]

definition peek :: "scanner \<Rightarrow> reply list
    \<Rightarrow> (unit, (scan_error + result option) \<times> scanner \<times> reply list) outcome option" where
  "peek s rs =
     (if results s \<noteq> [] then Some (Ok (Inr (hd (results s)), s, rs))
      else if closed s then Some (Ok (Inl EOF, s, rs))
      else (case fetch s rs of
          None \<Rightarrow> None
        | Some (Panic p) \<Rightarrow> Some (Panic p)
        | Some (Err e) \<Rightarrow> Some (Err e)
        | Some (Ok (Inl e, s', rs')) \<Rightarrow> Some (Ok (Inl e, s', rs'))
        | Some (Ok (Inr xs, s', rs')) \<Rightarrow> Some (and_then (index xs 0) (\<lambda>x. Ok (Inr x, s'\<lparr>results := xs\<rparr>, rs')))))"

definition shift :: "scanner \<Rightarrow> scanner" where
  "shift s = s\<lparr>results := tl (results s)\<rparr>"

section \<open>Putting rows together\<close>

definition coalesce :: "result option \<Rightarrow> result option \<Rightarrow> (unit, result option \<times> bool) outcome" where
  "coalesce result partial =
     (case result of
        None \<Rightarrow> Ok (partial, True)
      | Some r \<Rightarrow>
          if \<not> GetPartial r then Ok (Some r, False)
          else (case partial of
              None \<Rightarrow> Panic NilDereference
            | Some p \<Rightarrow>
                and_then (if Cell p = [] then Ok False
                  else and_then (index (Cell r) 0) (\<lambda>c. Ok (Row c \<noteq> Row (hd (Cell p))))) (\<lambda>new_row.
                if new_row then Ok (Some (r\<lparr>Partial := Some False\<rparr>), False)
                else Ok (Some (r\<lparr>Cell := Cell r @ Cell p, Stale := (if GetStale p then Some True else Stale r)\<rparr>), True))))"

definition toLocalResult :: "result option \<Rightarrow> local_result option" where
  "toLocalResult r = (case r of None \<Rightarrow> None | Some _ \<Rightarrow> Some (ToLocalResult r))"

lemma fetch_Nil: "scan_request_for s = Ok rpc \<Longrightarrow> fetch s [] = None"
  by (simp add: fetch.simps [of s "[]"])

lemma fetch_Cons:
  "scan_request_for s = Ok rpc \<Longrightarrow> fetch s (r # rs) =
     (case fetch_turn r (s\<lparr>sc_sent := sc_sent s @ [rpc]\<rparr>) of
        Panic p \<Rightarrow> Some (Panic p)
      | Err e \<Rightarrow> Some (Err e)
      | Ok (s', Again) \<Rightarrow> fetch s' rs
      | Ok (s', Got xs) \<Rightarrow> Some (Ok (Inr xs, s', rs))
      | Ok (s', Failed e) \<Rightarrow> Some (Ok (Inl e, s', rs)))"
  by (simp add: fetch.simps [of s "r # rs"])

lemma fetch_replies:
  "fetch s rs = Some (Ok (Inr xs, s', rs')) \<Longrightarrow> length rs' < length rs"
proof (induction rs arbitrary: s)
  case Nil
  then show ?case by (auto simp: fetch.simps [of s "[]"] split: outcome.splits)
next
  case (Cons r rs)
  then obtain rpc where rpc: "scan_request_for s = Ok rpc"
    by (auto simp: fetch.simps [of s "r # rs"] split: outcome.splits)
  obtain s1 f where "fetch_turn r (s\<lparr>sc_sent := sc_sent s @ [rpc]\<rparr>) = Ok (s1, f)"
    using Cons.prems by (auto simp: fetch_Cons [OF rpc] split: outcome.splits)
  then show ?case using Cons.prems Cons.IH [of s1] by (cases f) (auto simp: fetch_Cons [OF rpc])
qed

lemma peek_progress:
  assumes "peek s rs = Some (Ok (Inr x, s', rs'))"
  shows "length rs' < length rs \<or> (rs' = rs \<and> s' = s)" "results s' \<noteq> []"
  using assms fetch_replies
  by (auto simp: peek_def index_def split: if_splits option.splits outcome.splits sum.splits)

text \<open>
  The loop of \<^verbatim>\<open>Next\<close>. Every turn that does not return takes a result off the buffer, or a
  reply.
\<close>

type_synonym next_value = "local_result option \<times> scan_error option"

function next_loop :: "result option \<Rightarrow> scanner \<Rightarrow> reply list
    \<Rightarrow> (unit, next_value \<times> scanner \<times> reply list) outcome option" where
  "next_loop result s rs =
     (case peek s rs of
        None \<Rightarrow> None
      | Some (Panic p) \<Rightarrow> Some (Panic p)
      | Some (Err e) \<Rightarrow> Some (Err e)
      | Some (Ok (Inl e, s', rs')) \<Rightarrow>
          (case result of
             None \<Rightarrow> Some (Ok ((None, Some e), s', rs'))
           | Some r \<Rightarrow>
               if e = EOF then Some (Ok ((toLocalResult (Some (r\<lparr>Partial := Some False\<rparr>)), None), s', rs'))
               else Some (Ok ((toLocalResult (Some r), Some e), s', rs')))
      | Some (Ok (Inr partial, s', rs')) \<Rightarrow>
          (case coalesce result partial of
             Panic p \<Rightarrow> Some (Panic p)
           | Err e \<Rightarrow> Some (Err e)
           | Ok (result', done) \<Rightarrow>
               let s2 = (if done then shift s' else s') in
               if \<not> (case result' of None \<Rightarrow> False | Some r \<Rightarrow> GetPartial r)
               then Some (Ok ((toLocalResult result', None), s2, rs'))
               else next_loop result' s2 rs'))"
  by pat_completeness auto

lemma coalesce_not_done:
  "coalesce result partial = Ok (result', False) \<Longrightarrow> \<not> (case result' of None \<Rightarrow> False | Some r \<Rightarrow> GetPartial r)"
  by (auto simp: coalesce_def GetPartial_def split: option.splits if_splits)

lemma next_loop_decreases:
  assumes "peek s rs = Some (Ok (Inr partial, s', rs'))" "coalesce result partial = Ok (result', done)"
    "\<not> \<not> (case result' of None \<Rightarrow> False | Some r \<Rightarrow> GetPartial r)"
  shows "length rs' < length rs \<or>
    length rs' = length rs \<and> length (results (if done then shift s' else s')) < length (results s)"
proof -
  have "done" using coalesce_not_done assms(2,3) by (cases "done") auto
  then show ?thesis using peek_progress [OF assms(1)] by (auto simp: shift_def)
qed

termination next_loop
  by (relation "measures [\<lambda>(result, s, rs). length rs, \<lambda>(result, s, rs). length (results s)]")
    (use next_loop_decreases in \<open>fastforce simp: Let_def\<close>)+

declare next_loop.simps [simp del]

text \<open>\<open>ctx_done\<close>: the context of the scan has ended.\<close>

definition Next :: "bool \<Rightarrow> scanner \<Rightarrow> reply list
    \<Rightarrow> (unit, next_value \<times> scanner \<times> reply list) outcome option" where
  "Next ctx_done s rs =
     (if ctx_done
      then Some (and_then (scanner_Close s) (\<lambda>s'. Ok ((None, Some ContextError), s', rs)))
      else if allowPartialResults (sc_rpc s)
      then (case peek s rs of
          None \<Rightarrow> None
        | Some (Panic p) \<Rightarrow> Some (Panic p)
        | Some (Err e) \<Rightarrow> Some (Err e)
        | Some (Ok (Inl e, s', rs')) \<Rightarrow> Some (Ok ((None, Some e), s', rs'))
        | Some (Ok (Inr x, s', rs')) \<Rightarrow> Some (Ok ((toLocalResult x, None), shift s', rs')))
      else next_loop None s rs)"

text \<open>An error that \<^verbatim>\<open>Next\<close> returns came from sending a request, or is a message of the scanner itself.\<close>

lemma fetch_error:
  assumes "fetch s rs = Some (Ok (r, s', rs'))"
  shows "set rs' \<subseteq> set rs \<and> (\<forall>e. r = Inl (ScanError e) \<longrightarrow> SendError e \<in> set rs \<or> (\<exists>m. e = Message m))"
  using assms
proof (induction rs arbitrary: s)
  case Nil
  then show ?case by (auto simp: fetch.simps [of s "[]"] scanner_Close_def split: outcome.splits if_splits)
next
  case (Cons x rs)
  show ?case
  proof (cases "scan_request_for s")
    case (Ok rpc)
    obtain s1 f where f: "fetch_turn x (s\<lparr>sc_sent := sc_sent s @ [rpc]\<rparr>) = Ok (s1, f)"
      using Cons.prems by (auto simp: fetch_Cons [OF Ok] split: outcome.splits)
    have "e = EOF \<or> (\<exists>g. e = ScanError g \<and> (x = SendError g \<or> (\<exists>m. g = Message m)))" if "f = Failed e" for e
      using f that by (auto simp: fetch_turn_def split: reply.splits if_splits)
    then show ?thesis using Cons.prems Cons.IH [of s1] f by (cases f) (auto simp: fetch_Cons [OF Ok])
  qed (use Cons.prems in \<open>auto simp: fetch.simps [of s "x # rs"]\<close>)
qed

lemma peek_error:
  assumes "peek s rs = Some (Ok (r, s', rs'))"
  shows "set rs' \<subseteq> set rs \<and> (\<forall>e. r = Inl (ScanError e) \<longrightarrow> SendError e \<in> set rs \<or> (\<exists>m. e = Message m))"
  using assms fetch_error [of s rs]
  by (auto simp: peek_def split: if_splits option.splits outcome.splits sum.splits)

lemma next_loop_error:
  assumes "next_loop result s rs = Some (Ok ((x, Some (ScanError e)), s', rs'))"
  shows "SendError e \<in> set rs \<or> (\<exists>m. e = Message m)"
  using assms
proof (induction result s rs rule: next_loop.induct)
  case (1 result s rs)
  obtain r s1 rs1 where p: "peek s rs = Some (Ok (r, s1, rs1))"
    using "1.prems" by (auto simp: next_loop.simps [of result s rs] split: option.splits outcome.splits)
  show ?case
  proof (cases r)
    case (Inl e')
    then show ?thesis using "1.prems" p peek_error [OF p] by (auto simp: next_loop.simps [of result s rs] split: option.splits if_splits)
  next
    case (Inr partial)
    obtain result' fin where c: "coalesce result partial = Ok (result', fin)"
      using "1.prems" p Inr by (auto simp: next_loop.simps [of result s rs] split: outcome.splits)
    have more: "\<not> \<not> (case result' of None \<Rightarrow> False | Some r \<Rightarrow> GetPartial r)"
      using "1.prems" p Inr c by (auto simp: next_loop.simps [of result s rs] Let_def split: option.splits if_splits)
    have "next_loop result' (if fin then shift s1 else s1) rs1 = Some (Ok ((x, Some (ScanError e)), s', rs'))"
      using "1.prems" p Inr c more by (simp add: next_loop.simps [of result s rs] Let_def)
    then have "SendError e \<in> set rs1 \<or> (\<exists>m. e = Message m)"
      using "1.IH" [OF p refl] p Inr c more by auto
    then show ?thesis using peek_error [OF p] by blast
  qed
qed

lemma Next_error:
  assumes "Next ctx_done s rs = Some (Ok ((x, Some (ScanError e)), s', rs'))"
  shows "SendError e \<in> set rs \<or> (\<exists>m. e = Message m)"
  using assms next_loop_error [of None s rs] peek_error [of s rs]
  by (auto simp: Next_def split: if_splits option.splits outcome.splits sum.splits)

section \<open>What one turn does\<close>

text \<open>The request that closes a region scanner can always be built.\<close>

lemma closing_request_Ok:
  "closing_request s = Ok \<lparr>s_base = \<lparr>b_id = next_call s, b_ctx = 0, b_table = b_table (s_base (sc_rpc s)),
       b_key = sc_startRow s, b_region = None\<rparr>,
     s_query = newBaseQuery, startRow = sc_startRow s, stopRow = [], scannerID = curRegionScannerID s,
     maxResultSize = DefaultMaxResultSize, numberOfRows = 0, reversed = False, closeScanner = True,
     allowPartialResults = False\<rparr>"
  by (simp add: closing_request_def NewScanRange_def baseScan_def as_scan_def ScannerID_def CloseScanner_def
      NumberOfRows_def)

definition closed_region :: "scanner \<Rightarrow> scanner" where
  "closed_region s =
     (if isRegionScannerClosed s then s
      else s\<lparr>curRegionScannerID := noScannerID,
        sc_started := sc_started s @ (if closeScanner (sc_rpc s) then [] else
          case closing_request s of Ok rpc \<Rightarrow> [rpc] | _ \<Rightarrow> [])\<rparr>)"

lemma closeRegionScanner_eq: "closeRegionScanner s = Ok (closed_region s)"
  by (simp add: closeRegionScanner_def closed_region_def closing_request_Ok)

definition closed_scanner :: "scanner \<Rightarrow> scanner" where
  "closed_scanner s = (if closed s then s else closed_region (s\<lparr>closed := True\<rparr>))"

lemma scanner_Close_eq: "scanner_Close s = Ok (closed_scanner s)"
  by (simp add: scanner_Close_def closed_scanner_def closeRegionScanner_eq)

definition opened :: "scan_response \<Rightarrow> scanner \<Rightarrow> scanner" where
  "opened resp s =
     (case ScannerId resp of
        Some i \<Rightarrow> if isRegionScannerClosed s then s\<lparr>curRegionScannerID := i\<rparr> else s
      | None \<Rightarrow> s)"

definition updated :: "scan_response \<Rightarrow> region \<Rightarrow> scanner \<Rightarrow> scanner" where
  "updated resp region s =
     (if more_in_region resp then opened resp s
      else (closed_region (opened resp s))\<lparr>sc_startRow :=
        (if \<not> reversed (sc_rpc s) then ri_stopKey region else row_before (ri_startKey region))\<rparr>)"

lemma sc_rpc_same [simp]:
  "sc_rpc (closed_region s) = sc_rpc s" "sc_rpc (opened resp s) = sc_rpc s" "sc_rpc (updated resp reg s) = sc_rpc s"
  "sc_rpc (closed_scanner s) = sc_rpc s" "results (closed_region s) = results s" "results (opened resp s) = results s"
  "results (updated resp reg s) = results s" "results (closed_scanner s) = results s"
  by (simp_all add: closed_region_def opened_def updated_def closed_scanner_def split: option.splits)

lemma update_eq: "update resp region s = Ok (updated resp region s)"
proof -
  have "(case ScannerId resp of Some i \<Rightarrow> if isRegionScannerClosed s then openRegionScanner i s else Ok s
     | None \<Rightarrow> Ok s) = Ok (opened resp s)"
    by (simp add: opened_def openRegionScanner_def split: option.split)
  then show ?thesis by (cases "more_in_region resp") (simp_all add: update_def updated_def closeRegionScanner_eq)
qed

definition turned :: "scan_response \<Rightarrow> region \<Rightarrow> scanner \<Rightarrow> scanner" where
  "turned resp region s =
     (let s1 = updated resp region s in if isDone resp region s1 then closed_scanner s1 else s1)"

lemma fetch_turn_ScanReply:
  "fetch_turn (ScanReply resp region) s =
     (let s' = turned resp region s in
      Ok (s', if Results resp \<noteq> [] then Got (Results resp) else if closed s' then Failed EOF else Again))"
  by (simp add: fetch_turn_def turned_def update_eq scanner_Close_eq Let_def)

lemma closed_region_results:
  "closed_region (s\<lparr>results := xs\<rparr>) = (closed_region s)\<lparr>results := xs\<rparr>"
  by (simp add: closed_region_def isRegionScannerClosed_def closing_request_Ok next_call_def)

lemma turned_results: "turned resp region (s\<lparr>results := xs\<rparr>) = (turned resp region s)\<lparr>results := xs\<rparr>"
proof -
  have o: "opened resp (s\<lparr>results := xs\<rparr>) = (opened resp s)\<lparr>results := xs\<rparr>"
    by (simp add: opened_def isRegionScannerClosed_def split: option.splits)
  have u: "updated resp region (s\<lparr>results := xs\<rparr>) = (updated resp region s)\<lparr>results := xs\<rparr>"
    by (simp add: updated_def o closed_region_results)
  have d: "isDone resp region (t\<lparr>results := xs\<rparr>) = isDone resp region t" for t
    by (simp add: isDone_def isRegionScannerClosed_def)
  have c: "closed_scanner (t\<lparr>results := xs\<rparr>) = (closed_scanner t)\<lparr>results := xs\<rparr>" for t
  proof -
    have swap: "t\<lparr>results := xs, closed := True\<rparr> = t\<lparr>closed := True, results := xs\<rparr>" by (cases t) simp
    show ?thesis unfolding closed_scanner_def swap closed_region_results by simp
  qed
  show ?thesis by (simp add: turned_def u d c Let_def)
qed

section \<open>Rows and the results they come from\<close>

text \<open>
  The reference for putting rows together: a result that is not partial is a row; a partial
  one takes in all following results of its row.
\<close>

definition same_row :: "result \<Rightarrow> result \<Rightarrow> bool" where
  "same_row x y \<longleftrightarrow> Cell y = [] \<or> Row (hd (Cell y)) = Row (hd (Cell x))"

definition merge_results :: "result \<Rightarrow> result list \<Rightarrow> result" where
  "merge_results x ys = x\<lparr>Cell := Cell x @ concat (map Cell ys),
     Stale := (if \<exists>y \<in> set ys. GetStale y then Some True else Stale x), Partial := Some False\<rparr>"

function rows_of :: "result list \<Rightarrow> result list" where
  "rows_of [] = []"
| "rows_of (x # xs) =
     (if GetPartial x
      then merge_results x (takeWhile (same_row x) xs) # rows_of (dropWhile (same_row x) xs)
      else x # rows_of xs)"
  by pat_completeness auto
termination
  by (relation "measure length") (auto simp: le_imp_less_Suc length_dropWhile_le)

fun reply_results :: "reply \<Rightarrow> result list" where
  "reply_results (ScanReply resp region) = map the (Results resp)"
| "reply_results _ = []"

text \<open>The replies are scan responses without missing results, and the scanner closes with the last one.\<close>

definition request_sent :: "scanner \<Rightarrow> scanner" where
  "request_sent s = (case scan_request_for s of Ok rpc \<Rightarrow> s\<lparr>sc_sent := sc_sent s @ [rpc]\<rparr> | _ \<Rightarrow> s)"

fun completes :: "scanner \<Rightarrow> reply list \<Rightarrow> bool" where
  "completes s [] = closed s"
| "completes s (r # rs) =
     (\<not> closed s \<and> (case scan_request_for s of Ok _ \<Rightarrow> True | _ \<Rightarrow> False) \<and>
      (case r of
         ScanReply resp region \<Rightarrow> None \<notin> set (Results resp) \<and> completes (turned resp region (request_sent s)) rs
       | _ \<Rightarrow> False))"

lemma scan_request_results: "scan_request_for (s\<lparr>results := xs\<rparr>) = scan_request_for s"
  by (simp add: scan_request_for_def isRegionScannerClosed_def next_call_def Let_def)

lemma completes_results: "completes (s\<lparr>results := xs\<rparr>) rs = completes s rs"
proof (induction rs arbitrary: s)
  case (Cons r rs)
  have "request_sent (s\<lparr>results := xs\<rparr>) = (request_sent s)\<lparr>results := xs\<rparr>"
    by (simp add: request_sent_def scan_request_results split: outcome.split)
  with Cons show ?case
    by (simp add: scan_request_results turned_results split: reply.split)
qed simp

lemma turned_keeps [simp]: "sc_rpc (turned resp region s) = sc_rpc s" "sc_rpc (request_sent s) = sc_rpc s"
  "results (turned resp region s) = results s" "results (request_sent s) = results s"
  by (simp_all add: turned_def request_sent_def Let_def split: outcome.split)

definition scan_ok :: "scanner \<Rightarrow> reply list \<Rightarrow> bool" where
  "scan_ok s rs \<longleftrightarrow> None \<notin> set (results s) \<and> completes s rs"

definition upcoming :: "scanner \<Rightarrow> reply list \<Rightarrow> result list" where
  "upcoming s rs = map the (results s) @ concat (map reply_results rs)"

text \<open>\<^verbatim>\<open>fetch\<close> gets the results of the first reply that has some, or ends with the last reply.\<close>

lemma fetch_completes:
  assumes "completes s rs" "\<not> closed s"
  shows "\<exists>s' rs' xs. None \<notin> set xs \<and> completes s' rs' \<and> sc_rpc s' = sc_rpc s \<and> results s' = results s \<and>
    concat (map reply_results rs) = map the xs @ concat (map reply_results rs') \<and>
    fetch s rs = Some (Ok (if xs = [] then Inl EOF else Inr xs, s', rs')) \<and> (xs = [] \<longrightarrow> rs' = [])"
  using assms
proof (induction rs arbitrary: s)
  case (Cons r rs)
  then obtain rpc resp region where rpc: "scan_request_for s = Ok rpc" and r: "r = ScanReply resp region"
    by (auto split: outcome.splits reply.splits)
  define s1 where "s1 = turned resp region (request_sent s)"
  have s1: "completes s1 rs" "None \<notin> set (Results resp)" "sc_rpc s1 = sc_rpc s" "results s1 = results s"
    using Cons.prems r by (simp_all add: s1_def)
  have f: "fetch_turn r (s\<lparr>sc_sent := sc_sent s @ [rpc]\<rparr>) =
      Ok (s1, if Results resp \<noteq> [] then Got (Results resp) else if closed s1 then Failed EOF else Again)"
    using rpc by (simp add: r fetch_turn_ScanReply s1_def request_sent_def Let_def)
  show ?case
  proof (cases "Results resp = [] \<and> \<not> closed s1")
    case True
    then have "fetch s (r # rs) = fetch s1 rs" using f by (simp add: fetch_Cons [OF rpc])
    with Cons.IH [OF s1(1)] True s1(3,4) r show ?thesis by simp
  next
    case False
    then have "fetch s (r # rs) = Some (Ok (if Results resp = [] then Inl EOF else Inr (Results resp), s1, rs))"
      using f by (simp add: fetch_Cons [OF rpc])
    moreover have "rs = []" if "Results resp = []" using that False s1(1) by (cases rs) auto
    ultimately show ?thesis using s1 r
      by (intro exI [of _ s1] exI [of _ rs] exI [of _ "Results resp"]) simp
  qed
qed simp

lemma peek_upcoming:
  assumes "scan_ok s rs"
  shows "\<exists>s' rs'. scan_ok s' rs' \<and> upcoming s' rs' = upcoming s rs \<and> sc_rpc s' = sc_rpc s \<and>
    (case upcoming s rs of
       [] \<Rightarrow> peek s rs = Some (Ok (Inl EOF, s', rs'))
     | x # _ \<Rightarrow> peek s rs = Some (Ok (Inr (Some x), s', rs')) \<and> results s' \<noteq> [])"
proof (cases "results s")
  case (Cons y ys)
  then show ?thesis using assms
    by (intro exI [of _ s] exI [of _ rs]) (auto simp: peek_def upcoming_def scan_ok_def)
next
  case Nil
  show ?thesis
  proof (cases "closed s")
    case True
    then have "rs = []" using assms by (cases rs) (auto simp: scan_ok_def)
    then show ?thesis using True Nil assms
      by (intro exI [of _ s] exI [of _ rs]) (simp add: peek_def upcoming_def)
  next
    case False
    from fetch_completes [OF _ this, of rs] assms obtain s' rs' xs where
      f: "None \<notin> set xs" "completes s' rs'" "sc_rpc s' = sc_rpc s" "results s' = results s"
        "concat (map reply_results rs) = map the xs @ concat (map reply_results rs')"
        "fetch s rs = Some (Ok (if xs = [] then Inl EOF else Inr xs, s', rs'))" "xs = [] \<longrightarrow> rs' = []"
      unfolding scan_ok_def by blast
    have ok: "scan_ok (s'\<lparr>results := xs\<rparr>) rs'" "upcoming (s'\<lparr>results := xs\<rparr>) rs' = upcoming s rs"
      using f(1,2,5) Nil by (simp_all add: scan_ok_def completes_results upcoming_def)
    show ?thesis
    proof (cases xs)
      case xs: Nil
      then have "upcoming s rs = []" "peek s rs = Some (Ok (Inl EOF, s', rs'))" "s'\<lparr>results := xs\<rparr> = s'"
        using f Nil False by (simp_all add: upcoming_def peek_def)
      then show ?thesis using ok f(3) by (intro exI [of _ s'] exI [of _ rs']) simp
    next
      case (Cons x ys)
      then obtain z where x: "x = Some z" using f(1) by (cases x) auto
      then have "peek s rs = Some (Ok (Inr (Some z), s'\<lparr>results := xs\<rparr>, rs'))" "upcoming s rs = z # map the ys @ concat (map reply_results rs')"
        using f Nil False Cons by (simp_all add: upcoming_def peek_def index_def)
      then show ?thesis using ok f(3) Cons
        by (intro exI [of _ "s'\<lparr>results := xs\<rparr>"] exI [of _ rs']) simp
    qed
  qed
qed

lemma shift_upcoming:
  assumes "scan_ok s rs" "results s \<noteq> []"
  shows "scan_ok (shift s) rs" "upcoming (shift s) rs = tl (upcoming s rs)" "sc_rpc (shift s) = sc_rpc s"
  using assms by (cases "results s"; auto simp: shift_def scan_ok_def upcoming_def completes_results)+

text \<open>The loop of \<^verbatim>\<open>Next\<close> with a partial row at hand.\<close>

definition add_partial :: "result \<Rightarrow> result \<Rightarrow> result" where
  "add_partial r p = r\<lparr>Cell := Cell r @ Cell p, Stale := (if GetStale p then Some True else Stale r)\<rparr>"

lemma coalesce_partial:
  assumes "GetPartial r" "Cell r \<noteq> []"
  shows "coalesce (Some r) (Some p) =
    (if same_row r p then Ok (Some (add_partial r p), True) else Ok (Some (r\<lparr>Partial := Some False\<rparr>), False))"
  using assms by (auto simp: coalesce_def same_row_def add_partial_def index_def hd_conv_nth)

lemma add_partial_simps:
  assumes "GetPartial r" "Cell r \<noteq> []"
  shows "GetPartial (add_partial r p)" "Cell (add_partial r p) \<noteq> []" "same_row (add_partial r p) = same_row r"
    "merge_results (add_partial r p) ys = merge_results r (p # ys)"
  using assms by (auto simp: add_partial_def GetPartial_def same_row_def merge_results_def fun_eq_iff)

lemma next_loop_partial:
  assumes "scan_ok s rs" "GetPartial r" "Cell r \<noteq> []"
  shows "\<exists>s' rs'. next_loop (Some r) s rs =
      Some (Ok ((Some (ToLocalResult (Some (merge_results r (takeWhile (same_row r) (upcoming s rs))))), None), s', rs')) \<and>
    scan_ok s' rs' \<and> upcoming s' rs' = dropWhile (same_row r) (upcoming s rs) \<and> sc_rpc s' = sc_rpc s"
  using assms
proof (induction "upcoming s rs" arbitrary: s rs r)
  case Nil
  from peek_upcoming [OF Nil.prems(1)] Nil.hyps obtain s' rs' where
    p: "scan_ok s' rs'" "upcoming s' rs' = []" "sc_rpc s' = sc_rpc s" "peek s rs = Some (Ok (Inl EOF, s', rs'))"
    by (auto split: list.splits)
  have "merge_results r [] = r\<lparr>Partial := Some False\<rparr>" by (simp add: merge_results_def)
  then have "next_loop (Some r) s rs = Some (Ok ((Some (ToLocalResult (Some (merge_results r []))), None), s', rs'))"
    using p(4) by (simp add: next_loop.simps [of "Some r" s rs] toLocalResult_def)
  then show ?case using p Nil.hyps [symmetric] by (intro exI [of _ s'] exI [of _ rs']) simp
next
  case (Cons x xs)
  from peek_upcoming [OF Cons.prems(1)] Cons.hyps(2) [symmetric] obtain s' rs' where
    p: "scan_ok s' rs'" "upcoming s' rs' = x # xs" "sc_rpc s' = sc_rpc s"
      "peek s rs = Some (Ok (Inr (Some x), s', rs'))" "results s' \<noteq> []"
    by (auto split: list.splits)
  show ?case
  proof (cases "same_row r x")
    case True
    note sh = shift_upcoming [OF p(1,5)] and ap = add_partial_simps [OF Cons.prems(2,3)]
    have "next_loop (Some r) s rs = next_loop (Some (add_partial r x)) (shift s') rs'"
      using p(4) True coalesce_partial [OF Cons.prems(2,3)] ap(1) by (simp add: next_loop.simps [of "Some r" s rs])
    moreover have "xs = upcoming (shift s') rs'" using sh(2) p(2) by simp
    ultimately show ?thesis using Cons.hyps(1) [OF _ sh(1) ap(1,2)] ap(3,4) sh(3) p(3) True Cons.hyps(2) [symmetric]
      by auto
  next
    case False
    have "next_loop (Some r) s rs = Some (Ok ((Some (ToLocalResult (Some (r\<lparr>Partial := Some False\<rparr>))), None), s', rs'))"
      using p(4) False coalesce_partial [OF Cons.prems(2,3)]
      by (simp add: next_loop.simps [of "Some r" s rs] toLocalResult_def GetPartial_def)
    then show ?thesis using p False Cons.hyps(2) [symmetric] by (auto simp: merge_results_def)
  qed
qed

definition rows_for :: "scan \<Rightarrow> result list \<Rightarrow> result list" where
  "rows_for rpc xs = (if allowPartialResults rpc then xs else rows_of xs)"

text \<open>A partial result has a cell, without which it belongs to no row.\<close>

definition cells_given :: "result list \<Rightarrow> bool" where
  "cells_given xs \<longleftrightarrow> list_all (\<lambda>x. GetPartial x \<longrightarrow> Cell x \<noteq> []) xs"

lemma cells_given_dropWhile: "cells_given xs \<Longrightarrow> cells_given (dropWhile P xs)"
  by (auto simp: cells_given_def list_all_iff dest: set_dropWhileD)

lemma Next_rows:
  assumes "scan_ok s rs" "cells_given (upcoming s rs)"
  shows "\<exists>s' rs'. scan_ok s' rs' \<and> sc_rpc s' = sc_rpc s \<and> cells_given (upcoming s' rs') \<and>
    (case rows_for (sc_rpc s) (upcoming s rs) of
       [] \<Rightarrow> Next False s rs = Some (Ok ((None, Some EOF), s', rs'))
     | y # ys \<Rightarrow> Next False s rs = Some (Ok ((Some (ToLocalResult (Some y)), None), s', rs')) \<and>
         rows_for (sc_rpc s) (upcoming s' rs') = ys)"
proof -
  from peek_upcoming [OF assms(1)] obtain s1 rs1 where
    p: "scan_ok s1 rs1" "upcoming s1 rs1 = upcoming s rs" "sc_rpc s1 = sc_rpc s"
      "case upcoming s rs of [] \<Rightarrow> peek s rs = Some (Ok (Inl EOF, s1, rs1))
       | x # _ \<Rightarrow> peek s rs = Some (Ok (Inr (Some x), s1, rs1)) \<and> results s1 \<noteq> []" by blast
  show ?thesis
  proof (cases "upcoming s rs")
    case Nil
    then show ?thesis using p
      by (intro exI [of _ s1] exI [of _ rs1])
        (simp add: Next_def next_loop.simps [of None s rs] rows_for_def cells_given_def)
  next
    case (Cons x xs)
    with p have peek: "peek s rs = Some (Ok (Inr (Some x), s1, rs1))" and ne: "results s1 \<noteq> []" by simp_all
    note sh = shift_upcoming [OF p(1) ne]
    have up: "upcoming (shift s1) rs1 = xs" using sh(2) p(2) Cons by simp
    have cg: "cells_given xs" "GetPartial x \<longrightarrow> Cell x \<noteq> []" using assms(2) Cons by (simp_all add: cells_given_def)
    consider (partial_ok) "allowPartialResults (sc_rpc s)"
      | (whole) "\<not> allowPartialResults (sc_rpc s)" "\<not> GetPartial x"
      | (pieces) "\<not> allowPartialResults (sc_rpc s)" "GetPartial x" by blast
    then show ?thesis
    proof cases
      case partial_ok
      then show ?thesis using peek Cons sh up cg p(3)
        by (intro exI [of _ "shift s1"] exI [of _ rs1]) (simp add: Next_def rows_for_def toLocalResult_def)
    next
      case whole
      then have "Next False s rs = Some (Ok ((Some (ToLocalResult (Some x)), None), shift s1, rs1))"
        using peek by (simp add: Next_def next_loop.simps [of None s rs] coalesce_def toLocalResult_def)
      with whole show ?thesis using Cons sh up cg p(3)
        by (intro exI [of _ "shift s1"] exI [of _ rs1]) (simp add: rows_for_def)
    next
      case pieces
      then have "Next False s rs = next_loop (Some x) (shift s1) rs1"
        using peek by (simp add: Next_def next_loop.simps [of None s rs] coalesce_def)
      with next_loop_partial [OF sh(1) pieces(2)] cg pieces up sh(3) p(3) Cons
      show ?thesis by (auto simp: rows_for_def cells_given_dropWhile)
    qed
  qed
qed

text \<open>Calling \<^verbatim>\<open>Next\<close> until it reports an error, at most \<open>n\<close> times.\<close>

fun scan_rows :: "nat \<Rightarrow> scanner \<Rightarrow> reply list \<Rightarrow> (local_result list \<times> scan_error) option" where
  "scan_rows 0 s rs = None"
| "scan_rows (Suc n) s rs =
     (case Next False s rs of
        Some (Ok ((Some x, None), s', rs')) \<Rightarrow> map_option (\<lambda>(xs, e). (x # xs, e)) (scan_rows n s' rs')
      | Some (Ok ((None, Some e), s', rs')) \<Rightarrow> Some ([], e)
      | _ \<Rightarrow> None)"

lemma scan_rows_complete:
  assumes "scan_ok s rs" "cells_given (upcoming s rs)" "length (rows_for (sc_rpc s) (upcoming s rs)) < n"
  shows "scan_rows n s rs = Some (map (\<lambda>x. ToLocalResult (Some x)) (rows_for (sc_rpc s) (upcoming s rs)), EOF)"
  using assms
proof (induction n arbitrary: s rs)
  case (Suc n)
  from Next_rows [OF Suc.prems(1,2)] obtain s' rs' where
    N: "scan_ok s' rs'" "sc_rpc s' = sc_rpc s" "cells_given (upcoming s' rs')"
      "case rows_for (sc_rpc s) (upcoming s rs) of
       [] \<Rightarrow> Next False s rs = Some (Ok ((None, Some EOF), s', rs'))
     | y # ys \<Rightarrow> Next False s rs = Some (Ok ((Some (ToLocalResult (Some y)), None), s', rs')) \<and>
         rows_for (sc_rpc s) (upcoming s' rs') = ys" by blast
  show ?case
  proof (cases "rows_for (sc_rpc s) (upcoming s rs)")
    case Nil
    then show ?thesis using N by simp
  next
    case (Cons y ys)
    then have "scan_rows n s' rs' = Some (map (\<lambda>x. ToLocalResult (Some x)) ys, EOF)"
      using Suc.IH [OF N(1,3)] N Suc.prems(3) by simp
    then show ?thesis using N(4) Cons by simp
  qed
qed simp

section \<open>Regions\<close>

text \<open>The rows of a region, and the rows a scan asks for.\<close>

definition has_row :: "region \<Rightarrow> bytes \<Rightarrow> bool" where
  "has_row r k \<longleftrightarrow> ri_startKey r \<le> k \<and> (ri_stopKey r = [] \<or> k < ri_stopKey r)"

definition in_scan :: "scan \<Rightarrow> bytes \<Rightarrow> bool" where
  "in_scan rpc k \<longleftrightarrow> startRow rpc \<le> k \<and> (stopRow rpc = [] \<or> k < stopRow rpc)"

text \<open>
  A run over replies of the servers. A request without a scanner's id opens a scanner at the region
  that has the row of its key; the scanner reads the rows of the region in the range of
  \<^emph>\<open>that request\<close>. A request with an id is for the scanner that was opened under it. \<open>srv\<close> are the
  scanners the servers opened, \<open>visited\<close> those they said are finished, each as the request that
  opened it and its region. A server that has more results has given the scanner an id, and no
  server ends the scan as a whole.
\<close>

inductive scan_run :: "scan \<Rightarrow> call_option list \<Rightarrow> (scan \<times> region) list \<Rightarrow> (u64 \<rightharpoonup> scan \<times> region) \<Rightarrow> scanner \<Rightarrow> bool"
  for rpc :: scan and opts :: "call_option list" where
  start: "scan_run rpc opts [] Map.empty (newScanner rpc opts)"
| reply: "scan_run rpc opts visited srv s \<Longrightarrow> \<not> closed s \<Longrightarrow> scan_request_for s = Ok q \<Longrightarrow>
    (if scannerID q = MaxUint64 then opener = q \<and> has_row region (b_key (s_base q))
     else srv (scannerID q) = Some (opener, region)) \<Longrightarrow>
    MoreResults resp \<noteq> Some False \<Longrightarrow>
    (more_in_region resp \<longrightarrow> scannerID q \<noteq> MaxUint64 \<or> (\<exists>i. ScannerId resp = Some i \<and> i \<noteq> noScannerID)) \<Longrightarrow>
    fetch_turn (ScanReply resp region) (s\<lparr>sc_sent := sc_sent s @ [q]\<rparr>) = Ok (s', f) \<Longrightarrow>
    scan_run rpc opts (if more_in_region resp then visited else visited @ [(opener, region)])
      (case ScannerId resp of
         Some i \<Rightarrow> if scannerID q = MaxUint64 then srv(i \<mapsto> (opener, region)) else srv
       | None \<Rightarrow> srv) s'"

definition reads :: "scan \<times> region \<Rightarrow> bytes \<Rightarrow> bool" where
  "reads x k \<longleftrightarrow> has_row (snd x) k \<and> in_scan (fst x) k"

text \<open>A request that opens a scanner for the scan at some row.\<close>

definition opens_at :: "scan \<Rightarrow> bytes \<Rightarrow> scan \<Rightarrow> bool" where
  "opens_at rpc b q \<longleftrightarrow> q = rpc\<lparr>s_base := s_base q, startRow := b\<rparr>"

lemma opens_atD:
  assumes "opens_at rpc b q"
  shows "startRow q = b" "stopRow q = stopRow rpc"
  using assms by (cases q; cases rpc; simp add: opens_at_def)+

text \<open>Regions read one after the other.\<close>

definition follows :: "scan \<times> region \<Rightarrow> scan \<times> region \<Rightarrow> bool" where
  "follows x y \<longleftrightarrow> ri_stopKey (snd x) \<noteq> [] \<and> ri_stopKey (snd x) \<le> startRow (fst y)"

definition read_below :: "scan \<Rightarrow> (scan \<times> region) list \<Rightarrow> bytes \<Rightarrow> bool" where
  "read_below rpc visited b \<longleftrightarrow> (\<forall>k. in_scan rpc k \<and> k < b \<longrightarrow> (\<exists>x \<in> set visited. reads x k))"

definition run_inv :: "scan \<Rightarrow> call_option list \<Rightarrow> (scan \<times> region) list \<Rightarrow> (u64 \<rightharpoonup> scan \<times> region) \<Rightarrow> scanner \<Rightarrow> bool" where
  "run_inv rpc opts visited srv s \<longleftrightarrow> sc_rpc s = rpc \<and> sc_options s = opts \<and>
     sorted_wrt follows visited \<and> (\<forall>x \<in> set visited. opens_at rpc (startRow (fst x)) (fst x)) \<and>
     (if closed s then \<forall>k. in_scan rpc k \<longrightarrow> (\<exists>x \<in> set visited. reads x k)
      else startRow rpc \<le> sc_startRow s \<and> read_below rpc visited (sc_startRow s) \<and>
        (\<forall>x \<in> set visited. ri_stopKey (snd x) \<noteq> [] \<and> ri_stopKey (snd x) \<le> sc_startRow s) \<and>
        (\<not> isRegionScannerClosed s \<longrightarrow> (\<exists>q r. srv (curRegionScannerID s) = Some (q, r) \<and>
           opens_at rpc (sc_startRow s) q \<and> has_row r (sc_startRow s))))"

text \<open>The state after a reply of a forward scan that does not end the scan as a whole.\<close>

lemma turned_more:
  assumes "more_in_region resp" "MoreResults resp \<noteq> Some False"
    "\<not> isRegionScannerClosed s \<or> (\<exists>i. ScannerId resp = Some i \<and> i \<noteq> noScannerID)"
  shows "closed (turned resp region s) = closed s" "sc_startRow (turned resp region s) = sc_startRow s"
proof -
  have "\<not> isRegionScannerClosed (updated resp region s)"
    using assms by (auto simp: updated_def opened_def isRegionScannerClosed_def split: option.splits)
  then have "turned resp region s = updated resp region s" using assms(2) by (simp add: turned_def isDone_def Let_def)
  then show "closed (turned resp region s) = closed s" "sc_startRow (turned resp region s) = sc_startRow s"
    using assms(1) by (simp_all add: updated_def opened_def split: option.split)
qed

lemma turned_finished:
  assumes "\<not> more_in_region resp" "MoreResults resp \<noteq> Some False" "\<not> reversed (sc_rpc s)" "\<not> closed s"
  shows "closed (turned resp region s) \<longleftrightarrow>
      ri_stopKey region = [] \<or> stopRow (sc_rpc s) \<noteq> [] \<and> stopRow (sc_rpc s) \<le> ri_stopKey region"
    "sc_startRow (turned resp region s) = ri_stopKey region"
proof -
  let ?u = "updated resp region s"
  have u: "isRegionScannerClosed ?u" "\<not> closed ?u" "sc_startRow ?u = ri_stopKey region"
    using assms by (simp_all add: updated_def closed_region_def opened_def isRegionScannerClosed_def split: option.split)
  have "isDone resp region ?u \<longleftrightarrow>
      ri_stopKey region = [] \<or> stopRow (sc_rpc s) \<noteq> [] \<and> stopRow (sc_rpc s) \<le> ri_stopKey region"
    using assms u by (auto simp: isDone_def)
  moreover have "closed (closed_scanner ?u)" "sc_startRow (closed_scanner ?u) = ri_stopKey region"
    using u by (simp_all add: closed_scanner_def closed_region_def)
  ultimately show "closed (turned resp region s) \<longleftrightarrow>
      ri_stopKey region = [] \<or> stopRow (sc_rpc s) \<noteq> [] \<and> stopRow (sc_rpc s) \<le> ri_stopKey region"
    "sc_startRow (turned resp region s) = ri_stopKey region"
    using u by (simp_all add: turned_def Let_def)
qed

lemma reads_after:
  assumes "has_row region b" "read_below rpc visited b" "opens_at rpc b q" "in_scan rpc k"
    "ri_stopKey region = [] \<or> k < ri_stopKey region"
  shows "\<exists>x \<in> set (visited @ [(q, region)]). reads x k"
proof (cases "k < b")
  case True
  then show ?thesis using assms(2,4) by (auto simp: read_below_def)
next
  case False
  then have "reads (q, region) k" using assms(1,4,5) opens_atD [OF assms(3)] by (auto simp: reads_def has_row_def in_scan_def)
  then show ?thesis by simp
qed

lemma follows_once:
  assumes "sorted_wrt follows visited" "x \<in> set visited" "reads x k"
  shows "\<exists>!j. j < length visited \<and> reads (visited ! j) k"
proof -
  have no: "\<not> (reads (visited ! i) k \<and> reads (visited ! j) k)" if "i < j" "j < length visited" for i j
  proof -
    have "follows (visited ! i) (visited ! j)" using assms(1) that by (simp add: sorted_wrt_iff_nth_less)
    then show ?thesis using less_le_trans leD by (fastforce simp: follows_def reads_def has_row_def in_scan_def)
  qed
  obtain j where j: "j < length visited" "reads (visited ! j) k" using assms(2,3) by (metis in_set_conv_nth)
  show ?thesis
  proof (rule ex1I [of _ j])
    show "i = j" if "i < length visited \<and> reads (visited ! i) k" for i
      using that j no [of i j] no [of j i] by (cases i j rule: linorder_cases) auto
  qed (use j in blast)
qed

text \<open>The options of the library do not look at the table, the row or the number of a call.\<close>

lemma library_option_base:
  assumes "library_option opt" "opt (Scan s) = Ok c"
  shows "\<exists>s'. c = Scan s' \<and> s_base s' = s_base s \<and>
    (\<forall>b. opt (Scan (s\<lparr>s_base := b\<rparr>)) = Ok (Scan (s'\<lparr>s_base := b\<rparr>)))"
  using assms by cases (auto simp: option_defs split: if_splits option.splits)

lemma applyOptions_base:
  assumes "\<forall>opt \<in> set opts. library_option opt" "applyOptions (Scan s) opts = Ok c"
  shows "\<exists>s'. c = Scan s' \<and> s_base s' = s_base s \<and>
    (\<forall>b. applyOptions (Scan (s\<lparr>s_base := b\<rparr>)) opts = Ok (Scan (s'\<lparr>s_base := b\<rparr>)))"
  using assms
proof (induction opts arbitrary: s)
  case (Cons opt opts)
  then obtain c1 where c1: "opt (Scan s) = Ok c1" "applyOptions c1 opts = Ok c" by auto
  from Cons.prems(1) c1(1) obtain s1 where s1: "c1 = Scan s1" "s_base s1 = s_base s"
      "\<And>b. opt (Scan (s\<lparr>s_base := b\<rparr>)) = Ok (Scan (s1\<lparr>s_base := b\<rparr>))"
    using library_option_base [of opt s c1] by auto
  then show ?case using Cons.IH [of s1] Cons.prems(1) c1(2) by auto
qed auto

lemma NewScanRange_again:
  assumes "\<forall>opt \<in> set opts. library_option opt" "NewScanRange i ctx table start stop opts = Ok rpc"
  shows "NewScanRange i' ctx' table' start' stop' opts = Ok (rpc\<lparr>startRow := start', stopRow := stop',
    s_base := \<lparr>b_id = i', b_ctx = ctx', b_table = table', b_key = start', b_region = None\<rparr>\<rparr>)"
proof -
  let ?s = "\<lambda>base. \<lparr>s_base = base, s_query = newBaseQuery, startRow = [], stopRow = [], scannerID = MaxUint64,
        maxResultSize = DefaultMaxResultSize, numberOfRows = DefaultNumberOfRows, reversed = False,
        closeScanner = False, allowPartialResults = False\<rparr>"
  let ?b = "\<lparr>b_id = i, b_ctx = ctx, b_table = table, b_key = [], b_region = None\<rparr>"
  let ?b' = "\<lparr>b_id = i', b_ctx = ctx', b_table = table', b_key = [], b_region = None\<rparr>"
  obtain c where c: "applyOptions (Scan (?s ?b)) opts = Ok c"
    using assms(2) by (auto simp: NewScanRange_def baseScan_def as_scan_def)
  obtain s' where s': "c = Scan s'" "s_base s' = ?b"
      "\<And>b. applyOptions (Scan ((?s ?b)\<lparr>s_base := b\<rparr>)) opts = Ok (Scan (s'\<lparr>s_base := b\<rparr>))"
    using applyOptions_base [OF assms(1) c] by auto
  then show ?thesis using assms(2) c s'(3) [of ?b']
    by (auto simp: NewScanRange_def baseScan_def as_scan_def)
qed

text \<open>The request of a scanner: it opens a scanner at the row the scanner continues with, or is for the one that is open.\<close>

lemma noScannerID_max: "noScannerID = MaxUint64"
  by (simp add: noScannerID_def MaxUint64_def)

lemma scan_request_cases:
  assumes "\<forall>opt \<in> set opts. library_option opt" "NewScanRange i ctx table start stop opts = Ok rpc"
    and "scannerID rpc = MaxUint64" "sc_rpc s = rpc" "sc_options s = opts" "scan_request_for s = Ok q"
  shows "if isRegionScannerClosed s
    then scannerID q = MaxUint64 \<and> opens_at rpc (sc_startRow s) q \<and> b_key (s_base q) = sc_startRow s
    else scannerID q = curRegionScannerID s \<and> scannerID q \<noteq> MaxUint64"
proof (cases "isRegionScannerClosed s")
  case True
  have "q = rpc\<lparr>startRow := sc_startRow s, stopRow := stopRow rpc,
    s_base := \<lparr>b_id = next_call s, b_ctx = b_ctx (s_base rpc), b_table = b_table (s_base rpc), b_key = sc_startRow s,
      b_region = None\<rparr>\<rparr>"
    using assms(4-6) True NewScanRange_again [OF assms(1,2)] by (simp add: scan_request_for_def Let_def)
  then show ?thesis using True assms(3) by (simp add: opens_at_def)
next
  case False
  then show ?thesis using assms(6)
    by (auto simp: scan_request_for_def Let_def NewScanRange_def baseScan_def as_scan_def ScannerID_def NumberOfRows_def
        isRegionScannerClosed_def noScannerID_max)
qed

lemma sc_options_turned [simp]: "sc_options (turned resp region s) = sc_options s"
  by (simp add: turned_def updated_def closed_scanner_def closed_region_def opened_def Let_def split: option.split)

lemma turned_more_open:
  assumes "more_in_region resp" "MoreResults resp \<noteq> Some False"
    "\<not> isRegionScannerClosed s \<or> (\<exists>i. ScannerId resp = Some i \<and> i \<noteq> noScannerID)"
  shows "curRegionScannerID (turned resp region s) =
    (if isRegionScannerClosed s then the (ScannerId resp) else curRegionScannerID s)"
proof -
  have "\<not> isRegionScannerClosed (updated resp region s)"
    using assms by (auto simp: updated_def opened_def isRegionScannerClosed_def split: option.splits)
  then have "turned resp region s = updated resp region s" using assms(2) by (simp add: turned_def isDone_def Let_def)
  then show ?thesis using assms by (auto simp: updated_def opened_def isRegionScannerClosed_def split: option.split)
qed

lemma turned_done_closed:
  assumes "\<not> more_in_region resp"
  shows "isRegionScannerClosed (turned resp region s)"
  using assms by (simp add: turned_def updated_def closed_scanner_def closed_region_def isRegionScannerClosed_def Let_def)

lemma scan_run_inv:
  assumes "\<forall>opt \<in> set opts. library_option opt" "NewScanRange i ctx table start stop opts = Ok rpc"
    and "scannerID rpc = MaxUint64" "\<not> reversed rpc" "scan_run rpc opts visited srv s"
  shows "run_inv rpc opts visited srv s"
  using assms(5)
proof induction
  case start
  then show ?case by (auto simp: run_inv_def newScanner_def read_below_def in_scan_def isRegionScannerClosed_def)
next
  case (reply visited srv s q opener region resp s' f)
  let ?s1 = "s\<lparr>sc_sent := sc_sent s @ [q]\<rparr>"
  have s': "s' = turned resp region ?s1" using reply by (simp add: fetch_turn_ScanReply Let_def)
  have inv: "sc_rpc s = rpc" "sc_options s = opts" "startRow rpc \<le> sc_startRow s" "read_below rpc visited (sc_startRow s)"
    "sorted_wrt follows visited" "\<forall>x \<in> set visited. opens_at rpc (startRow (fst x)) (fst x)"
    "\<forall>x \<in> set visited. ri_stopKey (snd x) \<noteq> [] \<and> ri_stopKey (snd x) \<le> sc_startRow s"
    "\<not> isRegionScannerClosed s \<longrightarrow> (\<exists>q r. srv (curRegionScannerID s) = Some (q, r) \<and>
           opens_at rpc (sc_startRow s) q \<and> has_row r (sc_startRow s))"
    using reply.IH reply.hyps(2) by (simp_all add: run_inv_def)
  note request = scan_request_cases [OF assms(1-3) inv(1,2) reply.hyps(3)]
  have open1: "isRegionScannerClosed ?s1 = isRegionScannerClosed s" "closed ?s1 = closed s" "sc_startRow ?s1 = sc_startRow s"
    by (simp_all add: isRegionScannerClosed_def)
  have id: "scannerID q = MaxUint64 \<longleftrightarrow> isRegionScannerClosed s" using request by (auto split: if_splits)
  have op: "opens_at rpc (sc_startRow s) opener" "has_row region (sc_startRow s)"
    using request reply.hyps(4) inv(8) by (auto split: if_splits)
  show ?case
  proof (cases "more_in_region resp")
    case True
    have more: "\<not> isRegionScannerClosed ?s1 \<or> (\<exists>i. ScannerId resp = Some i \<and> i \<noteq> noScannerID)"
      using True reply.hyps(6) id open1 by auto
    note t = turned_more [OF True reply.hyps(5) more, of region] turned_more_open [OF True reply.hyps(5) more, of region]
    have "\<exists>q r. (case ScannerId resp of Some i \<Rightarrow> if scannerID q0 = MaxUint64 then srv(i \<mapsto> (opener, region)) else srv | None \<Rightarrow> srv)
        (curRegionScannerID s') = Some (q, r) \<and> opens_at rpc (sc_startRow s) q \<and> has_row r (sc_startRow s)" if "q0 = q" for q0
    proof (cases "isRegionScannerClosed s")
      case True
      then show ?thesis using t(3) more op id open1(1) that by (auto simp: s')
    next
      case False
      then show ?thesis using t(3) inv(8) id open1(1) that by (auto simp: s' split: option.split)
    qed
    then show ?thesis using True inv reply.hyps(2) t(1,2) by (simp add: run_inv_def s')
  next
    case False
    have "\<not> closed ?s1" "\<not> reversed (sc_rpc ?s1)" using reply.hyps(2) inv(1) assms(4) by simp_all
    then have t: "closed s' \<longleftrightarrow> ri_stopKey region = [] \<or> stopRow rpc \<noteq> [] \<and> stopRow rpc \<le> ri_stopKey region"
      "sc_startRow s' = ri_stopKey region" "sc_rpc s' = rpc" "sc_options s' = opts"
      using turned_finished [OF False reply.hyps(5), of ?s1 region] inv(1,2) by (simp_all add: s')
    have start: "startRow opener = sc_startRow s" by (rule opens_atD [OF op(1)])
    have vis: "sorted_wrt follows (visited @ [(opener, region)])"
      "\<forall>x \<in> set (visited @ [(opener, region)]). opens_at rpc (startRow (fst x)) (fst x)"
      using inv(5,6,7) op(1) start by (auto simp: sorted_wrt_append follows_def)
    note after = reads_after [OF op(2) inv(4) op(1)]
    show ?thesis
    proof (cases "closed s'")
      case True
      then have "ri_stopKey region = [] \<or> k < ri_stopKey region" if "in_scan rpc k" for k
        using that t(1) less_le_trans by (auto simp: in_scan_def)
      then show ?thesis using True False t vis after by (simp add: run_inv_def)
    next
      case more: False
      have "read_below rpc (visited @ [(opener, region)]) (ri_stopKey region)"
        unfolding read_below_def using after by blast
      moreover have "sc_startRow s < ri_stopKey region" using op(2) more t(1) by (auto simp: has_row_def)
      ultimately show ?thesis using more t inv(3,7) False vis turned_done_closed [OF False, of region ?s1]
        by (auto simp: run_inv_def s')
    qed
  qed
qed

section \<open>The row below a region\<close>

lemma append_less_iff: "p @ u < p @ v \<longleftrightarrow> u < v" for p u v :: bytes
  by (induction p) auto

lemma between_prefix:
  fixes p u v k :: bytes
  assumes "p @ u < k" "k < p @ v"
  shows "\<exists>w. k = p @ w \<and> u < w \<and> w < v"
  using assms
proof (induction p arbitrary: k)
  case (Cons x p)
  then show ?case by (cases k) auto
qed simp

lemma above_padding:
  fixes w :: bytes
  shows "replicate n 255 < w \<longleftrightarrow> (\<exists>t. t \<noteq> [] \<and> w = replicate n 255 @ t)"
proof (induction n arbitrary: w)
  case 0
  show ?case by (cases w) auto
next
  case (Suc n)
  have max: "\<not> (255 :: byte) < y" for y
  proof -
    have "(255 :: byte) = - 1" by simp
    then show ?thesis by (metis word_order.extremum_strict)
  qed
  show ?case
  proof (cases w)
    case (Cons y ys)
    then show ?thesis using Suc [of ys] max [of y] by auto
  qed simp
qed

lemma byte_pred_between:
  fixes b y :: byte
  assumes "b \<noteq> 0" "b - 1 \<le> y" "y < b"
  shows "y = b - 1"
proof -
  have "0 < unat b" using assms(1) by (simp add: unat_gt_0)
  moreover have "unat (b - 1) = unat b - 1" using assms(1) by (simp add: unat_minus_one)
  moreover have "unat (b - 1) \<le> unat y" "unat y < unat b"
    using assms(2,3) by (simp_all add: word_le_nat_alt word_less_nat_alt)
  ultimately have "unat y = unat (b - 1)" by simp
  then show ?thesis by (rule word_unat_eq_iff [THEN iffD2])
qed

lemma rowPadding_replicate: "rowPadding = replicate 8 255"
  by (simp add: rowPadding_def numeral_eq_Suc)

lemma row_below_byte:
  fixes b :: byte and w :: bytes
  assumes "b \<noteq> 0"
  shows "(b - 1) # rowPadding < w \<and> w < [b] \<longleftrightarrow> (\<exists>t. t \<noteq> [] \<and> w = ((b - 1) # rowPadding) @ t)"
proof -
  have b: "b - 1 < b" using assms by (simp add: word_less_nat_alt unat_minus_one unat_gt_0)
  have gap: "\<not> (b - 1 < y \<and> y < b)" for y using byte_pred_between [OF assms, of y] less_imp_le by blast
  show ?thesis
  proof (cases w)
    case (Cons y ys)
    have "(b - 1) # rowPadding < w \<and> w < [b] \<longleftrightarrow> y = b - 1 \<and> rowPadding < ys"
      using gap [of y] b by (auto simp: Cons)
    also have "\<dots> \<longleftrightarrow> (\<exists>t. t \<noteq> [] \<and> w = ((b - 1) # rowPadding) @ t)"
      using above_padding [of 8 ys] by (auto simp: rowPadding_replicate Cons)
    finally show ?thesis .
  qed simp
qed

lemma row_before_cases:
  assumes "rsk \<noteq> []"
  obtains (shorten) p where "rsk = p @ [0]" "row_before rsk = p"
  | (lower) p b where "rsk = p @ [b]" "b \<noteq> 0" "row_before rsk = p @ (b - 1) # rowPadding"
  using assms that by (cases rsk rule: rev_cases) (auto simp: row_before_def split: if_splits)

section \<open>Properties\<close>

text \<open>
  C6. A scan returns every row once, whole and in order: when the replies bring the scan to its
  end, calling \<^verbatim>\<open>Next\<close> until it fails returns exactly the results of the replies, with the
  parts of a row put together by the reference definition \<open>rows_of\<close> (or as they came, when the
  caller allows partial results), and then \<^verbatim>\<open>io.EOF\<close>. This takes one call more than there
  are rows, however the results are spread over replies and however many replies are empty.
\<close>

theorem scanner_returns_rows:
  assumes "completes (newScanner rpc opts) replies" "cells_given (concat (map reply_results replies))"
    "length (rows_for rpc (concat (map reply_results replies))) < n"
  shows "scan_rows n (newScanner rpc opts) replies =
    Some (map (\<lambda>x. ToLocalResult (Some x)) (rows_for rpc (concat (map reply_results replies))), EOF)"
proof -
  let ?s = "newScanner rpc opts"
  have "upcoming ?s replies = concat (map reply_results replies)" "sc_rpc ?s = rpc" "scan_ok ?s replies"
    using assms(1) by (simp_all add: upcoming_def newScanner_def scan_ok_def)
  with scan_rows_complete [of ?s replies n] assms(2,3) show ?thesis by simp
qed

definition sample_part :: "bytes \<Rightarrow> bool \<Rightarrow> result" where
  "sample_part v p = \<lparr>Cell = [\<lparr>Row = [7], Family = [1], Qualifier = [2], Timestamp = None, CellType = None, Value = v\<rparr>],
     AssociatedCellCount = None, Exists = None, Stale = None, Partial = Some p\<rparr>"

definition sample_reply :: "bool \<Rightarrow> result list \<Rightarrow> reply" where
  "sample_reply m rs = ScanReply \<lparr>CellsPerResult = [], ScannerId = Some 5, MoreResults = None, Results = map Some rs,
     PartialFlagPerResult = [], MoreResultsInRegion = Some m\<rparr> (NewInfo 1 1 None [] [] [] [])"

definition sample_replies :: "reply list" where
  "sample_replies = [sample_reply True [sample_part [3] True], sample_reply False [sample_part [4] False]]"

lemma sample_completes: "completes (newScanner sample_scan []) sample_replies"
  by (simp add: sample_replies_def sample_reply_def scan_request_for_def NewScanRange_def baseScan_def as_scan_def
      ScannerID_def NumberOfRows_def turned_def updated_def opened_def closed_region_def closed_scanner_def isDone_def
      newScanner_def isRegionScannerClosed_def noScannerID_def request_sent_def more_in_region_def sample_scan_def
      NewInfo_def Let_def)

theorem scanner_returns_rows_witness:
  "scan_rows 2 (newScanner sample_scan []) sample_replies =
    Some (map (\<lambda>x. ToLocalResult (Some x)) (rows_for sample_scan (concat (map reply_results sample_replies))), EOF) \<and>
   rows_for sample_scan (concat (map reply_results sample_replies)) =
     [merge_results (sample_part [3] True) [sample_part [4] False]]"
proof -
  have rows: "rows_for sample_scan (concat (map reply_results sample_replies)) =
      [merge_results (sample_part [3] True) [sample_part [4] False]]"
    by (simp add: rows_for_def sample_scan_def sample_replies_def sample_reply_def sample_part_def GetPartial_def
        same_row_def)
  have "cells_given (concat (map reply_results sample_replies))"
    by (simp add: cells_given_def sample_replies_def sample_reply_def sample_part_def)
  from scanner_returns_rows [OF sample_completes this, of 2] rows show ?thesis by simp
qed

text \<open>
  C12. A forward scan reads every row once. Let each request be answered by the region that has the
  row of its key, and the requests for an open scanner by that scanner, and let no server end
  the scan as a whole. Then, when the scanner closes, every row of the range was read by
  exactly one of the scanners it opened, each of them opened by a request that asks for the
  original scan from some row on; before that, this holds for the rows below the one the scanner
  continues with.
\<close>

theorem scan_covers_range:
  assumes "\<forall>opt \<in> set opts. library_option opt" "NewScanRange i ctx table start stop opts = Ok rpc"
    and "scannerID rpc = MaxUint64" "\<not> reversed rpc" "scan_run rpc opts visited srv s"
  shows "(\<forall>k. in_scan rpc k \<and> (closed s \<or> k < sc_startRow s) \<longrightarrow>
      (\<exists>!j. j < length visited \<and> has_row (snd (visited ! j)) k \<and> in_scan (fst (visited ! j)) k)) \<and>
    (\<forall>(q, r) \<in> set visited. q = rpc\<lparr>s_base := s_base q, startRow := startRow q\<rparr>)"
proof -
  have inv: "sorted_wrt follows visited" "\<forall>x \<in> set visited. opens_at rpc (startRow (fst x)) (fst x)"
    "\<And>k. in_scan rpc k \<and> (closed s \<or> k < sc_startRow s) \<Longrightarrow> \<exists>x \<in> set visited. reads x k"
    using scan_run_inv [OF assms] by (auto simp: run_inv_def read_below_def split: if_splits)
  then have "\<exists>!j. j < length visited \<and> reads (visited ! j) k" if "in_scan rpc k \<and> (closed s \<or> k < sc_startRow s)" for k
    using that follows_once by blast
  then show ?thesis using inv(2) by (auto simp: reads_def opens_at_def)
qed

text \<open>A scan of a table of two regions.\<close>

definition two_regions :: "region \<times> region" where
  "two_regions = (NewInfo 1 1 None (str ''t'') (str ''t,,1.a.'') [] (str ''m''), NewInfo 2 2 None (str ''t'') (str ''t,m,2.b.'') (str ''m'') [])"

definition sample_range :: scan where
  "sample_range = (case NewScanRange 0 0 (str ''t'') (str ''a'') (str ''z'') [NumberOfRows 5] of Ok rpc \<Rightarrow> rpc)"

definition no_more :: scan_response where
  "no_more = \<lparr>CellsPerResult = [], ScannerId = Some 5, MoreResults = None, Results = [], PartialFlagPerResult = [],
     MoreResultsInRegion = Some False\<rparr>"

lemma sample_range_fields: "NewScanRange 0 0 (str ''t'') (str ''a'') (str ''z'') [NumberOfRows 5] = Ok sample_range"
  "scannerID sample_range = MaxUint64" "\<not> reversed sample_range" "startRow sample_range = str ''a''"
  "stopRow sample_range = str ''z''" "closeScanner sample_range = False"
  by (simp_all add: sample_range_def NewScanRange_def baseScan_def as_scan_def NumberOfRows_def)

lemma sample_region_read:
  assumes "scan_run sample_range [NumberOfRows 5] visited srv s" "\<not> closed s" "isRegionScannerClosed s"
    and "sc_rpc s = sample_range" "sc_options s = [NumberOfRows 5]" "has_row region (sc_startRow s)"
  shows "\<exists>q srv' s'. scan_run sample_range [NumberOfRows 5] (visited @ [(q, region)]) srv' s' \<and>
    (closed s' \<longleftrightarrow> ri_stopKey region = [] \<or> str ''z'' \<le> ri_stopKey region) \<and> sc_startRow s' = ri_stopKey region \<and>
    isRegionScannerClosed s' \<and> sc_rpc s' = sample_range \<and> sc_options s' = [NumberOfRows 5]"
proof -
  have lib: "\<forall>opt \<in> set [NumberOfRows 5]. library_option opt" by (auto intro: library_option.intros)
  have "\<exists>q. scan_request_for s = Ok q"
    using assms(3-5) NewScanRange_again [OF lib sample_range_fields(1)] by (simp add: scan_request_for_def Let_def)
  then obtain q where q: "scan_request_for s = Ok q" by blast
  let ?s = "s\<lparr>sc_sent := sc_sent s @ [q]\<rparr>"
  let ?s' = "turned no_more region ?s"
  have req: "scannerID q = MaxUint64" "b_key (s_base q) = sc_startRow s"
    using scan_request_cases [OF lib sample_range_fields(1,2) assms(4,5) q] assms(3) by simp_all
  have fin: "\<not> more_in_region no_more" "MoreResults no_more \<noteq> Some False"
    by (simp_all add: no_more_def more_in_region_def)
  obtain f where f: "fetch_turn (ScanReply no_more region) ?s = Ok (?s', f)"
    by (simp add: fetch_turn_ScanReply Let_def)
  have "\<not> reversed (sc_rpc ?s)" "\<not> closed ?s" using assms(2,4) sample_range_fields(3) by simp_all
  note t = turned_finished [OF fin this, of region]
  obtain srv' where "scan_run sample_range [NumberOfRows 5] (visited @ [(q, region)]) srv' ?s'"
    using scan_run.reply [OF assms(1,2) q, of q region no_more ?s' f] req assms(6) fin f by auto
  moreover have "sc_rpc ?s' = sample_range" "sc_options ?s' = [NumberOfRows 5]" using assms(4,5) by simp_all
  moreover have "closed ?s' \<longleftrightarrow> ri_stopKey region = [] \<or> str ''z'' \<le> ri_stopKey region"
    using t(1) assms(4) sample_range_fields(5) by (simp add: str_def)
  ultimately show ?thesis using t(2) turned_done_closed [OF fin(1), of region ?s] by blast
qed

lemma sample_scan_run:
  "\<exists>visited srv s. scan_run sample_range [NumberOfRows 5] visited srv s \<and> closed s \<and>
    map snd visited = [fst two_regions, snd two_regions]"
proof -
  let ?opts = "[NumberOfRows 5]"
  let ?s0 = "newScanner sample_range ?opts"
  have s0: "scan_run sample_range ?opts [] Map.empty ?s0" by (rule scan_run.start)
  have new: "\<not> closed ?s0" "isRegionScannerClosed ?s0" "sc_rpc ?s0 = sample_range" "sc_options ?s0 = ?opts"
    "sc_startRow ?s0 = str ''a''"
    by (simp_all add: newScanner_def isRegionScannerClosed_def sample_range_fields)
  have rows: "has_row (fst two_regions) (str ''a'')" "has_row (snd two_regions) (str ''m'')"
    by (simp_all add: has_row_def two_regions_def NewInfo_def str_def)
  have one: "has_row (fst two_regions) (sc_startRow ?s0)" using new rows by simp
  obtain q1 srv1 s1 where s1: "scan_run sample_range ?opts ([] @ [(q1, fst two_regions)]) srv1 s1"
      "closed s1 \<longleftrightarrow> ri_stopKey (fst two_regions) = [] \<or> str ''z'' \<le> ri_stopKey (fst two_regions)"
      "sc_startRow s1 = ri_stopKey (fst two_regions)" "isRegionScannerClosed s1" "sc_rpc s1 = sample_range" "sc_options s1 = ?opts"
    using sample_region_read [OF s0 new(1-4) one] by blast
  have two: "\<not> closed s1" "has_row (snd two_regions) (sc_startRow s1)"
    using s1(2,3) rows by (simp_all add: two_regions_def NewInfo_def str_def)
  obtain q2 srv2 s2 where s2: "scan_run sample_range ?opts (([] @ [(q1, fst two_regions)]) @ [(q2, snd two_regions)]) srv2 s2"
      "closed s2 \<longleftrightarrow> ri_stopKey (snd two_regions) = [] \<or> str ''z'' \<le> ri_stopKey (snd two_regions)"
    using sample_region_read [OF s1(1) two(1) s1(4-6) two(2)] by blast
  then have "closed s2" by (simp add: two_regions_def NewInfo_def)
  with s2(1) show ?thesis by fastforce
qed

theorem scan_covers_range_witness:
  "\<exists>visited srv s. scan_run sample_range [NumberOfRows 5] visited srv s \<and> closed s \<and>
    map snd visited = [fst two_regions, snd two_regions] \<and>
    (\<exists>!j. j < length visited \<and> has_row (snd (visited ! j)) (str ''p'') \<and> in_scan (fst (visited ! j)) (str ''p''))"
proof -
  obtain visited srv s where s: "scan_run sample_range [NumberOfRows 5] visited srv s" "closed s"
      "map snd visited = [fst two_regions, snd two_regions]" using sample_scan_run by (elim exE conjE)
  have "in_scan sample_range (str ''p'')" by (simp add: in_scan_def sample_range_fields) (simp add: str_def)
  moreover have "\<forall>opt \<in> set [NumberOfRows 5]. library_option opt" by (auto intro: library_option.intros)
  ultimately have "\<exists>!j. j < length visited \<and> has_row (snd (visited ! j)) (str ''p'') \<and> in_scan (fst (visited ! j)) (str ''p'')"
    using scan_covers_range [OF _ sample_range_fields(1-3) s(1)] s(2) by blast
  with s show ?thesis by (intro exI conjI)
qed

text \<open>
  C36. The row at which a reversed scan continues below a region: it is smaller than the start
  key of the region, and the rows between the two, which the scan does not see, are exactly
  the proper extensions of the padded row, when the start key does not end in a zero byte.
  The nearest smaller row does not exist; rows that end in more than eight bytes \<open>0xff\<close> can be
  skipped.
\<close>

theorem row_before_exact:
  assumes "rsk \<noteq> []"
  shows "row_before rsk < rsk \<and>
    (row_before rsk < k \<and> k < rsk \<longleftrightarrow> last rsk \<noteq> 0 \<and> (\<exists>t. t \<noteq> [] \<and> k = row_before rsk @ t))"
  using assms
proof (cases rule: row_before_cases)
  case (shorten p)
  have "\<not> ([] < w \<and> w < [0])" for w :: bytes by (cases w) auto
  then have "\<not> (p < k \<and> k < p @ [0])" using between_prefix [of p "[]" k "[0]"] by auto
  moreover have "p < p @ [0]" using append_less_iff [of p "[]" "[0]"] by simp
  ultimately show ?thesis using shorten by auto
next
  case (lower p b)
  have "p @ (b - 1) # rowPadding < k \<and> k < p @ [b] \<longleftrightarrow> (\<exists>w. k = p @ w \<and> (b - 1) # rowPadding < w \<and> w < [b])"
    using between_prefix append_less_iff by blast
  also have "\<dots> \<longleftrightarrow> (\<exists>t. t \<noteq> [] \<and> k = (p @ (b - 1) # rowPadding) @ t)"
    using row_below_byte [OF lower(2)] by auto
  finally have "p @ (b - 1) # rowPadding < k \<and> k < p @ [b] \<longleftrightarrow> (\<exists>t. t \<noteq> [] \<and> k = (p @ (b - 1) # rowPadding) @ t)" .
  moreover have "b - 1 < b" using lower(2) by (simp add: word_less_nat_alt unat_minus_one unat_gt_0)
  ultimately show ?thesis using lower append_less_iff by auto
qed

theorem row_before_exact_witness:
  "row_before (str ''b'') < str ''b'' \<and> row_before (str ''b'') < str ''a'' @ rowPadding @ [255] \<and>
    str ''a'' @ rowPadding @ [255] < str ''b''"
proof -
  have ne: "str ''b'' \<noteq> []" "last (str ''b'') \<noteq> 0" by (simp_all add: str_def)
  have eq: "str ''a'' @ rowPadding @ [255] = row_before (str ''b'') @ [255]" by (simp add: row_before_def str_def)
  show ?thesis using row_before_exact [OF ne(1), of "str ''a'' @ rowPadding @ [255]"] ne(2) unfolding eq by blast
qed

end
