(* ===== verification/Rpc.thy ===== *)
theory Rpc
  imports Client_Region_Cache Scanner Region_Client
begin

text \<open>
  How the client finds the region of a call and sends it there (\<^verbatim>\<open>src/rpc.go\<close>): the lookup in
  the caches and in \<^verbatim>\<open>hbase:meta\<close>, what an error does to regions and clients, retries with
  backoff, and batches. What other goroutines and servers do is given by the arguments of the
  operations: the replies to a meta scan, the outcome of waiting, and so on. Goroutines that
  an operation starts are logged.
\<close>

section \<open>State\<close>

datatype goroutine = Reestablish region | Establish region string

text \<open>
  The client; region clients are known by their identity, as in the client cache. The channel
  \<^verbatim>\<open>done\<close> is \<open>None\<close> when it is \<^verbatim>\<open>nil\<close>, else it says whether the channel is closed;
  \<^verbatim>\<open>closeOnce\<close> is whether its function was started.
\<close>

record 't gclient =
  gc_clientType :: client_type
  gc_regions :: 't
  gc_clients :: client_cache
  gc_heap :: region_heap
  gc_metaRegionInfo :: region
  gc_adminRegionInfo :: region
  gc_closeOnce :: bool
  gc_done :: "bool option"
  gc_started :: "goroutine list"

definition metaTableName :: bytes where
  "metaTableName = str ''hbase:meta''"

definition infoFamily :: "(gostring \<times> gostring list) list" where
  "infoFamily = [(str ''info'', [])]"

definition maxFindRegionTries :: nat where "maxFindRegionTries = 10"

section \<open>Backoff\<close>

text \<open>\<^verbatim>\<open>time.Duration\<close>, in nanoseconds.\<close>

definition millisecond :: int where "millisecond = 1000000"
definition second :: int where "second = 1000000000"
definition backoffStart :: int where "backoffStart = 16 * millisecond"

definition sleepAndIncreaseBackoff :: "bool \<Rightarrow> int \<Rightarrow> go_error + int" where
  "sleepAndIncreaseBackoff ctx_done backoff =
     (if backoff = 0 then Inr backoffStart
      else if ctx_done then Inl ContextEnded
      else if backoff < 5 * second then Inr (backoff * 2)
      else if backoff < 30 * second then Inr (backoff + 5 * second)
      else Inr backoff)"

section \<open>Errors of regions and clients\<close>

definition start_goroutine :: "goroutine \<Rightarrow> 't gclient \<Rightarrow> 't gclient" where
  "start_goroutine g G = G\<lparr>gc_started := gc_started G @ [g]\<rparr>"

text \<open>\<^verbatim>\<open>if reg.MarkUnavailable() { go c.reestablishRegion(reg) }\<close>, with what else happens inside.\<close>

definition mark_and_reestablish :: "(region_heap \<Rightarrow> region_heap) \<Rightarrow> region \<Rightarrow> 't gclient \<Rightarrow> 't gclient" where
  "mark_and_reestablish f reg G =
     (case MarkUnavailable reg (gc_heap G) of (created, h) \<Rightarrow>
        if created then start_goroutine (Reestablish reg) (G\<lparr>gc_heap := f h\<rparr>) else G\<lparr>gc_heap := h\<rparr>)"

definition drop_client :: "region \<Rightarrow> 't gclient \<Rightarrow> 't gclient" where
  "drop_client reg G = mark_and_reestablish (SetClient reg None) reg G"

definition clientDown :: "nat \<Rightarrow> region \<Rightarrow> 't gclient \<Rightarrow> 't gclient" where
  "clientDown cl reg G =
     (case crc_clientDown cl (gc_clients G) of (downregions, rcc) \<Rightarrow>
        fold (\<lambda>downreg G. if ri_ptr downreg = ri_ptr reg then G else drop_client downreg G) downregions
          (drop_client reg (G\<lparr>gc_clients := rcc\<rparr>)))"

definition handleResultError :: "rpc_error \<Rightarrow> region \<Rightarrow> nat \<Rightarrow> 't gclient \<Rightarrow> 't gclient" where
  "handleResultError err reg rc G =
     (case err of
        NotServingRegionError _ \<Rightarrow> mark_and_reestablish id reg G
      | ServerError _ \<Rightarrow>
          if ri_ptr reg = ri_ptr (gc_adminRegionInfo G) then mark_and_reestablish id reg G
          else clientDown rc reg G
      | _ \<Rightarrow> G)"

section \<open>Looking up regions\<close>

definition getRegionFromCache ::
  "('t, 'e) tree_ops \<Rightarrow> 't gclient \<Rightarrow> bytes \<Rightarrow> bytes \<Rightarrow> (unit, region option) outcome" where
  "getRegionFromCache T G table key =
     (if gc_clientType G = MasterClient then Ok (Some (gc_adminRegionInfo G))
      else if table = metaTableName then Ok (Some (gc_metaRegionInfo G))
      else cached_region T (gc_regions G) table key)"

definition meta_options :: "call_option list" where
  "meta_options = [Families infoFamily, Reversed, CloseScanner, NumberOfRows 1]"

text \<open>
  \<^verbatim>\<open>metaLookup\<close>: \<open>replies\<close> are the replies to the scan, \<open>p\<close> the identity of the region made from
  the row; \<open>None\<close> when the scan waits for a reply.
\<close>

definition metaLookup ::
  "(bytes \<Rightarrow> string + region_info) \<Rightarrow> nat \<Rightarrow> bool \<Rightarrow> bytes \<Rightarrow> bytes \<Rightarrow> reply list
     \<Rightarrow> (go_error, region \<times> bytes) outcome option" where
  "metaLookup unmarshal p ctx_done table key replies =
     (case createRegionSearchKey table key of
        Panic q \<Rightarrow> Some (Panic q)
      | Err () \<Rightarrow> Some (Panic (Explicit ''unreachable''))
      | Ok metaKey \<Rightarrow>
          (case NewScanRange 0 0 metaTableName metaKey table meta_options of
             Panic q \<Rightarrow> Some (Panic q)
           | Err e \<Rightarrow> Some (Err (Message e))
           | Ok rpc \<Rightarrow>
               (case Next ctx_done (newScanner rpc meta_options) replies of
                  None \<Rightarrow> None
                | Some (Panic q) \<Rightarrow> Some (Panic q)
                | Some (Err ()) \<Rightarrow> Some (Panic (Explicit ''unreachable''))
                | Some (Ok ((resp, Some EOF), _)) \<Rightarrow> Some (Err TableNotFound)
                | Some (Ok ((resp, Some ContextError), _)) \<Rightarrow> Some (Err ContextEnded)
                | Some (Ok ((resp, Some (ScanError e)), _)) \<Rightarrow> Some (Err e)
                | Some (Ok ((None, None), _)) \<Rightarrow> Some (Panic NilDereference)
                | Some (Ok ((Some resp, None), _)) \<Rightarrow>
                    (case ParseRegionInfo unmarshal p (lr_Cells resp) of
                       Panic q \<Rightarrow> Some (Panic q)
                     | Err e \<Rightarrow> Some (Err (Message ''cannot parse meta row''))
                     | Ok (reg, addr) \<Rightarrow>
                         if table \<noteq> fullyQualifiedTable reg
                         then Some (Err (Message ''wtf: meta returned an entry for the wrong table!''))
                         else if ri_stopKey reg \<noteq> [] \<and> bytes_compare key (ri_stopKey reg) \<ge> 0
                         then Some (Err (Message ''wtf: meta returned an entry for the wrong region!''))
                         else Some (Ok (reg, addr))))))"

text \<open>
  One try of \<^verbatim>\<open>lookupRegion\<close>: what ZooKeeper answers, the replies of a meta scan and the identity
  of the region it makes, whether the lookup context, and later the context of the caller,
  ended.
\<close>

record lookup_try =
  lt_zk :: "go_error + gostring"
  lt_replies :: "reply list"
  lt_ptr :: nat
  lt_timeout :: bool
  lt_ctx_done :: bool

definition zkLookup :: "lookup_try \<Rightarrow> go_error + gostring" where
  "zkLookup t = (if lt_timeout t then Inl ContextEnded else lt_zk t)"

text \<open>The result of one try; \<open>None\<close> when it waits.\<close>

definition lookup_once ::
  "(bytes \<Rightarrow> string + region_info) \<Rightarrow> 't gclient \<Rightarrow> bytes \<Rightarrow> bytes \<Rightarrow> lookup_try
     \<Rightarrow> (go_error, region \<times> gostring) outcome option" where
  "lookup_once unmarshal G table key t =
     (if gc_clientType G = MasterClient
      then Some (case zkLookup t of Inl e \<Rightarrow> Err e | Inr addr \<Rightarrow> Ok (gc_adminRegionInfo G, addr))
      else if table = metaTableName
      then Some (case zkLookup t of Inl e \<Rightarrow> Err e | Inr addr \<Rightarrow> Ok (gc_metaRegionInfo G, addr))
      else metaLookup unmarshal (lt_ptr t) (lt_timeout t) table key (lt_replies t))"

definition meta_lookup_final :: "'t gclient \<Rightarrow> bytes \<Rightarrow> go_error \<Rightarrow> bool" where
  "meta_lookup_final G table e \<longleftrightarrow>
     gc_clientType G \<noteq> MasterClient \<and> table \<noteq> metaTableName \<and> (e = TableNotFound \<or> e = GohbaseClosed)"

fun lookupRegion ::
  "(bytes \<Rightarrow> string + region_info) \<Rightarrow> 't gclient \<Rightarrow> bytes \<Rightarrow> bytes \<Rightarrow> int \<Rightarrow> lookup_try list
     \<Rightarrow> (go_error, region \<times> gostring) outcome option" where
  "lookupRegion unmarshal G table key backoff [] = None"
| "lookupRegion unmarshal G table key backoff (t # ts) =
     (case lookup_once unmarshal G table key t of
        None \<Rightarrow> None
      | Some (Panic p) \<Rightarrow> Some (Panic p)
      | Some (Ok (reg, addr)) \<Rightarrow> Some (Ok (reg, addr))
      | Some (Err e) \<Rightarrow>
          if meta_lookup_final G table e then Some (Err e)
          else (case sleepAndIncreaseBackoff (lt_ctx_done t) backoff of
              Inl e' \<Rightarrow> Some (Err e')
            | Inr backoff' \<Rightarrow> lookupRegion unmarshal G table key backoff' ts))"

definition to_string :: "bytes \<Rightarrow> string" where
  "to_string b = map (\<lambda>x. char_of (unat x)) b"

definition same_region_ptr :: "region \<Rightarrow> region \<Rightarrow> bool" where
  "same_region_ptr a b \<longleftrightarrow> ri_ptr a = ri_ptr b"

text \<open>Removing regions that a new one replaced from the cache of clients.\<close>

definition del_clients :: "region list \<Rightarrow> 't gclient \<Rightarrow> 't gclient" where
  "del_clients rs G =
     (case fold (\<lambda>r (rcc, h). crc_del r rcc h) rs (gc_clients G, gc_heap G) of (rcc, h) \<Rightarrow>
        G\<lparr>gc_clients := rcc, gc_heap := h\<rparr>)"

text \<open>\<^verbatim>\<open>c.regions.put(reg)\<close>; the result is the overlaps and whether the region was put.\<close>

definition put_region :: "('t, 'e) tree_ops \<Rightarrow> region \<Rightarrow> 't gclient \<Rightarrow> (unit, put_vars \<times> 't gclient) outcome" where
  "put_region T reg G =
     and_then (krc_put T reg (gc_regions G) (gc_heap G)) (\<lambda>(v, t, h).
       Ok (v, G\<lparr>gc_regions := t, gc_heap := h\<rparr>))"

text \<open>\<^verbatim>\<open>findRegion\<close> after the lookup. A region that is \<open>None\<close> with no error asks to retry the cache.\<close>

definition found_region ::
  "('t, 'e) tree_ops \<Rightarrow> region \<Rightarrow> gostring \<Rightarrow> 't gclient \<Rightarrow> (unit, region option \<times> 't gclient) outcome" where
  "found_region T reg addr G =
     (let G1 = G\<lparr>gc_heap := snd (MarkUnavailable reg (gc_heap G))\<rparr> in
      if same_region_ptr reg (gc_metaRegionInfo G) \<or> same_region_ptr reg (gc_adminRegionInfo G)
      then Ok (Some reg, start_goroutine (Establish reg (to_string addr)) G1)
      else and_then (put_region T reg G1) (\<lambda>((overlaps, replaced), G2).
        if \<not> replaced then Ok (None, G2)
        else Ok (Some reg, start_goroutine (Establish reg (to_string addr)) (del_clients overlaps G2))))"

definition findRegion ::
  "('t, 'e) tree_ops \<Rightarrow> (bytes \<Rightarrow> string + region_info) \<Rightarrow> bytes \<Rightarrow> bytes \<Rightarrow> lookup_try list \<Rightarrow> ('t gclient \<Rightarrow> 't gclient)
     \<Rightarrow> 't gclient \<Rightarrow> (go_error \<times> 't gclient, region option \<times> 't gclient) outcome option" where
  "findRegion T unmarshal table key tries env G =
     (case lookupRegion unmarshal G table key backoffStart tries of
        None \<Rightarrow> None
      | Some (Panic p) \<Rightarrow> Some (Panic p)
      | Some (Err e) \<Rightarrow> Some (Err (e, env G))
      | Some (Ok (reg, addr)) \<Rightarrow>
          (case found_region T reg addr (env G) of
             Ok x \<Rightarrow> Some (Ok x) | Err () \<Rightarrow> Some (Panic (Explicit ''unreachable'')) | Panic p \<Rightarrow> Some (Panic p)))"

text \<open>
  The loop of \<^verbatim>\<open>getRegionForRpc\<close>. Each try has what the other goroutines do to the client before
  it, the tries of the lookup should the cache have no region, and what the other goroutines do
  while it looks up.
\<close>

record 't find_try =
  ft_env :: "'t gclient \<Rightarrow> 't gclient"
  ft_tries :: "lookup_try list"
  ft_lookup_env :: "'t gclient \<Rightarrow> 't gclient"

fun region_tries ::
  "('t, 'e) tree_ops \<Rightarrow> (bytes \<Rightarrow> string + region_info) \<Rightarrow> bytes \<Rightarrow> bytes \<Rightarrow> nat \<Rightarrow> 't find_try list \<Rightarrow> 't gclient
     \<Rightarrow> (go_error \<times> 't gclient, region \<times> 't gclient) outcome option" where
  "region_tries T unmarshal table key 0 envs G = Some (Err (CannotFindRegion, G))"
| "region_tries T unmarshal table key (Suc n) [] G = None"
| "region_tries T unmarshal table key (Suc n) (e # envs) G =
     (let G1 = ft_env e G in
      case getRegionFromCache T G1 table key of
        Panic p \<Rightarrow> Some (Panic p)
      | Err () \<Rightarrow> Some (Panic (Explicit ''unreachable''))
      | Ok (Some reg) \<Rightarrow> Some (Ok (reg, G1))
      | Ok None \<Rightarrow>
          (case findRegion T unmarshal table key (ft_tries e) (ft_lookup_env e) G1 of
             None \<Rightarrow> None
           | Some (Panic p) \<Rightarrow> Some (Panic p)
           | Some (Err err) \<Rightarrow> Some (Err err)
           | Some (Ok (Some reg, G2)) \<Rightarrow> Some (Ok (reg, G2))
           | Some (Ok (None, G2)) \<Rightarrow> region_tries T unmarshal table key n envs G2))"

definition getRegionForRpc ::
  "('t, 'e) tree_ops \<Rightarrow> (bytes \<Rightarrow> string + region_info) \<Rightarrow> 't find_try list \<Rightarrow> call \<Rightarrow> 't gclient
     \<Rightarrow> (go_error \<times> 't gclient, region \<times> 't gclient) outcome option" where
  "getRegionForRpc T unmarshal envs rpc G =
     region_tries T unmarshal (b_table (call_base rpc)) (b_key (call_base rpc)) maxFindRegionTries envs G"

section \<open>Waiting for a region\<close>

text \<open>
  Which case of a \<^verbatim>\<open>select\<close> on the context, the client's \<^verbatim>\<open>done\<close> and the availability channel is
  taken.
\<close>

datatype waited = WaitContext | WaitDone | WaitReady

text \<open>
  \<open>env\<close> is what the other goroutines do meanwhile. \<open>None\<close>: the case is not ready in the state
  in which it is said to be taken, and the goroutine still waits.
\<close>

definition wait_available ::
  "region \<Rightarrow> waited \<Rightarrow> ('t gclient \<Rightarrow> 't gclient) \<Rightarrow> 't gclient \<Rightarrow> (go_error option \<times> 't gclient) option" where
  "wait_available reg w env G =
     (case AvailabilityChan (gc_heap G) reg of
        None \<Rightarrow> Some (None, G)
      | Some ch \<Rightarrow>
          (let G' = env G in
           case w of
             WaitContext \<Rightarrow> Some (Some ContextEnded, G')
           | WaitDone \<Rightarrow> if gc_done G' = Some True then Some (Some GohbaseClosed, G') else None
           | WaitReady \<Rightarrow> if ch \<in> rh_closed (gc_heap G') then Some (None, G') else None))"

text \<open>
  One turn of \<^verbatim>\<open>getRegionAndClientForRPC\<close>: the lookup of the region and the two waits, with what
  the other goroutines do meanwhile.
\<close>

record 't turn =
  tu_envs :: "'t find_try list"
  tu_wait1 :: waited
  tu_env1 :: "'t gclient \<Rightarrow> 't gclient"
  tu_wait2 :: waited
  tu_env2 :: "'t gclient \<Rightarrow> 't gclient"

text \<open>The part of a turn after the region was found; \<open>Inr None\<close> is \<^verbatim>\<open>continue\<close>.\<close>

definition client_of_region ::
  "region \<Rightarrow> 't turn \<Rightarrow> 't gclient \<Rightarrow> ((go_error + nat option) \<times> 't gclient) option" where
  "client_of_region reg t G =
     (case wait_available reg (tu_wait1 t) (tu_env1 t) G of
        None \<Rightarrow> None
      | Some (Some e, G1) \<Rightarrow> Some (Inl e, G1)
      | Some (None, G1) \<Rightarrow>
          (case Client (gc_heap G1) reg of
             Some cl \<Rightarrow> Some (Inr (Some cl), G1)
           | None \<Rightarrow>
               (case wait_available reg (tu_wait2 t) (tu_env2 t) (mark_and_reestablish id reg G1) of
                  None \<Rightarrow> None
                | Some (Some e, G2) \<Rightarrow> Some (Inl e, G2)
                | Some (None, G2) \<Rightarrow>
                    if ContextDone (gc_heap G2) reg then Some (Inr None, G2)
                    else Some (Inr (Client (gc_heap G2) reg), G2))))"

text \<open>The result holds the client, the call with its region, and the state.\<close>

fun getRegionAndClientForRPC ::
  "('t, 'e) tree_ops \<Rightarrow> (bytes \<Rightarrow> string + region_info) \<Rightarrow> 't turn list \<Rightarrow> call \<Rightarrow> 't gclient
     \<Rightarrow> (go_error \<times> 't gclient, (nat \<times> region \<times> call) \<times> 't gclient) outcome option" where
  "getRegionAndClientForRPC T unmarshal [] rpc G = None"
| "getRegionAndClientForRPC T unmarshal (t # ts) rpc G =
     (case getRegionForRpc T unmarshal (tu_envs t) rpc G of
        None \<Rightarrow> None
      | Some (Panic p) \<Rightarrow> Some (Panic p)
      | Some (Err e) \<Rightarrow> Some (Err e)
      | Some (Ok (reg, G1)) \<Rightarrow>
          (case client_of_region reg t G1 of
             None \<Rightarrow> None
           | Some (Inl e, G2) \<Rightarrow> Some (Err (e, G2))
           | Some (Inr (Some cl), G2) \<Rightarrow> Some (Ok ((cl, reg, SetRegion rpc reg), G2))
           | Some (Inr None, G2) \<Rightarrow> getRegionAndClientForRPC T unmarshal ts rpc G2))"

section \<open>Sending one call\<close>

text \<open>
  \<^verbatim>\<open>sendBlocking\<close> returns what the region client delivered (see \<open>QueueRPC\<close> of the region
  client), or, \<open>None\<close>, that the context ended first.
\<close>

definition sendRPCToRegionClient ::
  "rpc_result option \<Rightarrow> region \<Rightarrow> nat \<Rightarrow> 't gclient \<Rightarrow> (go_error + rpc_msg option) \<times> 't gclient" where
  "sendRPCToRegionClient res reg rc G =
     (case res of
        None \<Rightarrow> (Inl ContextEnded, G)
      | Some (Inl err) \<Rightarrow> (Inl (RegionError err), handleResultError err reg rc G)
      | Some (Inr msg) \<Rightarrow> (Inr msg, G))"

text \<open>
  One turn of \<^verbatim>\<open>SendRPC\<close>: finding the client, what it answers, what the other goroutines do
  until then, and whether the context ends while sleeping.
\<close>

record 't attempt =
  at_turns :: "'t turn list"
  at_result :: "rpc_result option"
  at_env :: "'t gclient \<Rightarrow> 't gclient"
  at_ctx_done :: bool

fun SendRPC_loop ::
  "('t, 'e) tree_ops \<Rightarrow> (bytes \<Rightarrow> string + region_info) \<Rightarrow> 't attempt list \<Rightarrow> int \<Rightarrow> call \<Rightarrow> 't gclient
     \<Rightarrow> (go_error \<times> 't gclient, rpc_msg option \<times> 't gclient) outcome option" where
  "SendRPC_loop T unmarshal [] backoff rpc G = None"
| "SendRPC_loop T unmarshal (a # as) backoff rpc G =
     (case getRegionAndClientForRPC T unmarshal (at_turns a) rpc G of
        None \<Rightarrow> None
      | Some (Panic p) \<Rightarrow> Some (Panic p)
      | Some (Err e) \<Rightarrow> Some (Err e)
      | Some (Ok ((rc, reg, rpc'), G1)) \<Rightarrow>
          (case sendRPCToRegionClient (at_result a) reg rc (at_env a G1) of
             (Inr msg, G2) \<Rightarrow> Some (Ok (msg, G2))
           | (Inl (RegionError (RetryableError _)), G2) \<Rightarrow>
               (case sleepAndIncreaseBackoff (at_ctx_done a) backoff of
                  Inl e \<Rightarrow> Some (Err (e, G2))
                | Inr backoff' \<Rightarrow> SendRPC_loop T unmarshal as backoff' rpc' G2)
           | (Inl (RegionError (ServerError _)), G2) \<Rightarrow> SendRPC_loop T unmarshal as backoff rpc' G2
           | (Inl (RegionError (NotServingRegionError _)), G2) \<Rightarrow> SendRPC_loop T unmarshal as backoff rpc' G2
           | (Inl e, G2) \<Rightarrow> Some (Err (e, G2))))"

definition SendRPC ::
  "('t, 'e) tree_ops \<Rightarrow> (bytes \<Rightarrow> string + region_info) \<Rightarrow> 't attempt list \<Rightarrow> call \<Rightarrow> 't gclient
     \<Rightarrow> (go_error \<times> 't gclient, rpc_msg option \<times> 't gclient) outcome option" where
  "SendRPC T unmarshal as rpc G = SendRPC_loop T unmarshal as backoffStart rpc G"

section \<open>Batches\<close>

type_synonym batch_result = "go_error + rpc_msg option"

definition is_error :: "batch_result \<Rightarrow> bool" where
  "is_error r = (case r of Inl _ \<Rightarrow> True | Inr _ \<Rightarrow> False)"

text \<open>
  The checks at the start of \<^verbatim>\<open>SendBatch\<close>: the first component holds the results so far and
  the second where each call is, by its identity.
\<close>

definition check_call :: "bytes \<Rightarrow> (nat \<times> nat) list \<Rightarrow> nat \<Rightarrow> call \<Rightarrow> batch_result \<times> bool" where
  "check_call table seen i rpc =
     (if map_of seen (call_id rpc) \<noteq> None then (Inl (Message ''duplicate call in batch''), False)
      else if b_table (call_base rpc) \<noteq> table then (Inl (Message ''multiple tables in batch request''), False)
      else if SkipBatch_of rpc \<noteq> Some False then (Inl (Message ''non-batchable call passed to SendBatch''), False)
      else (Inl NotExecutedError, True))"

fun check_batch ::
  "bytes \<Rightarrow> (nat \<times> nat) list \<Rightarrow> nat \<Rightarrow> call list \<Rightarrow> batch_result list \<times> (nat \<times> nat) list \<times> bool" where
  "check_batch table seen i [] = ([], seen, True)"
| "check_batch table seen i (rpc # rpcs) =
     (case check_call table seen i rpc of (r, ok) \<Rightarrow>
        let seen' = (if map_of seen (call_id rpc) \<noteq> None then seen else seen @ [(call_id rpc, i)]) in
        case check_batch table seen' (Suc i) rpcs of (rs, m, oks) \<Rightarrow> (r # rs, m, ok \<and> oks))"

text \<open>Adding a call to the list of its client in \<^verbatim>\<open>rpcByClient\<close>.\<close>

fun add_to_client :: "nat \<Rightarrow> 'a \<Rightarrow> (nat \<times> 'a list) list \<Rightarrow> (nat \<times> 'a list) list" where
  "add_to_client rc x [] = [(rc, [x])]"
| "add_to_client rc x ((rc', xs) # gs) =
     (if rc' = rc then (rc', xs @ [x]) # gs else (rc', xs) # add_to_client rc x gs)"

type_synonym call_groups = "(nat \<times> (call \<times> region) list) list"

text \<open>\<^verbatim>\<open>findClients\<close>: there is a list of turns for each call.\<close>

fun findClients ::
  "('t, 'e) tree_ops \<Rightarrow> (bytes \<Rightarrow> string + region_info) \<Rightarrow> nat \<Rightarrow> 't turn list list \<Rightarrow> call list \<Rightarrow> batch_result list
     \<Rightarrow> call_groups \<Rightarrow> bool \<Rightarrow> 't gclient
     \<Rightarrow> (unit, (call_groups \<times> batch_result list \<times> bool) \<times> 't gclient) outcome option" where
  "findClients T unmarshal i tss [] res gs ok G = Some (Ok ((gs, res, ok), G))"
| "findClients T unmarshal i [] (rpc # rpcs) res gs ok G = None"
| "findClients T unmarshal i (ts # tss) (rpc # rpcs) res gs ok G =
     (case getRegionAndClientForRPC T unmarshal ts rpc G of
        None \<Rightarrow> None
      | Some (Panic p) \<Rightarrow> Some (Panic p)
      | Some (Err (e, G1)) \<Rightarrow> findClients T unmarshal (Suc i) tss rpcs (res[i := Inl e]) gs False G1
      | Some (Ok ((rc, reg, rpc'), G1)) \<Rightarrow>
          findClients T unmarshal (Suc i) tss rpcs res (add_to_client rc (rpc', reg) gs) ok G1)"

text \<open>
  \<^verbatim>\<open>waitForCompletion\<close>: an arrival is the result that the channel of a call delivers to the
  first loop, \<open>None\<close> when the context ends before, what a read that does not block finds in the
  second loop, and what the other goroutines do until then.
\<close>

record 't arrival =
  ar_first :: "rpc_result option"
  ar_second :: "rpc_result option"
  ar_env :: "'t gclient \<Rightarrow> 't gclient"

definition set_result :: "(nat \<times> nat) list \<Rightarrow> call \<Rightarrow> batch_result \<Rightarrow> batch_result list \<Rightarrow> batch_result list" where
  "set_result rpcToRes rpc r rs =
     rs[(case map_of rpcToRes (call_id rpc) of None \<Rightarrow> 0 | Some i \<Rightarrow> i) := r]"

definition batch_result_of :: "rpc_result \<Rightarrow> batch_result" where
  "batch_result_of res = (case res of Inl err \<Rightarrow> Inl (RegionError err) | Inr msg \<Rightarrow> Inr msg)"

definition store_arrival ::
  "(nat \<times> nat) list \<Rightarrow> nat \<Rightarrow> ('t gclient \<Rightarrow> 't gclient) \<Rightarrow> call \<times> region \<Rightarrow> rpc_result
     \<Rightarrow> batch_result list \<times> 't gclient \<Rightarrow> batch_result list \<times> 't gclient" where
  "store_arrival rpcToRes rc env cr res s =
     (set_result rpcToRes (fst cr) (batch_result_of res) (fst s),
      (case res of Inl err \<Rightarrow> handleResultError err (snd cr) rc (env (snd s)) | Inr msg \<Rightarrow> env (snd s)))"

fun drain_results ::
  "(nat \<times> nat) list \<Rightarrow> nat \<Rightarrow> (nat \<Rightarrow> 't arrival) \<Rightarrow> (call \<times> region) list \<Rightarrow> batch_result list \<times> 't gclient
     \<Rightarrow> batch_result list \<times> 't gclient" where
  "drain_results rpcToRes rc arrival [] s = s"
| "drain_results rpcToRes rc arrival (cr # crs) s =
     drain_results rpcToRes rc arrival crs
       (case ar_second (arrival (call_id (fst cr))) of
          Some res \<Rightarrow> store_arrival rpcToRes rc (ar_env (arrival (call_id (fst cr)))) cr res s
        | None \<Rightarrow> (set_result rpcToRes (fst cr) (Inl ContextEnded) (fst s), snd s))"

fun waitForCompletion ::
  "(nat \<times> nat) list \<Rightarrow> nat \<Rightarrow> (nat \<Rightarrow> 't arrival) \<Rightarrow> (call \<times> region) list \<Rightarrow> bool \<Rightarrow> batch_result list \<times> 't gclient
     \<Rightarrow> bool \<times> batch_result list \<times> 't gclient" where
  "waitForCompletion rpcToRes rc arrival [] ok s = (ok, s)"
| "waitForCompletion rpcToRes rc arrival (cr # crs) ok s =
     (case ar_first (arrival (call_id (fst cr))) of
        Some res \<Rightarrow>
          waitForCompletion rpcToRes rc arrival crs (ok \<and> \<not> is_error (batch_result_of res))
            (store_arrival rpcToRes rc (ar_env (arrival (call_id (fst cr)))) cr res s)
      | None \<Rightarrow> (False, drain_results rpcToRes rc arrival (cr # crs) s))"

fun wait_groups ::
  "(nat \<times> nat) list \<Rightarrow> (nat \<Rightarrow> 't arrival) \<Rightarrow> (nat \<times> (call \<times> region) list) list \<Rightarrow> bool
     \<Rightarrow> batch_result list \<times> 't gclient \<Rightarrow> bool \<times> batch_result list \<times> 't gclient" where
  "wait_groups rpcToRes arrival [] ok s = (ok, s)"
| "wait_groups rpcToRes arrival ((rc, crs) # gs) ok s =
     (case waitForCompletion rpcToRes rc arrival crs True s of
        (ok', s') \<Rightarrow> wait_groups rpcToRes arrival gs (ok \<and> ok') s')"

text \<open>\<open>order\<close> is the order in which Go visits the map of clients.\<close>

definition SendBatch ::
  "('t, 'e) tree_ops \<Rightarrow> (bytes \<Rightarrow> string + region_info) \<Rightarrow> (call_groups \<Rightarrow> call_groups) \<Rightarrow> 't turn list list
     \<Rightarrow> (nat \<Rightarrow> 't arrival) \<Rightarrow> call list \<Rightarrow> 't gclient
     \<Rightarrow> (unit, (batch_result list \<times> bool) \<times> 't gclient) outcome option" where
  "SendBatch T unmarshal order tss arrival batch G =
     (case batch of
        [] \<Rightarrow> Some (Ok (([], True), G))
      | first # _ \<Rightarrow>
          (case check_batch (b_table (call_base first)) [] 0 batch of (res, rpcToRes, allOK) \<Rightarrow>
             if \<not> allOK then Some (Ok ((res, False), G))
             else
               (case findClients T unmarshal 0 tss batch res [] True G of
                  None \<Rightarrow> None
                | Some (Panic p) \<Rightarrow> Some (Panic p)
                | Some (Err e) \<Rightarrow> Some (Err e)
                | Some (Ok ((gs, res', ok), G1)) \<Rightarrow>
                    if \<not> ok then Some (Ok ((res', False), G1))
                    else
                      (case wait_groups rpcToRes arrival (order gs) True (res', G1) of (ok', res'', G') \<Rightarrow>
                         Some (Ok ((res'', ok'), G'))))))"

section \<open>Facts about lookups\<close>

text \<open>A region that serves a row of a table, as far as the client checks it.\<close>

definition region_for :: "bytes \<Rightarrow> bytes \<Rightarrow> region \<Rightarrow> bool" where
  "region_for table key reg \<longleftrightarrow>
     fullyQualifiedTable reg = table \<and> (ri_stopKey reg = [] \<or> key < ri_stopKey reg)"

lemma cached_region_for: "cached_region T t table key = Ok (Some reg) \<Longrightarrow> region_for table key reg"
  by (auto simp: cached_region_def region_for_def not_le split: option.splits if_splits)

lemma metaLookup_for: "metaLookup unmarshal p d table key rs = Some (Ok (reg, addr)) \<Longrightarrow> region_for table key reg"
  by (auto simp: metaLookup_def region_for_def not_le
      split: outcome.splits option.splits prod.splits scan_error.splits if_splits unit.splits)

lemma lookupRegion_for:
  assumes "lookupRegion unmarshal G table key b ts = Some (Ok (reg, addr))" "gc_clientType G \<noteq> MasterClient"
    "table \<noteq> metaTableName"
  shows "region_for table key reg"
  using assms
proof (induction ts arbitrary: b)
  case (Cons t ts)
  then show ?case using metaLookup_for
    by (auto simp: lookup_once_def split: option.splits outcome.splits if_splits sum.splits)
qed simp

lemma findRegion_cases:
  assumes "findRegion T unmarshal table key ts env G = Some (Ok (r, G'))"
  obtains reg addr where "lookupRegion unmarshal G table key backoffStart ts = Some (Ok (reg, addr))"
    "found_region T reg addr (env G) = Ok (r, G')"
  using assms by (auto simp: findRegion_def split: option.splits outcome.splits prod.splits unit.splits)

lemma found_region_type:
  "found_region T reg addr G = Ok (r, G') \<Longrightarrow> gc_clientType G' = gc_clientType G \<and> (r = None \<or> r = Some reg)"
  by (auto simp: found_region_def Let_def start_goroutine_def del_clients_def put_region_def
      split: if_splits prod.splits)

lemma findRegion_type:
  "findRegion T unmarshal table key ts env G = Some (Ok (r, G')) \<Longrightarrow> gc_clientType G' = gc_clientType (env G)"
  by (elim findRegion_cases) (simp add: found_region_type)

lemma findRegion_for:
  "findRegion T unmarshal table key ts env G = Some (Ok (Some reg, G')) \<Longrightarrow> gc_clientType G \<noteq> MasterClient \<Longrightarrow>
    table \<noteq> metaTableName \<Longrightarrow> region_for table key reg"
  by (elim findRegion_cases) (auto dest: found_region_type lookupRegion_for)

lemma lookupRegion_errors:
  assumes "lookupRegion unmarshal G table key b ts = Some (Err e)"
  shows "e \<in> {TableNotFound, GohbaseClosed, ContextEnded}"
  using assms
proof (induction ts arbitrary: b)
  case (Cons t ts)
  then show ?case
    by (auto simp: meta_lookup_final_def sleepAndIncreaseBackoff_def
        split: option.splits outcome.splits if_splits sum.splits)
qed simp

lemma findRegion_errors:
  "findRegion T unmarshal table key ts env G = Some (Err (e, G')) \<Longrightarrow> e \<in> {TableNotFound, GohbaseClosed, ContextEnded}"
  using lookupRegion_errors [of unmarshal G table key backoffStart ts e]
  by (auto simp: findRegion_def split: option.splits outcome.splits prod.splits unit.splits)

lemma region_tries_errors:
  "region_tries T unmarshal table key n envs G = Some (Err (e, G')) \<Longrightarrow>
    e \<in> {TableNotFound, GohbaseClosed, ContextEnded, CannotFindRegion}"
  by (induction T unmarshal table key n envs G rule: region_tries.induct)
    (auto simp: Let_def dest!: findRegion_errors split: option.splits outcome.splits prod.splits unit.splits)

lemma client_of_region_errors: "client_of_region reg t G = Some (Inl e, G') \<Longrightarrow> e \<in> {GohbaseClosed, ContextEnded}"
  by (auto simp: client_of_region_def wait_available_def Let_def split: option.splits prod.splits waited.splits if_splits)

lemma getRegionAndClient_errors:
  "getRegionAndClientForRPC T unmarshal ts rpc G = Some (Err (e, G')) \<Longrightarrow>
    e \<in> {TableNotFound, GohbaseClosed, ContextEnded, CannotFindRegion}"
  by (induction T unmarshal ts rpc G rule: getRegionAndClientForRPC.induct)
    (auto simp: getRegionForRpc_def dest!: region_tries_errors client_of_region_errors
      split: option.splits outcome.splits prod.splits sum.splits)

definition final_error :: "go_error \<Rightarrow> bool" where
  "final_error e \<longleftrightarrow> e \<in> {TableNotFound, GohbaseClosed, ContextEnded, CannotFindRegion} \<or> (\<exists>s. e = RegionError (OtherError s))"

lemma send_result_cases:
  assumes "sendRPCToRegionClient res reg rc G = (r, G')"
  obtains (msg) m where "r = Inr m" | (ctx) "r = Inl ContextEnded"
  | (retryable) m where "r = Inl (RegionError (RetryableError m))" | (server) m where "r = Inl (RegionError (ServerError m))"
  | (not_serving) m where "r = Inl (RegionError (NotServingRegionError m))" | (other) m where "r = Inl (RegionError (OtherError m))"
proof (cases res)
  case None
  then show ?thesis using assms ctx by (simp add: sendRPCToRegionClient_def)
next
  case (Some x)
  show ?thesis
  proof (cases x)
    case (Inl err)
    then show ?thesis using assms Some retryable server not_serving other
      by (cases err) (auto simp: sendRPCToRegionClient_def)
  next
    case (Inr m)
    then show ?thesis using assms Some msg by (auto simp: sendRPCToRegionClient_def)
  qed
qed

lemma sleep_error: "sleepAndIncreaseBackoff d b = Inl e \<Longrightarrow> e = ContextEnded"
  by (simp add: sleepAndIncreaseBackoff_def split: if_splits)

lemma SendRPC_loop_errors:
  "SendRPC_loop T unmarshal as b rpc G = Some (Err (e, G')) \<Longrightarrow> final_error e"
proof (induction "as" arbitrary: b rpc G)
  case (Cons a as)
  consider (fail) e' G1 where "getRegionAndClientForRPC T unmarshal (at_turns a) rpc G = Some (Err (e', G1))"
    | (found) rc reg rpc' G1 where "getRegionAndClientForRPC T unmarshal (at_turns a) rpc G = Some (Ok ((rc, reg, rpc'), G1))"
    using Cons.prems by (auto split: option.splits outcome.splits)
  then show ?case
  proof cases
    case fail
    then show ?thesis using Cons.prems getRegionAndClient_errors [OF fail] by (auto simp: final_error_def)
  next
    case found
    obtain r G2 where s: "sendRPCToRegionClient (at_result a) reg rc (at_env a G1) = (r, G2)" by force
    from s show ?thesis
    proof (cases rule: send_result_cases)
      case (retryable m)
      then show ?thesis using Cons found s
        by (cases "sleepAndIncreaseBackoff (at_ctx_done a) b") (auto simp: final_error_def dest: sleep_error)
    qed (use Cons found s in \<open>auto simp: final_error_def\<close>)
  qed
qed simp

lemma region_tries_for:
  assumes "region_tries T unmarshal table key n envs G = Some (Ok (reg, G'))" "gc_clientType G \<noteq> MasterClient"
    "table \<noteq> metaTableName" "\<forall>e \<in> set envs. \<forall>G. gc_clientType (ft_env e G) = gc_clientType G \<and> gc_clientType (ft_lookup_env e G) = gc_clientType G"
  shows "region_for table key reg"
  using assms
proof (induction n arbitrary: envs G)
  case (Suc n)
  then obtain e es where envs: "envs = e # es" by (cases envs) auto
  have ty: "gc_clientType (ft_env e G) \<noteq> MasterClient" using Suc.prems(2,4) envs by simp
  obtain ro where c: "getRegionFromCache T (ft_env e G) table key = Ok ro"
    using Suc.prems(1) envs by (auto simp: Let_def split: outcome.splits unit.splits)
  show ?case
  proof (cases ro)
    case (Some r)
    then have "cached_region T (gc_regions (ft_env e G)) table key = Ok (Some reg)"
      using c ty Suc.prems(1,3) envs by (auto simp: getRegionFromCache_def)
    then show ?thesis by (rule cached_region_for)
  next
    case None
    then obtain r G2 where f: "findRegion T unmarshal table key (ft_tries e) (ft_lookup_env e) (ft_env e G) = Some (Ok (r, G2))"
      using Suc.prems(1) envs c by (auto split: option.splits outcome.splits)
    show ?thesis
    proof (cases r)
      case (Some r')
      then show ?thesis using findRegion_for [of T unmarshal table key "ft_tries e" "ft_lookup_env e" "ft_env e G" reg G2] f ty Suc.prems(1,3) envs c None
        by auto
    next
      case none: None
      have "gc_clientType G2 \<noteq> MasterClient" using findRegion_type [OF f] ty Suc.prems(4) envs by simp
      moreover have "region_tries T unmarshal table key n es G2 = Some (Ok (reg, G'))"
        using Suc.prems(1) envs c None f none by simp
      ultimately show ?thesis using Suc.IH [of es G2] Suc.prems(3,4) envs by simp
    qed
  qed
qed simp

section \<open>Facts about failing clients\<close>

lemma mark_and_reestablish_eq:
  "mark_and_reestablish f reg G =
     (if IsUnavailable (gc_heap G) reg then G
      else G\<lparr>gc_heap := f (snd (MarkUnavailable reg (gc_heap G))), gc_started := gc_started G @ [Reestablish reg]\<rparr>)"
  by (cases "IsUnavailable (gc_heap G) reg")
    (auto simp: mark_and_reestablish_def start_goroutine_def MarkUnavailable_def IsUnavailable_def split: if_splits)

lemma drop_client_started:
  "gc_started (drop_client reg G) = gc_started G @ (if IsUnavailable (gc_heap G) reg then [] else [Reestablish reg])"
  "gc_clients (drop_client reg G) = gc_clients G" "gc_regions (drop_client reg G) = gc_regions G"
  by (simp_all add: drop_client_def mark_and_reestablish_eq)

lemma drop_client_unavailable:
  "IsUnavailable (gc_heap (drop_client reg G)) r \<longleftrightarrow> IsUnavailable (gc_heap G) r \<or> ri_ptr r = ri_ptr reg"
  by (auto simp: drop_client_def mark_and_reestablish_eq region_heap_defs)

lemma drop_client_Client:
  "Client (gc_heap (drop_client reg G)) r =
     (if ri_ptr r = ri_ptr reg \<and> \<not> IsUnavailable (gc_heap G) reg then None else Client (gc_heap G) r)"
  by (auto simp: drop_client_def mark_and_reestablish_eq region_heap_defs)

lemma IsUnavailable_ptr: "ri_ptr r = ri_ptr x \<Longrightarrow> IsUnavailable h r = IsUnavailable h x"
  by (simp add: region_heap_defs)

lemma fold_drop_client:
  assumes "distinct (map ri_ptr rs)"
  shows "gc_started (fold drop_client rs G) =
      gc_started G @ map Reestablish (filter (\<lambda>r. \<not> IsUnavailable (gc_heap G) r) rs) \<and>
    gc_clients (fold drop_client rs G) = gc_clients G \<and>
    (\<forall>r. IsUnavailable (gc_heap (fold drop_client rs G)) r \<longleftrightarrow> IsUnavailable (gc_heap G) r \<or> ri_ptr r \<in> ri_ptr ` set rs) \<and>
    (\<forall>r. Client (gc_heap (fold drop_client rs G)) r =
      (if ri_ptr r \<in> ri_ptr ` set rs \<and> \<not> IsUnavailable (gc_heap G) r then None else Client (gc_heap G) r))"
  using assms
proof (induction rs arbitrary: G)
  case (Cons x rs)
  have same: "filter (\<lambda>r. \<not> IsUnavailable (gc_heap (drop_client x G)) r) rs = filter (\<lambda>r. \<not> IsUnavailable (gc_heap G) r) rs"
    using Cons.prems by (intro filter_cong) (auto simp: drop_client_unavailable image_iff)
  have IH: "gc_started (fold drop_client rs (drop_client x G)) =
      gc_started (drop_client x G) @ map Reestablish (filter (\<lambda>r. \<not> IsUnavailable (gc_heap (drop_client x G)) r) rs)"
    "gc_clients (fold drop_client rs (drop_client x G)) = gc_clients (drop_client x G)"
    "IsUnavailable (gc_heap (fold drop_client rs (drop_client x G))) r \<longleftrightarrow>
      IsUnavailable (gc_heap (drop_client x G)) r \<or> ri_ptr r \<in> ri_ptr ` set rs"
    "Client (gc_heap (fold drop_client rs (drop_client x G))) r =
      (if ri_ptr r \<in> ri_ptr ` set rs \<and> \<not> IsUnavailable (gc_heap (drop_client x G)) r then None
       else Client (gc_heap (drop_client x G)) r)" for r
    using Cons.IH [of "drop_client x G"] Cons.prems by auto
  have "Client (gc_heap (fold drop_client (x # rs) G)) r =
      (if ri_ptr r \<in> ri_ptr ` set (x # rs) \<and> \<not> IsUnavailable (gc_heap G) r then None else Client (gc_heap G) r)" for r
  proof (cases "ri_ptr r = ri_ptr x")
    case True
    then have "IsUnavailable (gc_heap G) r = IsUnavailable (gc_heap G) x" by (rule IsUnavailable_ptr)
    then show ?thesis using IH(4) [of r] True by (simp add: drop_client_unavailable drop_client_Client)
  next
    case False
    then show ?thesis using IH(4) [of r] by (simp add: drop_client_unavailable drop_client_Client)
  qed
  moreover have "IsUnavailable (gc_heap (fold drop_client (x # rs) G)) r \<longleftrightarrow>
      IsUnavailable (gc_heap G) r \<or> ri_ptr r \<in> ri_ptr ` set (x # rs)" for r
    using IH(3) [of r] by (auto simp: drop_client_unavailable)
  ultimately show ?case using IH(1,2) same by (simp add: drop_client_started)
qed simp

lemma clientDown_fold:
  "clientDown cl reg G =
     fold drop_client (reg # filter (\<lambda>r. ri_ptr r \<noteq> ri_ptr reg) (fst (crc_clientDown cl (gc_clients G))))
       (G\<lparr>gc_clients := snd (crc_clientDown cl (gc_clients G))\<rparr>)"
proof -
  have "fold (\<lambda>d G. if ri_ptr d = ri_ptr reg then G else drop_client d G) ds G0 =
      fold drop_client (filter (\<lambda>r. ri_ptr r \<noteq> ri_ptr reg) ds) G0" for ds G0
    by (induction ds arbitrary: G0) auto
  then show ?thesis by (simp add: clientDown_def split_beta)
qed

lemma crc_clientDown_distinct:
  assumes "crc_inv rcc"
  shows "distinct (map ri_ptr (fst (crc_clientDown cl rcc)))"
proof -
  have "distinct (map ri_ptr (snd e))" if "find (\<lambda>e. cl_ptr (fst e) = cl) rcc = Some e" for e
    using that assms by (auto simp: crc_inv_def find_Some_iff)
  then show ?thesis by (auto simp: crc_clientDown_def split: option.splits)
qed

section \<open>Facts about batches\<close>

lemma call_id_SetRegion [simp]: "call_id (SetRegion c r) = call_id c"
  by (cases c) (simp_all add: call_id_def)

text \<open>After the checks every call has its position.\<close>

lemma check_batch_ok:
  assumes "check_batch table seen i rpcs = (res, m, True)"
  shows "m = seen @ zip (map call_id rpcs) [i..<i + length rpcs] \<and> distinct (map call_id rpcs) \<and>
    fst ` set seen \<inter> call_id ` set rpcs = {}"
  using assms
proof (induction rpcs arbitrary: seen i res m)
  case (Cons rpc rpcs)
  let ?seen = "seen @ [(call_id rpc, i)]"
  have fresh: "map_of seen (call_id rpc) = None"
    using Cons.prems by (auto simp: check_call_def Let_def split: if_splits prod.splits)
  then obtain rs where c: "check_batch table ?seen (Suc i) rpcs = (rs, m, True)"
    using Cons.prems by (auto simp: check_call_def Let_def split: if_splits prod.splits)
  have "call_id rpc \<notin> fst ` set seen" using fresh by (simp add: map_of_eq_None_iff)
  moreover have "[i..<i + length (rpc # rpcs)] = i # [Suc i..<Suc i + length rpcs]"
    by (simp add: upt_conv_Cons del: upt_Suc)
  ultimately show ?case using Cons.IH [OF c] by (auto simp del: upt_Suc)
qed simp

lemma check_batch_length: "length (fst (check_batch table seen i rpcs)) = length rpcs"
  by (induction table seen i rpcs rule: check_batch.induct) (auto simp: Let_def split: prod.splits)

lemma is_error_simps [simp]: "is_error (Inl e)" "\<not> is_error (Inr m)"
  by (simp_all add: is_error_def)

lemma check_batch_errors: "list_all is_error (fst (check_batch table seen i rpcs))"
  by (induction rpcs arbitrary: seen i) (simp_all add: Let_def check_call_def split_beta)

text \<open>\<^verbatim>\<open>findClients\<close> distributes the calls, each once, or reports errors.\<close>

definition group_calls :: "(nat \<times> (call \<times> region) list) list \<Rightarrow> (call \<times> region) list" where
  "group_calls gs = concat (map snd gs)"

lemma mset_add_to_client: "mset (concat (map snd (add_to_client rc x gs))) = add_mset x (mset (concat (map snd gs)))"
  by (induction rc x gs rule: add_to_client.induct) auto

lemma getRegionAndClient_call:
  "getRegionAndClientForRPC T unmarshal ts rpc G = Some (Ok ((rc, reg, rpc'), G')) \<Longrightarrow> rpc' = SetRegion rpc reg"
  by (induction T unmarshal ts rpc G rule: getRegionAndClientForRPC.induct)
    (auto split: option.splits outcome.splits prod.splits sum.splits)

lemma list_all_update: "list_all P xs \<Longrightarrow> P x \<Longrightarrow> list_all P (xs[i := x])"
  by (cases "i < length xs") (auto simp: list_all_length nth_list_update)

lemma findClients_spec:
  assumes "findClients T unmarshal i tss rpcs res gs ok G = Some (Ok ((gs', res', ok'), G'))"
    "i + length rpcs = length res" "list_all is_error res"
  shows "length res' = length res \<and> list_all is_error res' \<and> (ok' \<longrightarrow> ok \<and> res' = res \<and>
    image_mset (\<lambda>x. call_id (fst x)) (mset (group_calls gs')) =
      image_mset (\<lambda>x. call_id (fst x)) (mset (group_calls gs)) + mset (map call_id rpcs))"
  using assms
proof (induction rpcs arbitrary: i tss res gs ok G)
  case (Cons rpc rpcs)
  obtain ts tss' where tss: "tss = ts # tss'" using Cons.prems(1) by (cases tss) auto
  consider (fail) e G1 where "getRegionAndClientForRPC T unmarshal ts rpc G = Some (Err (e, G1))"
    | (found) rc reg rpc' G1 where "getRegionAndClientForRPC T unmarshal ts rpc G = Some (Ok ((rc, reg, rpc'), G1))"
    using Cons.prems(1) tss by (auto split: option.splits outcome.splits)
  then show ?case
  proof cases
    case fail
    have "findClients T unmarshal (Suc i) tss' rpcs (res[i := Inl e]) gs False G1 = Some (Ok ((gs', res', ok'), G'))"
      using Cons.prems(1) tss fail by simp
    from Cons.IH [OF this] Cons.prems(2,3) show ?thesis by (simp add: list_all_update)
  next
    case found
    have "findClients T unmarshal (Suc i) tss' rpcs res (add_to_client rc (rpc', reg) gs) ok G1 = Some (Ok ((gs', res', ok'), G'))"
      using Cons.prems(1) tss found by simp
    from Cons.IH [OF this] Cons.prems(2,3) getRegionAndClient_call [OF found]
    show ?thesis by (simp add: group_calls_def mset_add_to_client)
  qed
qed (simp add: group_calls_def)

text \<open>
  Waiting stores, at the position of each call of a group, what arrived for it. \<open>P\<close> is any
  property of positions and results that what can arrive satisfies.
\<close>

definition position :: "(nat \<times> nat) list \<Rightarrow> call \<times> region \<Rightarrow> nat" where
  "position m cr = (case map_of m (call_id (fst cr)) of None \<Rightarrow> 0 | Some i \<Rightarrow> i)"

lemma set_result_position: "set_result m (fst cr) r rs = rs[position m cr := r]"
  by (simp add: set_result_def position_def)

definition keeps :: "(nat \<Rightarrow> batch_result \<Rightarrow> bool) \<Rightarrow> nat set \<Rightarrow> batch_result list \<Rightarrow> batch_result list \<Rightarrow> bool" where
  "keeps P A rs rs' \<longleftrightarrow> length rs' = length rs \<and>
     (\<forall>i < length rs. (P i (rs ! i) \<or> i \<in> A \<longrightarrow> P i (rs' ! i)))"

lemma keeps_trans: "keeps P A rs rs' \<Longrightarrow> keeps P B rs' rs'' \<Longrightarrow> keeps P (A \<union> B) rs rs''"
  by (auto simp: keeps_def)

lemma keeps_refl: "keeps P {} rs rs"
  by (simp add: keeps_def)

lemma keeps_update: "P i r \<Longrightarrow> keeps P {i} rs (rs[i := r])"
  by (cases "i < length rs") (auto simp: keeps_def nth_list_update)

definition arrives :: "(nat \<Rightarrow> 't arrival) \<Rightarrow> call \<times> region \<Rightarrow> batch_result \<Rightarrow> bool" where
  "arrives arrival cr r \<longleftrightarrow> r = Inl ContextEnded \<or>
     (\<exists>x. r = batch_result_of x \<and> (ar_first (arrival (call_id (fst cr))) = Some x \<or> ar_second (arrival (call_id (fst cr))) = Some x))"

lemma drain_keeps:
  assumes "\<forall>cr \<in> set crs. \<forall>r. arrives arrival cr r \<longrightarrow> P (position m cr) r"
  shows "keeps P (position m ` set crs) (fst s) (fst (drain_results m rc arrival crs s))"
  using assms
proof (induction crs arbitrary: s)
  case (Cons cr crs)
  let ?r = "case ar_second (arrival (call_id (fst cr))) of Some x \<Rightarrow> batch_result_of x | None \<Rightarrow> Inl ContextEnded"
  let ?s = "case ar_second (arrival (call_id (fst cr))) of Some res \<Rightarrow> store_arrival m rc (ar_env (arrival (call_id (fst cr)))) cr res s
    | None \<Rightarrow> (set_result m (fst cr) (Inl ContextEnded) (fst s), snd s)"
  have "P (position m cr) ?r" using Cons.prems by (auto simp: arrives_def split: option.splits)
  then have "keeps P {position m cr} (fst s) ((fst s)[position m cr := ?r])" by (rule keeps_update)
  moreover have "fst ?s = (fst s)[position m cr := ?r]"
    by (simp add: store_arrival_def set_result_position split: option.split)
  ultimately have "keeps P {position m cr} (fst s) (fst ?s)" by simp
  from keeps_trans [OF this Cons.IH [of ?s]] Cons.prems show ?case by simp
qed (simp add: keeps_refl)

lemma wait_keeps:
  assumes "\<forall>cr \<in> set crs. \<forall>r. arrives arrival cr r \<longrightarrow> P (position m cr) r"
    "waitForCompletion m rc arrival crs ok s = (ok', s')"
  shows "keeps P (position m ` set crs) (fst s) (fst s')"
  using assms
proof (induction crs arbitrary: s ok)
  case (Cons cr crs)
  show ?case
  proof (cases "ar_first (arrival (call_id (fst cr)))")
    case None
    then show ?thesis using Cons.prems drain_keeps [OF Cons.prems(1), of s rc] by auto
  next
    case (Some x)
    have "P (position m cr) (batch_result_of x)" using Cons.prems Some by (auto simp: arrives_def)
    then have "keeps P {position m cr} (fst s) (fst (store_arrival m rc (ar_env (arrival (call_id (fst cr)))) cr x s))"
      by (simp add: store_arrival_def set_result_position keeps_update)
    from keeps_trans [OF this Cons.IH [of "ok \<and> \<not> is_error (batch_result_of x)" "store_arrival m rc (ar_env (arrival (call_id (fst cr)))) cr x s"]]
      Cons.prems Some show ?thesis by simp
  qed
qed (simp add: keeps_refl)

lemma wait_groups_keeps:
  assumes "\<forall>cr \<in> set (group_calls gs). \<forall>r. arrives arrival cr r \<longrightarrow> P (position m cr) r"
    "wait_groups m arrival gs ok s = (ok', s')"
  shows "keeps P (position m ` set (group_calls gs)) (fst s) (fst s')"
  using assms
proof (induction gs arbitrary: s ok)
  case (Cons g gs)
  obtain rc crs where g: "g = (rc, crs)" by force
  obtain ok1 s1 where w: "waitForCompletion m rc arrival crs True s = (ok1, s1)" by (metis prod_cases3)
  have "keeps P (position m ` set crs) (fst s) (fst s1)"
    by (rule wait_keeps [OF _ w]) (use Cons.prems(1) g in \<open>simp add: group_calls_def\<close>)
  from keeps_trans [OF this Cons.IH [of "ok \<and> ok1" s1]] Cons.prems g w show ?case
    by (simp add: group_calls_def image_Un)
qed (simp add: keeps_refl group_calls_def)

text \<open>Success is reported only when every call of every group got a message in the first loop.\<close>

lemma wait_ok:
  "waitForCompletion m rc arrival crs ok s = (True, s') \<Longrightarrow>
    ok \<and> (\<forall>cr \<in> set crs. \<exists>msg. ar_first (arrival (call_id (fst cr))) = Some (Inr msg))"
  by (induction m rc arrival crs ok s rule: waitForCompletion.induct)
    (auto simp: batch_result_of_def split: option.splits sum.splits)

lemma wait_groups_ok:
  "wait_groups m arrival gs ok s = (True, s') \<Longrightarrow>
    ok \<and> (\<forall>cr \<in> set (group_calls gs). \<exists>msg. ar_first (arrival (call_id (fst cr))) = Some (Inr msg))"
proof (induction gs arbitrary: ok s)
  case (Cons g gs)
  obtain rc crs where g: "g = (rc, crs)" by force
  obtain ok1 s1 where w: "waitForCompletion m rc arrival crs True s = (ok1, s1)" by (metis prod_cases3)
  have "wait_groups m arrival gs (ok \<and> ok1) s1 = (True, s')" using Cons.prems g w by simp
  from Cons.IH [OF this] wait_ok [of m rc arrival crs True s s1] w g show ?case by (auto simp: group_calls_def)
qed (simp add: group_calls_def)

text \<open>When all of them got a message, the messages are what is stored.\<close>

lemma wait_messages:
  assumes "\<forall>cr \<in> set crs. \<exists>msg. ar_first (arrival (call_id (fst cr))) = Some (Inr msg)"
    "waitForCompletion m rc arrival crs ok s = (ok', s')"
    "\<forall>cr \<in> set crs. \<forall>msg. ar_first (arrival (call_id (fst cr))) = Some (Inr msg) \<longrightarrow> P (position m cr) (Inr msg)"
  shows "keeps P (position m ` set crs) (fst s) (fst s')"
  using assms
proof (induction crs arbitrary: s ok)
  case (Cons cr crs)
  obtain msg where a: "ar_first (arrival (call_id (fst cr))) = Some (Inr msg)" using Cons.prems(1) by auto
  have "P (position m cr) (Inr msg)" using Cons.prems(3) a by simp
  then have "keeps P {position m cr} (fst s) (fst (store_arrival m rc (ar_env (arrival (call_id (fst cr)))) cr (Inr msg) s))"
    by (simp add: store_arrival_def set_result_position keeps_update batch_result_of_def)
  from keeps_trans [OF this Cons.IH [of "ok \<and> \<not> is_error (batch_result_of (Inr msg))" "store_arrival m rc (ar_env (arrival (call_id (fst cr)))) cr (Inr msg) s"]]
    Cons.prems a show ?case by simp
qed (simp add: keeps_refl)

lemma wait_groups_messages:
  assumes "\<forall>cr \<in> set (group_calls gs). \<exists>msg. ar_first (arrival (call_id (fst cr))) = Some (Inr msg)"
    "wait_groups m arrival gs ok s = (ok', s')"
    "\<forall>cr \<in> set (group_calls gs). \<forall>msg. ar_first (arrival (call_id (fst cr))) = Some (Inr msg) \<longrightarrow> P (position m cr) (Inr msg)"
  shows "keeps P (position m ` set (group_calls gs)) (fst s) (fst s')"
  using assms
proof (induction gs arbitrary: s ok)
  case (Cons g gs)
  obtain rc crs where g: "g = (rc, crs)" by force
  obtain ok1 s1 where w: "waitForCompletion m rc arrival crs True s = (ok1, s1)" by (metis prod_cases3)
  have "keeps P (position m ` set crs) (fst s) (fst s1)"
    by (rule wait_messages [OF _ w]) (use Cons.prems(1,3) g in \<open>simp_all add: group_calls_def\<close>)
  from keeps_trans [OF this Cons.IH [of "ok \<and> ok1" s1]] Cons.prems g w show ?case
    by (simp add: group_calls_def image_Un)
qed (simp add: keeps_refl group_calls_def)

lemma positions_of_groups:
  fixes batch :: "call list"
  assumes "distinct (map call_id batch)" "m = zip (map call_id batch) [0..<length batch]"
    "image_mset (\<lambda>x. call_id (fst x)) (mset crs) = mset (map call_id batch)"
  shows "position m ` set crs = {0..<length batch}"
    "cr \<in> set crs \<Longrightarrow> call_id (batch ! position m cr) = call_id (fst cr)"
proof -
  have pos: "position m cr = i" if "i < length batch" "call_id (fst cr) = call_id (batch ! i)" for cr :: "call \<times> region" and i
  proof -
    have "map_of m (map call_id batch ! i) = Some ([0..<length batch] ! i)"
      unfolding assms(2) by (rule map_of_zip_nth) (use assms(1) that in simp_all)
    then show ?thesis using that by (simp add: position_def)
  qed
  have ids: "(\<lambda>x. call_id (fst x)) ` set crs = call_id ` set batch"
    using arg_cong [OF assms(3), of set_mset] by simp
  have at: "\<exists>i < length batch. call_id (fst cr) = call_id (batch ! i)" if "cr \<in> set crs" for cr
  proof -
    have "call_id (fst cr) \<in> call_id ` set batch" using ids that by blast
    then show ?thesis by (auto simp: in_set_conv_nth)
  qed
  show "call_id (batch ! position m cr) = call_id (fst cr)" if "cr \<in> set crs" using at [OF that] pos by metis
  have "i \<in> position m ` set crs" if "i < length batch" for i
  proof -
    have "call_id (batch ! i) \<in> (\<lambda>x. call_id (fst x)) ` set crs" using ids that by simp
    then obtain cr where "cr \<in> set crs" "call_id (fst cr) = call_id (batch ! i)" by auto
    then show ?thesis using pos [OF that] by blast
  qed
  moreover have "position m cr < length batch" if "cr \<in> set crs" for cr using at [OF that] pos by metis
  ultimately show "position m ` set crs = {0..<length batch}" by auto
qed

lemma group_calls_order: "mset gs' = mset gs \<Longrightarrow> mset (group_calls gs') = mset (group_calls gs)"
  by (simp add: group_calls_def mset_concat) (metis mset_map sum_mset_sum_list)

lemma wait_groups_results:
  assumes "distinct (map call_id batch)" "m = zip (map call_id batch) [0..<length batch]"
    "image_mset (\<lambda>x. call_id (fst x)) (mset (group_calls gs)) = mset (map call_id batch)"
    "wait_groups m arrival gs True s = (allOK, s')" "s' = (res', G')" "length (fst s) = length batch"
  shows "length res' = length batch \<and>
    (allOK \<longrightarrow> (\<forall>i < length batch. \<exists>msg. ar_first (arrival (call_id (batch ! i))) = Some (Inr msg) \<and> res' ! i = Inr msg)) \<and>
    (\<forall>i < length batch. res' ! i = Inl ContextEnded \<or> (\<exists>x. res' ! i = batch_result_of x \<and>
      (ar_first (arrival (call_id (batch ! i))) = Some x \<or> ar_second (arrival (call_id (batch ! i))) = Some x)))"
proof -
  note pos = positions_of_groups [OF assms(1-3)] and w = assms(4)
  let ?P = "\<lambda>i r. r = Inl ContextEnded \<or> (\<exists>x. r = batch_result_of x \<and>
    (ar_first (arrival (call_id (batch ! i))) = Some x \<or> ar_second (arrival (call_id (batch ! i))) = Some x))"
  let ?Q = "\<lambda>i r. \<exists>msg. ar_first (arrival (call_id (batch ! i))) = Some (Inr msg) \<and> r = Inr msg"
  have "keeps ?P {0..<length batch} (fst s) (fst s')"
    using wait_groups_keeps [OF _ w, of ?P] pos by (simp add: arrives_def)
  moreover have "keeps ?Q {0..<length batch} (fst s) (fst s')" if allOK
    using wait_groups_messages [OF _ w, of ?Q] wait_groups_ok [of m arrival gs True s s'] w that pos by simp
  ultimately show ?thesis using assms(5,6) by (auto simp: keeps_def)
qed

section \<open>Properties\<close>

text \<open>
  C5. \<^verbatim>\<open>SendBatch\<close> returns one result per call, in the order of the calls. When it reports
  success, each result is the message that arrived for this very call. Otherwise nothing was
  sent and every result is an error, or every result is what arrived for its call, or the
  error of the context when nothing did.
\<close>

theorem SendBatch_results:
  assumes "SendBatch T unmarshal order tss arrival batch G = Some (Ok ((res, allOK), G'))"
    "\<forall>gs. mset (order gs) = mset gs"
  shows "length res = length batch \<and>
    (if allOK then \<forall>i < length batch. \<exists>msg. ar_first (arrival (call_id (batch ! i))) = Some (Inr msg) \<and> res ! i = Inr msg
     else list_all is_error res \<or>
       (\<forall>i < length batch. res ! i = Inl ContextEnded \<or> (\<exists>x. res ! i = batch_result_of x \<and>
         (ar_first (arrival (call_id (batch ! i))) = Some x \<or> ar_second (arrival (call_id (batch ! i))) = Some x))))"
proof (cases batch)
  case Nil
  then show ?thesis using assms(1) by (auto simp: SendBatch_def)
next
  case (Cons first rest)
  obtain res1 m ok1 where c: "check_batch (b_table (call_base first)) [] 0 batch = (res1, m, ok1)" by (metis prod_cases3)
  have len: "length res1 = length batch" "list_all is_error res1"
    using check_batch_length [of _ "[]" 0 batch] check_batch_errors [of _ "[]" 0 batch] c by (metis fst_conv)+
  show ?thesis
  proof (cases ok1)
    case False
    then show ?thesis using assms(1) Cons c len by (auto simp: SendBatch_def)
  next
    case True
    obtain gs res2 ok2 G1 where f: "findClients T unmarshal 0 tss batch res1 [] True G = Some (Ok ((gs, res2, ok2), G1))"
      using assms(1) Cons c True by (auto simp: SendBatch_def split: option.splits outcome.splits)
    have fc: "length res2 = length batch" "list_all is_error res2"
      "ok2 \<longrightarrow> image_mset (\<lambda>x. call_id (fst x)) (mset (group_calls gs)) = mset (map call_id batch)"
      using findClients_spec [OF f] len by (simp_all add: group_calls_def)
    show ?thesis
    proof (cases ok2)
      case False
      then show ?thesis using assms(1) Cons c f True fc by (auto simp: SendBatch_def)
    next
      case ok2: True
      obtain s' where w: "wait_groups m arrival (order gs) True (res2, G1) = (allOK, s')" "s' = (res, G')"
        using assms(1) Cons c f True ok2 by (auto simp: SendBatch_def split: prod.splits)
      have m: "distinct (map call_id batch)" "m = zip (map call_id batch) [0..<length batch]"
        using check_batch_ok [of _ "[]" 0 batch res1 m] c True by auto
      have ids: "image_mset (\<lambda>x. call_id (fst x)) (mset (group_calls (order gs))) = mset (map call_id batch)"
        using fc(3) ok2 group_calls_order [of "order gs" gs] assms(2) by simp
      show ?thesis using wait_groups_results [OF m ids w] fc(1) by simp
    qed
  qed
qed

definition sample_gclient :: "entry list gclient" where
  "sample_gclient = \<lparr>gc_clientType = RegionClient, gc_regions = sample_cache, gc_clients = sample_clients,
     gc_heap = init_heap, gc_metaRegionInfo = NewInfo 100 0 (Some (str ''hbase'')) (str ''meta'') (str ''hbase:meta,,1'') [] [], gc_adminRegionInfo = NewInfo 101 0 None [] [] [] [],
     gc_closeOnce = False, gc_done = Some False, gc_started = []\<rparr>"

definition sample_arrival :: "entry list arrival" where
  "sample_arrival = \<lparr>ar_first = Some (Inr None), ar_second = None, ar_env = id\<rparr>"

definition sample_find :: "'t find_try" where
  "sample_find = \<lparr>ft_env = id, ft_tries = [], ft_lookup_env = id\<rparr>"

lemma sample_find_simps [simp]:
  "ft_env sample_find = id" "ft_tries sample_find = []" "ft_lookup_env sample_find = id"
  by (simp_all add: sample_find_def)

definition sample_lookup :: "entry list turn" where
  "sample_lookup = \<lparr>tu_envs = [sample_find], tu_wait1 = WaitContext, tu_env1 = id, tu_wait2 = WaitContext, tu_env2 = id\<rparr>"

definition sample_row :: call where
  "sample_row = Get (sample_get\<lparr>g_base := \<lparr>b_id = 0, b_ctx = 0, b_table = str ''t'', b_key = str ''k'', b_region = None\<rparr>\<rparr>)"

lemma sample_region:
  assumes "gc_clientType G = RegionClient" "gc_regions G = sample_cache" "b_table (call_base rpc) = str ''t''" "b_key (call_base rpc) = str ''k''"
  shows "getRegionForRpc list_tree (\<lambda>_. Inl []) [sample_find] rpc G = Some (Ok (sample_left, G))"
proof -
  have c: "cached_region list_tree sample_cache (str ''t'') (str ''k'') = Ok (Some sample_left)" by code_simp
  have "str ''t'' \<noteq> metaTableName" by (simp add: metaTableName_def str_def)
  then show ?thesis using c assms
    by (simp add: getRegionForRpc_def maxFindRegionTries_def numeral_eq_Suc getRegionFromCache_def)
qed

lemma sample_row_region:
  "getRegionForRpc list_tree (\<lambda>_. Inl []) [sample_find] sample_row (sample_gclient\<lparr>gc_heap := h\<rparr>) =
     Some (Ok (sample_left, sample_gclient\<lparr>gc_heap := h\<rparr>))"
  by (rule sample_region) (simp_all add: sample_gclient_def sample_row_def)

lemma sample_row_client:
  fixes G :: "entry list gclient"
  defines "G \<equiv> sample_gclient\<lparr>gc_heap := SetClient sample_left (Some 1) init_heap\<rparr>"
  shows "getRegionAndClientForRPC list_tree (\<lambda>_. Inl []) [sample_lookup] sample_row G =
    Some (Ok ((1, sample_left, SetRegion sample_row sample_left), G))"
  using sample_row_region [of "SetClient sample_left (Some 1) init_heap"]
  by (simp add: G_def sample_lookup_def client_of_region_def wait_available_def region_heap_defs init_heap_def new_region_state_def)

theorem SendBatch_results_witness:
  "\<exists>res G'. SendBatch list_tree (\<lambda>_. Inl []) id [[sample_lookup]] (\<lambda>_. sample_arrival) [sample_row]
      (sample_gclient\<lparr>gc_heap := SetClient sample_left (Some 1) init_heap\<rparr>) = Some (Ok ((res, True), G')) \<and>
    length res = 1 \<and> res ! 0 = Inr None"
proof -
  let ?h = "SetClient sample_left (Some 1) init_heap"
  let ?G = "sample_gclient\<lparr>gc_heap := ?h\<rparr>"
  obtain res G' where ok: "SendBatch list_tree (\<lambda>_. Inl []) id [[sample_lookup]] (\<lambda>_. sample_arrival) [sample_row] ?G
      = Some (Ok ((res, True), G'))"
    using sample_row_client
    by (simp add: SendBatch_def check_call_def sample_row_def sample_get_def sample_arrival_def set_result_def
        store_arrival_def batch_result_of_def call_id_def)
  from SendBatch_results [OF ok] ok show ?thesis by (auto simp: sample_arrival_def)
qed

text \<open>
  C9. \<^verbatim>\<open>SendRPC\<close> never hands a transient error to its caller: whatever regions, servers and
  other goroutines do, an error it returns is that a table or region cannot be found, that the
  client is closed, that the context ended, or an error of HBase that retrying does not help.
\<close>

theorem SendRPC_errors:
  assumes "SendRPC T unmarshal attempts rpc G = Some (Err (e, G'))"
  shows "e \<in> {TableNotFound, GohbaseClosed, ContextEnded, CannotFindRegion} \<or> (\<exists>s. e = RegionError (OtherError s))"
  using assms SendRPC_loop_errors unfolding SendRPC_def final_error_def by blast

definition sample_attempt :: "rpc_result option \<Rightarrow> entry list attempt" where
  "sample_attempt r = \<lparr>at_turns = [sample_lookup], at_result = r, at_env = id, at_ctx_done = False\<rparr>"

definition master_client :: "entry list gclient" where
  "master_client = sample_gclient\<lparr>gc_clientType := MasterClient,
     gc_heap := SetClient (NewInfo 101 0 None [] [] [] []) (Some 1) init_heap\<rparr>"

theorem SendRPC_errors_witness:
  "\<exists>e G'. SendRPC list_tree (\<lambda>_. Inl []) [sample_attempt (Some (Inl (RetryableError ''busy''))),
      sample_attempt (Some (Inl (OtherError ''denied'')))] sample_status master_client = Some (Err (e, G')) \<and>
    (e \<in> {TableNotFound, GohbaseClosed, ContextEnded, CannotFindRegion} \<or> (\<exists>s. e = RegionError (OtherError s)))"
proof -
  have "SendRPC list_tree (\<lambda>_. Inl []) [sample_attempt (Some (Inl (RetryableError ''busy''))),
      sample_attempt (Some (Inl (OtherError ''denied'')))] sample_status master_client =
    Some (Err (RegionError (OtherError ''denied''), master_client))"
    by (simp add: SendRPC_def sample_attempt_def sample_lookup_def getRegionForRpc_def maxFindRegionTries_def numeral_eq_Suc
        getRegionFromCache_def client_of_region_def wait_available_def master_client_def sample_gclient_def
        sendRPCToRegionClient_def handleResultError_def sleepAndIncreaseBackoff_def backoffStart_def millisecond_def
        second_def sample_status_def NewClusterStatus_def admin_base_def init_heap_def new_region_state_def NewInfo_def
        region_heap_defs)
  from SendRPC_errors [OF this] this show ?thesis by blast
qed

text \<open>
  C18. The region found for a call belongs to the table of the call and does not end before its
  key, whether it came out of the cache or out of \<^verbatim>\<open>hbase:meta\<close>, and whatever the other
  goroutines did to the caches between the tries; at most ten tries are made.
\<close>

theorem getRegionForRpc_serves:
  assumes "getRegionForRpc T unmarshal envs rpc G = Some (Ok (reg, G'))"
    and "gc_clientType G \<noteq> MasterClient" "b_table (call_base rpc) \<noteq> metaTableName"
    and "\<forall>e \<in> set envs. \<forall>G. gc_clientType (ft_env e G) = gc_clientType G \<and> gc_clientType (ft_lookup_env e G) = gc_clientType G"
  shows "fullyQualifiedTable reg = b_table (call_base rpc) \<and>
    (ri_stopKey reg = [] \<or> b_key (call_base rpc) < ri_stopKey reg)"
proof -
  show ?thesis using region_tries_for assms unfolding getRegionForRpc_def region_for_def by blast
qed

theorem getRegionForRpc_serves_witness:
  "\<exists>reg G'. getRegionForRpc list_tree (\<lambda>_. Inl []) [sample_find] sample_row (sample_gclient\<lparr>gc_heap := init_heap\<rparr>) =
      Some (Ok (reg, G')) \<and> fullyQualifiedTable reg = str ''t'' \<and> (ri_stopKey reg = [] \<or> str ''k'' < ri_stopKey reg)"
proof -
  have "str ''t'' \<noteq> metaTableName" by (simp add: metaTableName_def str_def)
  then show ?thesis using getRegionForRpc_serves [OF sample_row_region] sample_row_region [of init_heap]
    by (simp add: sample_row_def sample_gclient_def)
qed

text \<open>A lookup that is answered every time and whose caller does not wait for ever returns.\<close>

lemma sleep_positive: "0 < b \<Longrightarrow> sleepAndIncreaseBackoff d b = Inr b' \<Longrightarrow> 0 < b'"
  by (auto simp: sleepAndIncreaseBackoff_def backoffStart_def millisecond_def second_def split: if_splits)

lemma lookupRegion_returns:
  assumes "tries \<noteq> []" "lt_ctx_done (last tries)" "\<forall>t \<in> set tries. lookup_once unmarshal G table key t \<noteq> None" "0 < b"
  shows "lookupRegion unmarshal G table key b tries \<noteq> None"
  using assms
proof (induction tries arbitrary: b)
  case (Cons t ts)
  obtain r where r: "lookup_once unmarshal G table key t = Some r" using Cons.prems(3) by auto
  have "lookupRegion unmarshal G table key b' ts \<noteq> None" if "sleepAndIncreaseBackoff (lt_ctx_done t) b = Inr b'" for b'
  proof (cases "ts = []")
    case True
    then show ?thesis using that Cons.prems(2,4) by (simp add: sleepAndIncreaseBackoff_def)
  next
    case False
    then show ?thesis using Cons sleep_positive [OF Cons.prems(4) that] by simp
  qed
  then show ?case using r by (auto split: outcome.split sum.split)
qed simp

lemma findRegion_returns:
  "lookupRegion unmarshal G table key backoffStart tries \<noteq> None \<Longrightarrow> findRegion T unmarshal table key tries env G \<noteq> None"
  by (auto simp: findRegion_def split: outcome.split prod.split unit.split)

lemma region_tries_returns:
  assumes "n \<le> length envs" "\<forall>e \<in> set envs. \<forall>G. findRegion T unmarshal table key (ft_tries e) (ft_lookup_env e) G \<noteq> None"
  shows "region_tries T unmarshal table key n envs G \<noteq> None"
  using assms
proof (induction n arbitrary: envs G)
  case (Suc n)
  then obtain e es where envs: "envs = e # es" by (cases envs) auto
  then obtain r where "findRegion T unmarshal table key (ft_tries e) (ft_lookup_env e) (ft_env e G) = Some r" using Suc.prems(2) by fastforce
  moreover have "region_tries T unmarshal table key n es G' \<noteq> None" for G' using Suc envs by simp
  ultimately show ?case using envs by (auto simp: Let_def split: outcome.split option.split prod.split unit.split)
qed simp

text \<open>
  C19. Finding the region of a call ends: when each try is answered, and the context of the caller
  ends at some time, ten tries are enough for \<^verbatim>\<open>getRegionForRpc\<close> to return, with a region or an
  error, whatever the other goroutines do to the caches meanwhile.
\<close>

theorem getRegionForRpc_returns:
  fixes T :: "('t, 'e) tree_ops" and G :: "'t gclient"
  assumes "length envs = maxFindRegionTries"
    and "\<forall>e \<in> set envs. ft_tries e \<noteq> [] \<and> lt_ctx_done (last (ft_tries e))"
    and "\<forall>e \<in> set envs. \<forall>t \<in> set (ft_tries e). \<forall>G :: 't gclient. lookup_once unmarshal G (b_table (call_base rpc)) (b_key (call_base rpc)) t \<noteq> None"
  shows "\<exists>r. getRegionForRpc T unmarshal envs rpc G = Some r"
proof -
  have "0 < backoffStart" by (simp add: backoffStart_def millisecond_def)
  then have "\<forall>e \<in> set envs. \<forall>G. findRegion T unmarshal (b_table (call_base rpc)) (b_key (call_base rpc)) (ft_tries e) (ft_lookup_env e) G \<noteq> None"
    using assms(2,3) by (intro ballI allI findRegion_returns lookupRegion_returns) blast+
  then show ?thesis using region_tries_returns [of maxFindRegionTries envs] assms(1) unfolding getRegionForRpc_def by auto
qed

definition timed_out :: lookup_try where
  "timed_out = \<lparr>lt_zk = Inl ContextEnded, lt_replies = [], lt_ptr = 0, lt_timeout = True, lt_ctx_done = True\<rparr>"

lemma timed_out_answers: "lookup_once unmarshal G table key timed_out \<noteq> None"
  by (auto simp: timed_out_def lookup_once_def metaLookup_def Next_def split: outcome.split unit.split prod.split)

theorem getRegionForRpc_returns_witness:
  "\<exists>r. getRegionForRpc list_tree (\<lambda>_. Inl []) (replicate 10 \<lparr>ft_env = id, ft_tries = [timed_out], ft_lookup_env = id\<rparr>) sample_row sample_gclient = Some r"
  by (rule getRegionForRpc_returns) (simp_all add: maxFindRegionTries_def timed_out_answers timed_out_def [THEN arg_cong [of _ _ lt_ctx_done]])

text \<open>The regions a failed call and its client concern.\<close>

definition down_regions :: "nat \<Rightarrow> region \<Rightarrow> 't gclient \<Rightarrow> region list" where
  "down_regions cl reg G = reg # filter (\<lambda>r. ri_ptr r \<noteq> ri_ptr reg) (fst (crc_clientDown cl (gc_clients G)))"

text \<open>
  C11. When a region client dies, it is forgotten, and the region of the failed call and all
  regions of the client become unavailable; exactly those that were available lose their client
  and get one goroutine each that re-establishes them, so that no region is re-established
  twice, however many calls report the same failure.
\<close>

theorem clientDown_reestablishes:
  assumes "crc_inv (gc_clients G)"
  shows "regions_of (gc_clients (clientDown cl reg G)) cl = None \<and>
    gc_started (clientDown cl reg G) =
      gc_started G @ map Reestablish (filter (\<lambda>r. \<not> IsUnavailable (gc_heap G) r) (down_regions cl reg G)) \<and>
    (\<forall>r. IsUnavailable (gc_heap (clientDown cl reg G)) r \<longleftrightarrow>
      IsUnavailable (gc_heap G) r \<or> ri_ptr r \<in> ri_ptr ` set (down_regions cl reg G)) \<and>
    (\<forall>r. Client (gc_heap (clientDown cl reg G)) r =
      (if ri_ptr r \<in> ri_ptr ` set (down_regions cl reg G) \<and> \<not> IsUnavailable (gc_heap G) r then None else Client (gc_heap G) r)) \<and>
    gc_started (clientDown cl reg (clientDown cl reg G)) = gc_started (clientDown cl reg G)"
proof -
  let ?G = "G\<lparr>gc_clients := snd (crc_clientDown cl (gc_clients G))\<rparr>"
  have "distinct (map ri_ptr (filter (\<lambda>r. ri_ptr r \<noteq> ri_ptr reg) (fst (crc_clientDown cl (gc_clients G)))))"
    using crc_clientDown_distinct [OF assms(1)] by (rule distinct_map_filter)
  then have d: "distinct (map ri_ptr (down_regions cl reg G))" by (auto simp: down_regions_def)
  have eq: "clientDown cl reg G = fold drop_client (down_regions cl reg G) ?G" by (simp add: clientDown_fold down_regions_def)
  note f = fold_drop_client [OF d, of ?G]
  have gone: "regions_of (snd (crc_clientDown cl (gc_clients G))) cl = None"
    "fst (crc_clientDown cl (snd (crc_clientDown cl (gc_clients G)))) = []"
    by (simp_all add: regions_of_def crc_clientDown_def find_None_iff split: option.split)
      (metis (mono_tags, lifting) find_Some_iff mem_Collect_eq nth_mem set_filter)
  have cls: "gc_clients (clientDown cl reg G) = snd (crc_clientDown cl (gc_clients G))" using f eq by simp
  have "IsUnavailable (gc_heap (clientDown cl reg G)) reg" using f eq by (simp add: down_regions_def)
  then have "gc_started (clientDown cl reg (clientDown cl reg G)) = gc_started (clientDown cl reg G)"
    by (simp add: clientDown_fold [of cl reg "clientDown cl reg G"] cls gone drop_client_def mark_and_reestablish_eq)
  then show ?thesis using f gone(1) cls eq by simp
qed

theorem clientDown_reestablishes_witness:
  "regions_of (gc_clients (clientDown 1 sample_right sample_gclient)) 1 = None \<and>
    gc_started (clientDown 1 sample_right sample_gclient) = [Reestablish sample_right, Reestablish sample_left] \<and>
    IsUnavailable (gc_heap (clientDown 1 sample_right sample_gclient)) sample_left"
proof -
  have inv: "crc_inv (gc_clients sample_gclient)" by (simp add: sample_gclient_def sample_clients_def crc_inv_def)
  have down: "down_regions 1 sample_right sample_gclient = [sample_right, sample_left]"
    by (simp add: down_regions_def sample_gclient_def sample_clients_def crc_clientDown_def sample_defs NewInfo_def)
  have "\<not> IsUnavailable (gc_heap sample_gclient) r" for r
    by (simp add: sample_gclient_def init_heap_def new_region_state_def region_heap_defs)
  then show ?thesis using clientDown_reestablishes [OF inv, of 1 sample_right] unfolding down
    by (simp add: sample_gclient_def)
qed

definition next_backoff :: "int \<Rightarrow> int" where
  "next_backoff b = (case sleepAndIncreaseBackoff False b of Inr b' \<Rightarrow> b' | Inl _ \<Rightarrow> 0)"

definition schedule :: "int list" where
  "schedule = map (\<lambda>t. t * millisecond) [0, 16, 32, 64, 128, 256, 512, 1024, 2048, 4096, 8192, 13192, 18192, 23192, 28192, 33192]"

lemma schedule_next: "map next_backoff schedule = tl schedule @ [last schedule]"
  by (simp add: schedule_def next_backoff_def sleepAndIncreaseBackoff_def backoffStart_def millisecond_def second_def)

lemma schedule_sorted: "sorted schedule" "length schedule = 16"
  by (simp_all add: schedule_def millisecond_def)

lemma backoff_nth: "(next_backoff ^^ n) 0 = schedule ! min n 15"
proof (induction n)
  case 0
  show ?case by (simp add: schedule_def)
next
  case (Suc n)
  let ?k = "min n 15"
  have "next_backoff (schedule ! ?k) = map next_backoff schedule ! ?k" using schedule_sorted(2) by simp
  also have "\<dots> = (tl schedule @ [last schedule]) ! ?k" by (simp only: schedule_next)
  also have "\<dots> = schedule ! min (Suc n) 15"
  proof (cases "n < 15")
    case True
    then show ?thesis using schedule_sorted(2) by (simp add: nth_append nth_tl)
  next
    case False
    have "last schedule = schedule ! 15" by (simp add: schedule_def)
    then show ?thesis using False schedule_sorted(2) by (simp add: nth_append)
  qed
  finally show ?case using Suc by simp
qed

text \<open>
  Backoff: the waiting times start at 16 ms, never decrease, never exceed 33.192 s, and stay
  at this value from the fifteenth on; in particular they never overflow. A context that ends
  stops the waiting.
\<close>

theorem backoff_schedule:
  "backoffStart \<le> (next_backoff ^^ Suc n) 0 \<and> (next_backoff ^^ n) 0 \<le> (next_backoff ^^ Suc n) 0 \<and>
    (next_backoff ^^ n) 0 \<le> 33192 * millisecond \<and> (next_backoff ^^ (15 + n)) 0 = 33192 * millisecond \<and>
    sleepAndIncreaseBackoff True ((next_backoff ^^ Suc n) 0) = Inl ContextEnded"
proof -
  have m: "schedule ! i \<le> schedule ! j" if "i \<le> j" "j < 16" for i j
    using schedule_sorted that by (simp add: sorted_nth_mono)
  have ends: "schedule ! 1 = backoffStart" "schedule ! 15 = 33192 * millisecond" "backoffStart > 0"
    by (simp_all add: schedule_def backoffStart_def millisecond_def)
  have start: "backoffStart \<le> schedule ! min (Suc n) 15" using m [of 1 "min (Suc n) 15"] ends by simp
  have "schedule ! min n 15 \<le> schedule ! min (Suc n) 15" "schedule ! min n 15 \<le> schedule ! 15"
    by (rule m; simp)+
  then show ?thesis using start ends unfolding backoff_nth by (simp add: sleepAndIncreaseBackoff_def)
qed

end
