(* ===== verification/Establish.thy ===== *)
theory Establish
  imports Rpc
begin

text \<open>
  Establishing regions (\<^verbatim>\<open>establishRegion\<close> and what it calls, \<^verbatim>\<open>src/rpc.go\<close>): a goroutine looks
  up the region, connects to its server, probes it, and lets the calls that wait for it go on.
  Where the goroutine blocks, the other goroutines act on the client; a turn of the loop gives
  these actions and what the servers answer.
\<close>

section \<open>The probe\<close>

definition probeKey :: "region \<Rightarrow> bytes" where
  "probeKey reg = ri_startKey reg @ replicate 17 0"

definition probe_request :: "region \<Rightarrow> (string, call) outcome" where
  "probe_request reg =
     and_then (NewGet 0 0 (fullyQualifiedTable reg) (probeKey reg) [SkipBatch]) (\<lambda>g.
       Ok (SetRegion (Get (ExistsOnly g)) reg))"

text \<open>\<^verbatim>\<open>isRegionEstablished\<close> on the answer to the probe; \<open>None\<close> when the region is online.\<close>

definition isRegionEstablished :: "rpc_result \<Rightarrow> rpc_error option" where
  "isRegionEstablished res =
     (case res of
        Inl (OtherError _) \<Rightarrow> None
      | Inl err \<Rightarrow> Some err
      | Inr _ \<Rightarrow> None)"

section \<open>One turn\<close>

text \<open>
  A turn: what other goroutines do while this one sleeps, looks up, dials and probes; the tries
  of the lookup; the identity of the region client, should one be made; and the answers.
\<close>

datatype dial_result = DialOk | DialCanceled | DialFailed

record 't est_turn =
  et_sleep_env :: "'t gclient \<Rightarrow> 't gclient"
  et_tries :: "lookup_try list"
  et_lookup_env :: "'t gclient \<Rightarrow> 't gclient"
  et_client :: nat
  et_dial :: dial_result
  et_dial_env :: "'t gclient \<Rightarrow> 't gclient"
  et_probe :: rpc_result
  et_probe_env :: "'t gclient \<Rightarrow> 't gclient"

datatype 't est_result =
    EstDone "'t gclient"
  | EstClosed "'t gclient"
  | EstPanic panic
  | EstWait
  | EstNext region int "'t gclient"

definition est_available :: "region \<Rightarrow> 't gclient \<Rightarrow> ('t gclient \<Rightarrow> 't est_result) \<Rightarrow> 't est_result" where
  "est_available reg G k =
     (case (MarkAvailable reg (gc_heap G) :: (unit, region_heap) outcome) of
        Ok h \<Rightarrow> k (G\<lparr>gc_heap := h\<rparr>)
      | Err () \<Rightarrow> EstPanic (Explicit ''unreachable'')
      | Panic p \<Rightarrow> EstPanic p)"

text \<open>The second half of a turn: the address of the region server is known.\<close>

definition set_client :: "region \<Rightarrow> nat \<Rightarrow> 't gclient \<Rightarrow> 't gclient" where
  "set_client reg cl G = G\<lparr>gc_heap := SetClient reg (Some cl) (gc_heap G)\<rparr>"

definition connect_region :: "'t est_turn \<Rightarrow> region \<Rightarrow> string \<Rightarrow> int \<Rightarrow> 't gclient \<Rightarrow> 't est_result" where
  "connect_region t reg addr backoff G =
     (let admin = same_region_ptr reg (gc_adminRegionInfo G);
          (cl, G1) = (if admin then (et_client t, G)
            else case crc_put addr reg \<lparr>cl_ptr = et_client t, cl_addr = addr\<rparr> (gc_clients G) of (c, rcc) \<Rightarrow>
              (cl_ptr c, G\<lparr>gc_clients := rcc\<rparr>));
          G2 = et_dial_env t G1
      in case et_dial t of
           DialOk \<Rightarrow>
             if admin then est_available reg (set_client reg cl G2) EstDone
             else
               let G3 = et_probe_env t G2 in
               (case isRegionEstablished (et_probe t) of
                  None \<Rightarrow> est_available reg (set_client reg cl G3) EstDone
                | Some err \<Rightarrow> EstNext reg backoff (if is_server_error err then clientDown cl reg G3 else G3))
         | DialCanceled \<Rightarrow> est_available reg G2 EstDone
         | DialFailed \<Rightarrow> EstNext reg backoff (clientDown cl reg G2))"

definition forget_region :: "('t, 'e) tree_ops \<Rightarrow> region \<Rightarrow> 't gclient \<Rightarrow> 't gclient" where
  "forget_region T reg G =
     (case krc_del T reg (gc_regions G) (gc_heap G) of (_, t, h) \<Rightarrow>
        del_clients [reg] (G\<lparr>gc_regions := t, gc_heap := h\<rparr>))"

text \<open>What follows a lookup that returned another region than the one to establish.\<close>

definition switch_region ::
  "('t, 'e) tree_ops \<Rightarrow> region \<Rightarrow> region \<Rightarrow> 't gclient \<Rightarrow> ('t gclient \<Rightarrow> 't est_result) \<Rightarrow> 't est_result" where
  "switch_region T originalReg reg G k =
     (case put_region T reg (G\<lparr>gc_heap := snd (MarkUnavailable reg (gc_heap G))\<rparr>) of
        Panic p \<Rightarrow> EstPanic p
      | Err () \<Rightarrow> EstPanic (Explicit ''unreachable'')
      | Ok ((overlaps, replaced), G1) \<Rightarrow>
          if \<not> replaced then est_available reg G1 (\<lambda>G2. est_available originalReg G2 EstDone)
          else est_available originalReg (del_clients overlaps G1) k)"

definition establish_turn ::
  "('t, 'e) tree_ops \<Rightarrow> (bytes \<Rightarrow> string + region_info) \<Rightarrow> 't est_turn \<Rightarrow> region \<Rightarrow> string \<Rightarrow> int \<Rightarrow> 't gclient
     \<Rightarrow> 't est_result" where
  "establish_turn T unmarshal t reg addr backoff G =
     (let G1 = et_sleep_env t G in
      case sleepAndIncreaseBackoff (ContextDone (gc_heap G1) reg) backoff of
        Inl _ \<Rightarrow> est_available reg G1 EstDone
      | Inr backoff' \<Rightarrow>
          if addr \<noteq> '''' then connect_region t reg addr backoff' G1
          else (case lookupRegion unmarshal G1 (fullyQualifiedTable reg) (ri_startKey reg) backoffStart (et_tries t) of
              None \<Rightarrow> EstWait
            | Some (Panic p) \<Rightarrow> EstPanic p
            | Some (Err e) \<Rightarrow>
                let G2 = et_lookup_env t G1 in
                if e = TableNotFound then est_available reg (forget_region T reg G2) EstDone
                else if ContextDone (gc_heap G2) reg then est_available reg G2 EstDone
                else if e = GohbaseClosed then EstClosed G2
                else EstPanic (Fatal ''unknown error occured when looking up region'')
            | Some (Ok (reg', addr')) \<Rightarrow>
                let G2 = et_lookup_env t G1 in
                if ContextDone (gc_heap G2) reg then est_available reg G2 EstDone
                else if ri_name reg' \<noteq> ri_name reg
                then switch_region T reg reg' G2 (connect_region t reg' (to_string addr') backoff')
                else connect_region t reg (to_string addr') backoff' G2))"

text \<open>The loop; after the first turn the address is always looked up.\<close>

fun establishRegion ::
  "('t, 'e) tree_ops \<Rightarrow> (bytes \<Rightarrow> string + region_info) \<Rightarrow> 't est_turn list \<Rightarrow> region \<Rightarrow> string \<Rightarrow> int \<Rightarrow> 't gclient
     \<Rightarrow> 't est_result" where
  "establishRegion T unmarshal [] reg addr backoff G = EstWait"
| "establishRegion T unmarshal (t # ts) reg addr backoff G =
     (case establish_turn T unmarshal t reg addr backoff G of
        EstNext reg' backoff' G' \<Rightarrow> establishRegion T unmarshal ts reg' '''' backoff' G'
      | r \<Rightarrow> r)"

definition reestablishRegion ::
  "('t, 'e) tree_ops \<Rightarrow> (bytes \<Rightarrow> string + region_info) \<Rightarrow> 't est_turn list \<Rightarrow> region \<Rightarrow> 't gclient \<Rightarrow> 't est_result" where
  "reestablishRegion T unmarshal ts reg G =
     (if gc_done G = Some True then EstClosed G else establishRegion T unmarshal ts reg '''' 0 G)"

section \<open>What the operations do to the availability of regions\<close>

text \<open>Everything happens to regions through the operations of \<open>region_step\<close>.\<close>

definition steps :: "'t gclient \<Rightarrow> 't gclient \<Rightarrow> bool" where
  "steps G G' \<longleftrightarrow> region_step\<^sup>*\<^sup>* (gc_heap G) (gc_heap G')"

lemma steps_refl: "gc_heap G' = gc_heap G \<Longrightarrow> steps G G'"
  by (simp add: steps_def)

lemma steps_trans: "steps G G' \<Longrightarrow> steps G' G'' \<Longrightarrow> steps G G''"
  unfolding steps_def by (rule rtranclp_trans)

lemma step_steps: "region_step (gc_heap G) (gc_heap G') \<Longrightarrow> steps G G'"
  by (simp add: steps_def)

lemma steps_MarkUnavailable: "steps G (G\<lparr>gc_heap := snd (MarkUnavailable r (gc_heap G))\<rparr>)"
proof (rule step_steps)
  have "region_step (gc_heap G) (snd (MarkUnavailable r (gc_heap G)))"
    by (rule region_step.mark_unavailable [OF prod.collapse [symmetric]])
  then show "region_step (gc_heap G) (gc_heap (G\<lparr>gc_heap := snd (MarkUnavailable r (gc_heap G))\<rparr>))" by simp
qed

lemma steps_drop_client: "steps G (drop_client reg G)"
proof (cases "IsUnavailable (gc_heap G) reg")
  case True
  then show ?thesis by (intro steps_refl) (simp add: drop_client_def mark_and_reestablish_eq)
next
  case False
  let ?h = "snd (MarkUnavailable reg (gc_heap G))"
  have "region_step (gc_heap G) ?h" by (rule region_step.mark_unavailable [OF prod.collapse [symmetric]])
  moreover have "region_step ?h (SetClient reg None ?h)" by (rule region_step.set_client [OF refl])
  ultimately have "region_step\<^sup>*\<^sup>* (gc_heap G) (SetClient reg None ?h)" by (rule converse_rtranclp_into_rtranclp [OF _ r_into_rtranclp])
  then show ?thesis using False by (simp add: steps_def drop_client_def mark_and_reestablish_eq)
qed

lemma steps_fold: "(\<And>x G. steps G (f x G)) \<Longrightarrow> steps G (fold f xs G)"
  by (induction xs arbitrary: G) (auto intro: steps_refl steps_trans)

lemma steps_clientDown: "steps G (clientDown cl reg G)"
proof -
  have "steps G (G\<lparr>gc_clients := rcc\<rparr>)" for rcc by (rule steps_refl) simp
  moreover have "steps G1 (fold drop_client rs G1)" for rs and G1 :: "'a gclient"
    by (rule steps_fold) (rule steps_drop_client)
  ultimately show ?thesis unfolding clientDown_fold by (rule steps_trans)
qed

lemma del_clients_steps: "steps G (del_clients rs G)"
proof -
  have "region_step\<^sup>*\<^sup>* h (snd (fold (\<lambda>r (rcc, h). crc_del r rcc h) rs (rcc, h)))" for rcc h
  proof (induction rs arbitrary: rcc h)
    case (Cons r rs)
    obtain rcc1 h1 where d: "crc_del r rcc h = (rcc1, h1)" by force
    have "region_step\<^sup>*\<^sup>* h h1" using d by (auto simp: crc_del_def split: option.splits intro: region_step.set_client)
    then show ?case using Cons [of h1 rcc1] d by simp
  qed simp
  then show ?thesis by (simp add: steps_def del_clients_def split_beta)
qed

lemma delete_overlaps_steps: "region_step\<^sup>*\<^sup>* h (snd (delete_overlaps T ovs t h))"
proof (induction ovs arbitrary: t h)
  case (Cons ov ovs)
  have "region_step h (MarkDead ov h)" by (rule region_step.mark_dead [OF refl])
  then show ?case using Cons [of "MarkDead ov h"] by (auto intro: converse_rtranclp_into_rtranclp)
qed simp

lemma put_region_steps: "put_region T reg G = Ok (v, G') \<Longrightarrow> steps G G'"
  using delete_overlaps_steps [of "gc_heap G" T]
  by (auto simp: put_region_def krc_put_def steps_def split: if_splits prod.splits) (metis snd_conv)

lemma forget_region_steps: "steps G (forget_region T reg G)"
proof -
  obtain b t h where k: "krc_del T reg (gc_regions G) (gc_heap G) = (b, t, h)" by (metis prod_cases3)
  then have "h = MarkDead reg (gc_heap G)" by (auto simp: krc_del_def split: prod.splits)
  then have "steps G (G\<lparr>gc_regions := t, gc_heap := h\<rparr>)" by (auto intro!: step_steps region_step.mark_dead)
  then have "steps G (del_clients [reg] (G\<lparr>gc_regions := t, gc_heap := h\<rparr>))"
    using del_clients_steps by (rule steps_trans)
  then show ?thesis using k by (simp add: forget_region_def)
qed

section \<open>Waiting calls\<close>

text \<open>
  A call that waits holds the channel of the region: it is still in place, or closed. The
  goroutine is done with the region, or still establishes it.
\<close>

definition waiting :: "nat \<Rightarrow> region \<Rightarrow> 't gclient \<Rightarrow> bool" where
  "waiting ch r0 G \<longleftrightarrow> heap_inv (gc_heap G) \<and>
     (AvailabilityChan (gc_heap G) r0 = Some ch \<or> ch \<in> rh_closed (gc_heap G))"

definition in_charge :: "nat \<Rightarrow> region \<Rightarrow> region \<Rightarrow> 't gclient \<Rightarrow> bool" where
  "in_charge ch r0 reg G \<longleftrightarrow> waiting ch r0 G \<and> (ri_ptr reg = ri_ptr r0 \<or> ch \<in> rh_closed (gc_heap G))"

definition wakes :: "nat \<Rightarrow> region \<Rightarrow> 't est_result \<Rightarrow> bool" where
  "wakes ch r0 R \<longleftrightarrow>
     (case R of
        EstDone G \<Rightarrow> ch \<in> rh_closed (gc_heap G)
      | EstClosed G \<Rightarrow> gc_done G = Some True
      | EstNext reg b G \<Rightarrow> in_charge ch r0 reg G
      | _ \<Rightarrow> True)"

lemma waiting_steps: "waiting ch r0 G \<Longrightarrow> steps G G' \<Longrightarrow> waiting ch r0 G'"
  unfolding waiting_def steps_def using waiter.run_inv by blast

lemma closed_steps: "ch \<in> rh_closed (gc_heap G) \<Longrightarrow> steps G G' \<Longrightarrow> ch \<in> rh_closed (gc_heap G')"
  unfolding steps_def by (rule closed_chan.run_inv)

lemma in_charge_steps: "in_charge ch r0 reg G \<Longrightarrow> steps G G' \<Longrightarrow> in_charge ch r0 reg G'"
  unfolding in_charge_def using waiting_steps closed_steps by blast

lemma est_available_wakes:
  assumes "in_charge ch r0 reg G" "\<And>G'. steps G G' \<Longrightarrow> ch \<in> rh_closed (gc_heap G') \<Longrightarrow> waiting ch r0 G' \<Longrightarrow> wakes ch r0 (k G')"
  shows "wakes ch r0 (est_available reg G k)"
proof (cases "MarkAvailable reg (gc_heap G) :: (unit, region_heap) outcome")
  case (Ok h)
  let ?G = "G\<lparr>gc_heap := h\<rparr>"
  have s: "steps G ?G" using region_step.mark_available [OF Ok] by (simp add: step_steps)
  have w: "waiting ch r0 ?G" using waiting_steps [OF _ s] assms(1) by (simp add: in_charge_def)
  have "ch \<in> rh_closed h"
  proof (cases "ri_ptr reg = ri_ptr r0")
    case True
    then have "AvailabilityChan h r0 = None"
      using Ok by (auto simp: region_heap_defs split: option.splits if_splits)
    then show ?thesis using w by (simp add: waiting_def)
  next
    case False
    then show ?thesis using assms(1) closed_steps [OF _ s] by (simp add: in_charge_def)
  qed
  then show ?thesis using assms(2) [OF s] w Ok by (simp add: est_available_def)
qed (auto simp: est_available_def wakes_def split: unit.splits)

lemma est_done_wakes: "in_charge ch r0 reg G \<Longrightarrow> wakes ch r0 (est_available reg G EstDone)"
  by (rule est_available_wakes) (simp_all add: wakes_def)

section \<open>Every way out of the loop\<close>

text \<open>
  What the other goroutines may do: to regions anything that \<open>region_step\<close> has. The requests of a
  lookup are sent with \<^verbatim>\<open>SendRPC\<close>, which answers that the client is closed only when it is.
\<close>

definition told_closed :: "'t est_turn \<Rightarrow> bool" where
  "told_closed t \<longleftrightarrow> (\<exists>l \<in> set (et_tries t). SendError GohbaseClosed \<in> set (lt_replies l))"

definition rely :: "'t est_turn \<Rightarrow> bool" where
  "rely t \<longleftrightarrow> (\<forall>G. steps G (et_sleep_env t G) \<and> steps G (et_lookup_env t G) \<and> steps G (et_dial_env t G) \<and>
     steps G (et_probe_env t G) \<and> (told_closed t \<and> gc_clientType G \<noteq> MasterClient \<longrightarrow> gc_done (et_lookup_env t G) = Some True))"

lemma metaLookup_closed:
  assumes "metaLookup unmarshal p c table key replies = Some (Err GohbaseClosed)"
  shows "SendError GohbaseClosed \<in> set replies"
proof -
  obtain rpc x s' rs' where "Next c (newScanner rpc meta_options) replies = Some (Ok ((x, Some (ScanError GohbaseClosed)), s', rs'))"
    using assms by (auto simp: metaLookup_def split: option.splits outcome.splits unit.splits scan_error.splits if_splits)
  from Next_error [OF this] show ?thesis by simp
qed

lemma lookupRegion_closed:
  "lookupRegion unmarshal G table key b ts = Some (Err GohbaseClosed) \<Longrightarrow>
    gc_clientType G \<noteq> MasterClient \<and> (\<exists>t \<in> set ts. SendError GohbaseClosed \<in> set (lt_replies t))"
proof (induction ts arbitrary: b)
  case (Cons t ts)
  then show ?case
    by (auto simp: meta_lookup_final_def lookup_once_def sleepAndIncreaseBackoff_def dest: metaLookup_closed
        split: option.splits outcome.splits if_splits sum.splits)
qed simp

lemma set_client_steps: "steps G (set_client reg cl G)"
  by (rule step_steps) (simp add: set_client_def region_step.set_client [OF refl])

lemma connect_region_wakes:
  assumes "in_charge ch r0 reg G" "rely t"
  shows "wakes ch r0 (connect_region t reg addr b G)"
proof -
  obtain cl G1 where c: "(if same_region_ptr reg (gc_adminRegionInfo G) then (et_client t, G)
    else case crc_put addr reg \<lparr>cl_ptr = et_client t, cl_addr = addr\<rparr> (gc_clients G) of (c, rcc) \<Rightarrow> (cl_ptr c, G\<lparr>gc_clients := rcc\<rparr>)) = (cl, G1)"
    by force
  then have "steps G G1" by (intro steps_refl) (auto split: if_splits prod.splits)
  then have i1: "in_charge ch r0 reg G1" by (rule in_charge_steps [OF assms(1)])
  have i2: "in_charge ch r0 reg (et_dial_env t G1)" using in_charge_steps [OF i1] assms(2) by (simp add: rely_def)
  have i3: "in_charge ch r0 reg (et_probe_env t (et_dial_env t G1))"
    using in_charge_steps [OF i2] assms(2) by (simp add: rely_def)
  note set = in_charge_steps [OF i2 set_client_steps, of reg cl] in_charge_steps [OF i3 set_client_steps, of reg cl]
  note down = in_charge_steps [OF i2 steps_clientDown, of cl reg] in_charge_steps [OF i3 steps_clientDown, of cl reg]
  show ?thesis
    using est_done_wakes [OF i2] est_done_wakes [OF set(1)] est_done_wakes [OF set(2)] down i3
    unfolding connect_region_def Let_def c
    by (auto simp: wakes_def split: dial_result.split option.split)
qed

lemma switch_region_wakes:
  assumes "in_charge ch r0 reg G" "\<And>G'. ch \<in> rh_closed (gc_heap G') \<Longrightarrow> waiting ch r0 G' \<Longrightarrow> wakes ch r0 (k G')"
  shows "wakes ch r0 (switch_region T reg reg' G k)"
proof -
  let ?G = "G\<lparr>gc_heap := snd (MarkUnavailable reg' (gc_heap G))\<rparr>"
  have i: "in_charge ch r0 reg ?G" by (rule in_charge_steps [OF assms(1) steps_MarkUnavailable])
  show ?thesis
  proof (cases "put_region T reg' ?G")
    case (Ok x)
    obtain ovs replaced G1 where x: "x = ((ovs, replaced), G1)" by (cases x) auto
    have i1: "in_charge ch r0 reg G1" by (rule in_charge_steps [OF i put_region_steps]) (use Ok x in simp)
    show ?thesis
    proof (cases replaced)
      case True
      have "wakes ch r0 (est_available reg (del_clients ovs G1) k)"
        by (rule est_available_wakes [OF in_charge_steps [OF i1 del_clients_steps]]) (simp add: assms(2))
      then show ?thesis using Ok x True by (simp add: switch_region_def)
    next
      case False
      have "wakes ch r0 (est_available reg' G1 (\<lambda>G2. est_available reg G2 EstDone))"
      proof (cases "MarkAvailable reg' (gc_heap G1) :: (unit, region_heap) outcome")
        case av: (Ok h)
        have "steps G1 (G1\<lparr>gc_heap := h\<rparr>)" using region_step.mark_available [OF av] by (simp add: step_steps)
        from est_done_wakes [OF in_charge_steps [OF i1 this]] av show ?thesis by (simp add: est_available_def [of reg'])
      qed (auto simp: est_available_def [of reg'] wakes_def split: unit.splits)
      then show ?thesis using Ok x False by (simp add: switch_region_def)
    qed
  qed (auto simp: switch_region_def wakes_def split: unit.splits)
qed

lemma establish_turn_wakes:
  assumes "in_charge ch r0 reg G" "rely t"
  shows "wakes ch r0 (establish_turn T unmarshal t reg addr b G)"
proof -
  let ?G1 = "et_sleep_env t G" and ?G2 = "et_lookup_env t (et_sleep_env t G)"
  have i1: "in_charge ch r0 reg ?G1" using in_charge_steps [OF assms(1)] assms(2) by (simp add: rely_def)
  have i2: "in_charge ch r0 reg ?G2" using in_charge_steps [OF i1] assms(2) by (simp add: rely_def)
  have conn: "wakes ch r0 (connect_region t reg' addr' b' G')"
    if "ch \<in> rh_closed (gc_heap G')" "waiting ch r0 G'" for reg' addr' b' G'
    by (rule connect_region_wakes [OF _ assms(2)]) (use that in \<open>simp add: in_charge_def\<close>)
  note conn2 = connect_region_wakes [OF i2 assms(2)]
  have sw: "wakes ch r0 (switch_region T reg reg' ?G2 (connect_region t reg' addr' b'))" for reg' addr' b'
    by (rule switch_region_wakes [OF i2 conn])
  show ?thesis
  proof (cases "sleepAndIncreaseBackoff (ContextDone (gc_heap ?G1) reg) b")
    case (Inl e)
    then show ?thesis by (simp add: establish_turn_def est_done_wakes [OF i1])
  next
    case (Inr b')
    show ?thesis
    proof (cases "addr = ''''")
      case False
      then show ?thesis using Inr by (simp add: establish_turn_def connect_region_wakes [OF i1 assms(2)])
    next
      case True
      have "wakes ch r0 (est_available reg (forget_region T reg ?G2) EstDone)"
        by (rule est_done_wakes [OF in_charge_steps [OF i2 forget_region_steps]])
      moreover have "gc_done ?G2 = Some True"
        if "lookupRegion unmarshal ?G1 (fullyQualifiedTable reg) (ri_startKey reg) backoffStart (et_tries t) = Some (Err GohbaseClosed)"
        using lookupRegion_closed [OF that] assms(2) by (simp add: rely_def told_closed_def)
      ultimately show ?thesis using Inr True conn2 sw est_done_wakes [OF i2]
        by (simp add: establish_turn_def Let_def wakes_def [of _ _ "EstWait"] wakes_def [of _ _ "EstPanic _"]
            wakes_def [of _ _ "EstClosed _"] split: option.split outcome.split prod.split)
    qed
  qed
qed

lemma establishRegion_wakes:
  assumes "in_charge ch r0 reg G" "\<forall>t \<in> set ts. rely t"
  shows "wakes ch r0 (establishRegion T unmarshal ts reg addr b G)"
  using assms
proof (induction ts arbitrary: reg addr b G)
  case (Cons t ts)
  have w: "wakes ch r0 (establish_turn T unmarshal t reg addr b G)"
    by (rule establish_turn_wakes) (use Cons.prems in auto)
  show ?case
  proof (cases "establish_turn T unmarshal t reg addr b G")
    case (EstNext reg' b' G')
    then have "in_charge ch r0 reg' G'" using w by (simp add: wakes_def)
    then show ?thesis using Cons.IH [of reg' G'] Cons.prems(2) EstNext by simp
  qed (use w in simp_all)
qed (simp add: wakes_def)

section \<open>Properties\<close>

lemma establishRegion_ends: "establishRegion T unmarshal ts reg addr b G \<noteq> EstNext reg' b' G'"
  by (induction ts arbitrary: reg addr b G) (simp_all split: est_result.split)

text \<open>
  C7. When \<open>establishRegion\<close> or \<open>reestablishRegion\<close> returns, no call that was waiting for the region
  when it started is left waiting: either the channel the calls wait on is closed, whether the region
  was found and its server answered the probe, the table is gone, the region was replaced by
  others or superseded by a newer one, or it was marked dead; or the goroutine gave up because the client is closed, and then
  the channel \<^verbatim>\<open>done\<close>, which these calls wait on as well, is closed. This holds whatever
  the other goroutines do to the regions while this one sleeps, looks up, dials and probes.
\<close>

theorem establish_wakes_waiters:
  assumes "R = establishRegion T unmarshal ts reg addr backoff G \<or> R = reestablishRegion T unmarshal ts reg G"
    and "heap_inv (gc_heap G)" "AvailabilityChan (gc_heap G) reg = Some ch" "\<forall>t \<in> set ts. rely t"
  shows "case R of
      EstDone G' \<Rightarrow> ch \<in> rh_closed (gc_heap G')
    | EstClosed G' \<Rightarrow> gc_done G' = Some True
    | EstNext reg' backoff' G' \<Rightarrow> False
    | EstPanic p \<Rightarrow> True
    | EstWait \<Rightarrow> True"
proof -
  have "in_charge ch reg reg G" using assms(2,3) by (simp add: in_charge_def waiting_def)
  then have w: "wakes ch reg (establishRegion T unmarshal ts reg addr' b' G)" for addr' b'
    using assms(4) by (rule establishRegion_wakes)
  consider a b where "R = establishRegion T unmarshal ts reg a b G" | "R = EstClosed G" "gc_done G = Some True"
    using assms(1) by (metis reestablishRegion_def)
  then have "wakes ch reg R" "\<forall>r' b' G'. R \<noteq> EstNext r' b' G'"
    by (cases; simp add: w establishRegion_ends wakes_def [of _ _ "EstClosed _"])+
  then show ?thesis by (cases R) (auto simp: wakes_def)
qed

definition sample_turn :: "entry list est_turn" where
  "sample_turn = \<lparr>et_sleep_env = id, et_tries = [], et_lookup_env = id, et_client = 9,
     et_dial = DialOk, et_dial_env = id, et_probe = Inr None, et_probe_env = id\<rparr>"

definition sample_unavailable :: "entry list gclient" where
  "sample_unavailable = sample_gclient\<lparr>gc_clients := [], gc_heap := snd (MarkUnavailable sample_left init_heap)\<rparr>"

text \<open>A turn in which the client is closed while the region is looked up.\<close>

definition closing_turn :: "entry list est_turn" where
  "closing_turn = sample_turn\<lparr>
     et_tries := [\<lparr>lt_zk = Inl ContextEnded, lt_replies = [SendError GohbaseClosed], lt_ptr = 3, lt_timeout = False, lt_ctx_done = False\<rparr>],
     et_lookup_env := (\<lambda>G. G\<lparr>gc_closeOnce := True, gc_done := Some True\<rparr>)\<rparr>"

lemma sample_turns_rely: "\<forall>t \<in> set [sample_turn]. rely t" "\<forall>t \<in> set [closing_turn]. rely t"
  by (simp_all add: rely_def sample_turn_def closing_turn_def told_closed_def steps_refl)

lemma closing_turn_lookup:
  "lookupRegion (\<lambda>_. Inl []) sample_unavailable (fullyQualifiedTable sample_left) (ri_startKey sample_left) backoffStart
    (et_tries closing_turn) = Some (Err GohbaseClosed)"
  by code_simp

theorem establish_wakes_waiters_witness:
  "AvailabilityChan (gc_heap sample_unavailable) sample_left = Some 0 \<and>
   (\<exists>G'. establishRegion list_tree (\<lambda>_. Inl []) [sample_turn] sample_left ''h:1'' 0 sample_unavailable = EstDone G' \<and>
     0 \<in> rh_closed (gc_heap G')) \<and>
   (\<exists>G'. reestablishRegion list_tree (\<lambda>_. Inl []) [closing_turn] sample_left sample_unavailable = EstClosed G' \<and>
     gc_done G' = Some True)"
proof -
  have a: "AvailabilityChan (gc_heap sample_unavailable) sample_left = Some 0"
    by (simp add: sample_unavailable_def region_heap_defs init_heap_def new_region_state_def)
  have i: "heap_inv (gc_heap sample_unavailable)"
    by (simp add: sample_unavailable_def heap_inv_def region_heap_defs init_heap_def new_region_state_def)
  obtain G1 where e: "establishRegion list_tree (\<lambda>_. Inl []) [sample_turn] sample_left ''h:1'' 0 sample_unavailable = EstDone G1"
    by (simp add: establish_turn_def sample_turn_def sleepAndIncreaseBackoff_def connect_region_def crc_put_def
        isRegionEstablished_def est_available_def set_client_def sample_unavailable_def sample_gclient_def
        region_heap_defs init_heap_def new_region_state_def same_region_ptr_def sample_defs NewInfo_def)
  have "et_sleep_env closing_turn = id" "gc_done sample_unavailable = Some False"
    "\<not> ContextDone (gc_heap (et_lookup_env closing_turn sample_unavailable)) sample_left"
    by (simp_all add: closing_turn_def sample_turn_def sample_unavailable_def sample_gclient_def region_heap_defs
        init_heap_def new_region_state_def)
  then obtain G2 where c: "reestablishRegion list_tree (\<lambda>_. Inl []) [closing_turn] sample_left sample_unavailable = EstClosed G2"
    using closing_turn_lookup by (simp add: reestablishRegion_def establish_turn_def sleepAndIncreaseBackoff_def)
  show ?thesis
    using establish_wakes_waiters [OF disjI1 [OF e [symmetric]] i a sample_turns_rely(1)]
      establish_wakes_waiters [OF disjI2 [OF c [symmetric]] i a sample_turns_rely(2)] a e c by simp
qed

end
