(* ===== verification/Zookeeper.thy ===== *)
theory Zookeeper
  imports Prelude
begin

text \<open>
  Finding servers in ZooKeeper (\<^verbatim>\<open>src/zk/client.go\<close>): the names of the znodes and the format of
  their contents. The connection to ZooKeeper and the protobuf decoders are parameters.
\<close>

section \<open>The standard library\<close>

text \<open>\<^verbatim>\<open>path.Clean\<close> and \<^verbatim>\<open>path.Join\<close>.\<close>

fun split_on :: "'a \<Rightarrow> 'a list \<Rightarrow> 'a list list" where
  "split_on c [] = [[]]"
| "split_on c (x # xs) =
     (if x = c then [] # split_on c xs
      else case split_on c xs of [] \<Rightarrow> [[x]] | s # ss \<Rightarrow> (x # s) # ss)"

fun join_with :: "string \<Rightarrow> string list \<Rightarrow> string" where
  "join_with sep [] = []"
| "join_with sep [s] = s"
| "join_with sep (s # ss) = s @ sep @ join_with sep ss"

fun clean_elems :: "bool \<Rightarrow> string list \<Rightarrow> string list \<Rightarrow> string list" where
  "clean_elems rooted out [] = rev out"
| "clean_elems rooted out (s # ss) =
     (if s = '''' \<or> s = ''.'' then clean_elems rooted out ss
      else if s = ''..'' then
        (case out of
           [] \<Rightarrow> clean_elems rooted (if rooted then [] else [''..'']) ss
         | t # ts \<Rightarrow> clean_elems rooted (if t = ''..'' then ''..'' # out else ts) ss)
      else clean_elems rooted (s # out) ss)"

definition path_Clean :: "string \<Rightarrow> string" where
  "path_Clean p =
     (let rooted = (p \<noteq> '''' \<and> hd p = CHR ''/'');
          cleaned = (if rooted then ''/'' else '''') @ join_with ''/'' (clean_elems rooted [] (split_on (CHR ''/'') p))
      in if cleaned = '''' then ''.'' else cleaned)"

definition path_Join :: "string list \<Rightarrow> string" where
  "path_Join elems =
     (case filter (\<lambda>e. e \<noteq> '''') elems of
        [] \<Rightarrow> ''''
      | es \<Rightarrow> path_Clean (join_with ''/'' es))"

text \<open>\<^verbatim>\<open>fmt.Sprint\<close> of an unsigned integer and \<^verbatim>\<open>net.JoinHostPort\<close>.\<close>

fun decimal :: "nat \<Rightarrow> string" where
  "decimal n = (if n < 10 then [char_of (48 + n)] else decimal (n div 10) @ [char_of (48 + n mod 10)])"

declare decimal.simps [simp del]

definition JoinHostPort :: "string \<Rightarrow> string \<Rightarrow> string" where
  "JoinHostPort host port =
     (if CHR '':'' \<in> set host then ''['' @ host @ '']:'' @ port else host @ '':'' @ port)"

section \<open>Resources\<close>

type_synonym ResourceName = string

definition Prepend :: "ResourceName \<Rightarrow> string \<Rightarrow> ResourceName" where
  "Prepend r pfx = path_Join [pfx, r]"

definition Meta :: ResourceName where "Meta = ''/meta-region-server''"
definition Master :: ResourceName where "Master = ''/master''"

section \<open>The client\<close>

record zk_client =
  zk_zks :: "string list"
  zk_sessionTimeout :: int

definition zk_NewClient :: "string \<Rightarrow> int \<Rightarrow> zk_client" where
  "zk_NewClient zkquorum st = \<lparr>zk_zks = split_on (CHR '','') zkquorum, zk_sessionTimeout = st\<rparr>"

text \<open>The fields of \<^verbatim>\<open>pb.ServerName\<close> that are read; a decoder gives the server of its message.\<close>

record server_name =
  sn_HostName :: "string option"
  sn_Port :: "u32 option"

type_synonym server_decoder = "bytes \<Rightarrow> string + server_name option"

definition pbufMagic :: u32 where "pbufMagic = 1346524486"

definition server_address :: "server_name option \<Rightarrow> (string, string) outcome" where
  "server_address server =
     (case server of
        None \<Rightarrow> Panic NilDereference
      | Some s \<Rightarrow>
          (case (sn_HostName s, sn_Port s) of
             (Some host, Some port) \<Rightarrow> Ok (JoinHostPort host (decimal (unat port)))
           | _ \<Rightarrow> Panic NilDereference))"

definition decode_server :: "server_decoder \<Rightarrow> server_decoder \<Rightarrow> ResourceName \<Rightarrow> bytes \<Rightarrow> (string, string) outcome" where
  "decode_server um_meta um_master resource buf =
     (if resource = Meta
      then case um_meta buf of
          Inl err \<Rightarrow> Err (''failed to deserialize the MetaRegionServer entry from ZK: '' @ err)
        | Inr server \<Rightarrow> server_address server
      else case um_master buf of
          Inl err \<Rightarrow> Err (''failed to deserialize the Master entry from ZK: '' @ err)
        | Inr server \<Rightarrow> server_address server)"

definition decode_znode :: "server_decoder \<Rightarrow> server_decoder \<Rightarrow> ResourceName \<Rightarrow> bytes \<Rightarrow> (string, string) outcome" where
  "decode_znode um_meta um_master resource buf =
     (if buf = [] then Panic (Fatal ''was empty!'')
      else if hd buf \<noteq> 0xFF then Err ''the first byte was not 0xFF''
      else and_then (slice_from buf 1) (\<lambda>b. and_then (uint32 b) (\<lambda>metadataLen.
        if metadataLen < 1 \<or> metadataLen > 65000 then Err ''invalid metadata length''
        else and_then (slice_from buf (unat (1 + 4 + metadataLen))) (\<lambda>buf. and_then (uint32 buf) (\<lambda>magic.
          if magic \<noteq> pbufMagic then Err ''invalid magic number''
          else and_then (slice_from buf 4) (decode_server um_meta um_master resource))))))"

text \<open>\<open>connect\<close> gives what reading each znode returns.\<close>

definition LocateResource ::
  "(string list \<Rightarrow> int \<Rightarrow> string + (string \<Rightarrow> string + bytes)) \<Rightarrow> server_decoder \<Rightarrow> server_decoder
     \<Rightarrow> zk_client \<Rightarrow> ResourceName \<Rightarrow> (string, string) outcome" where
  "LocateResource connect um_meta um_master c resource =
     (case connect (zk_zks c) (zk_sessionTimeout c) of
        Inl err \<Rightarrow> Err (''error connecting to ZooKeeper: '' @ err)
      | Inr get \<Rightarrow>
          (case get resource of
             Inl err \<Rightarrow> Err (''failed to read the znode: '' @ err)
           | Inr buf \<Rightarrow> decode_znode um_meta um_master resource buf))"

section \<open>Reading znodes\<close>

text \<open>The format: a marker, metadata with its length, the magic number, the message.\<close>

definition znode :: "bytes \<Rightarrow> bytes \<Rightarrow> bytes" where
  "znode metadata payload = 0xFF # put_uint32 (word_of_nat (length metadata)) @ metadata @ put_uint32 pbufMagic @ payload"

lemma unat_header: "n \<le> 65000 \<Longrightarrow> unat (1 + 4 + (n :: u32)) = 5 + unat n"
  by (simp add: unat_word_ariths word_le_nat_alt take_bit_eq_mod)

lemma slice_from_1: "slice_from (x # xs) (Suc 0) = Ok xs"
  by (simp add: slice_from_def)

lemma decode_znode_znode:
  assumes "1 \<le> length md" "length md \<le> 65000"
  shows "decode_znode um_meta um_master resource (znode md payload) = decode_server um_meta um_master resource payload"
proof -
  let ?n = "word_of_nat (length md) :: u32"
  have n: "unat ?n = length md" using assms by (simp add: unat_of_nat)
  then have "\<not> (?n < 1 \<or> ?n > 65000)" "?n \<le> 65000" using assms by (auto simp: word_less_nat_alt word_le_nat_alt)
  moreover have "slice_from (znode md payload) (unat (1 + 4 + ?n)) = (Ok (put_uint32 pbufMagic @ payload) :: (string, bytes) outcome)"
    using unat_header [OF calculation(2)] n
      slice_from_appendI [of "0xFF # put_uint32 ?n @ md" "5 + length md" "put_uint32 pbufMagic @ payload"]
    by (simp add: znode_def)
  ultimately show ?thesis
    by (simp add: decode_znode_def znode_def slice_from_appendI slice_from_1)
qed

lemma split_uint32: "uint32 b = Ok n \<Longrightarrow> b = put_uint32 n @ drop 4 b"
proof -
  assume u: "uint32 b = Ok n"
  then have "length (take 4 b) = 4" "uint32 (take 4 b) = Ok n" by (auto simp: uint32_def split: if_splits)
  then have "take 4 b = put_uint32 n" using put_uint32_get by blast
  then show ?thesis by (metis append_take_drop_id)
qed

lemma decode_znode_Ok:
  assumes "decode_znode um_meta um_master resource buf = Ok addr"
  obtains md payload where "buf = znode md payload" "1 \<le> length md" "length md \<le> 65000"
    "decode_server um_meta um_master resource payload = Ok addr"
proof -
  obtain b where b: "buf = 0xFF # b" using assms by (cases buf) (auto simp: decode_znode_def split: if_splits)
  obtain n where n: "uint32 b = (Ok n :: (string, u32) outcome)" "1 \<le> n" "n \<le> 65000"
    using assms b by (auto simp: decode_znode_def slice_from_1 word_less_nat_alt word_le_nat_alt not_less split: if_splits)
  then obtain rest where r: "slice_from buf (5 + unat n) = (Ok rest :: (string, bytes) outcome)"
      "uint32 rest = (Ok pbufMagic :: (string, u32) outcome)" "decode_server um_meta um_master resource (drop 4 rest) = Ok addr"
    using assms b unat_header [of n] by (auto simp: decode_znode_def slice_from_1 slice_from_def [of _ 4] not_less split: if_splits)
  have b': "b = put_uint32 n @ drop 4 b" using split_uint32 [OF n(1)] .
  have len: "unat n + 4 \<le> length b" using r(1) b by (auto simp: slice_from_def split: if_splits)
  let ?md = "take (unat n) (drop 4 b)"
  have l: "length ?md = unat n" using len by simp
  have "rest = drop (unat n) (drop 4 b)" using r(1) b by (auto simp: slice_from_def add.commute drop_Cons' split: if_splits)
  then have "drop 4 b = ?md @ put_uint32 pbufMagic @ drop 4 rest" using split_uint32 [OF r(2)] by (metis append_take_drop_id)
  then have "buf = znode ?md (drop 4 rest)" using b b' l by (simp add: znode_def)
  moreover have "1 \<le> length ?md" "length ?md \<le> 65000" using n(2,3) l by (simp_all add: word_le_nat_alt)
  ultimately show thesis using that r(3) by blast
qed

section \<open>Properties\<close>

text \<open>
  C32. \<^verbatim>\<open>LocateResource\<close> returns an address exactly for a znode that holds the marker, between 1 and
  65000 bytes of metadata, the magic number and a message that names a server, and the
  address is that of this server.
\<close>

theorem LocateResource_exact:
  "LocateResource connect um_meta um_master c resource = Ok addr \<longleftrightarrow>
    (\<exists>get md payload s host port. connect (zk_zks c) (zk_sessionTimeout c) = Inr get \<and> get resource = Inr (znode md payload) \<and>
      1 \<le> length md \<and> length md \<le> 65000 \<and>
      (if resource = Meta then um_meta else um_master) payload = Inr (Some s) \<and> sn_HostName s = Some host \<and> sn_Port s = Some port \<and>
      addr = JoinHostPort host (decimal (unat port)))"
proof -
  have d: "decode_server um_meta um_master resource payload = Ok addr \<longleftrightarrow>
    (\<exists>s host port. (if resource = Meta then um_meta else um_master) payload = Inr (Some s) \<and> sn_HostName s = Some host \<and> sn_Port s = Some port \<and>
      addr = JoinHostPort host (decimal (unat port)))" for payload
    by (auto simp: decode_server_def server_address_def split: sum.splits option.splits)
  show ?thesis (is "?l \<longleftrightarrow> ?r")
  proof
    assume ?l
    then obtain get buf where g: "connect (zk_zks c) (zk_sessionTimeout c) = Inr get" "get resource = Inr buf"
        "decode_znode um_meta um_master resource buf = Ok addr"
      by (auto simp: LocateResource_def split: sum.splits)
    from g(3) obtain md payload where "buf = znode md payload" "1 \<le> length md" "length md \<le> 65000"
        "decode_server um_meta um_master resource payload = Ok addr" by (rule decode_znode_Ok)
    then show ?r using g(1,2) d [of payload] by blast
  next
    assume ?r
    then obtain get md payload where g: "connect (zk_zks c) (zk_sessionTimeout c) = Inr get"
        "get resource = Inr (znode md payload)" "1 \<le> length md" "length md \<le> 65000"
        "decode_server um_meta um_master resource payload = Ok addr"
      using d by blast
    then show ?l using decode_znode_znode [OF g(3,4)] by (simp add: LocateResource_def)
  qed
qed

text \<open>
  A znode that is cut short before the message makes the lookup panic; and with the default
  root the location of \<^verbatim>\<open>hbase:meta\<close> is decoded as that of the master.
\<close>

lemma short_znode_panics:
  "length b < 4 \<Longrightarrow> decode_znode um_meta um_master resource (0xFF # b) = Panic IndexOutOfRange"
  by (simp add: decode_znode_def uint32_def slice_from_1)

lemma default_meta_resource: "Prepend Meta ''/hbase'' = ''/hbase/meta-region-server'' \<and> Prepend Meta ''/hbase'' \<noteq> Meta"
  by (simp add: Prepend_def Meta_def path_Join_def path_Clean_def Let_def)

end
