(* ===== verification/Row_Filters.thy ===== *)
theory Row_Filters
  imports Calls
begin

text \<open>
  Filters and comparators (\<^verbatim>\<open>src/filter/filter.go\<close>, \<^verbatim>\<open>src/filter/comparator.go\<close>): their messages,
  constructors and their form in a request, which is the name of HBase's class and the
  serialised message. Serialising is the protobuf runtime's and a parameter; a floating point
  number is given by its bits, 32-bit operators by their two's complement.
\<close>

section \<open>Comparators\<close>

definition comparatorPath :: string where
  "comparatorPath = ''org.apache.hadoop.hbase.filter.''"

definition BitComparatorBitwiseOp_isValid :: "u32 \<Rightarrow> bool" where
  "BitComparatorBitwiseOp_isValid op \<longleftrightarrow> sint op \<ge> 1 \<and> sint op \<le> 3"

definition NewByteArrayComparable :: "bytes \<Rightarrow> bytes" where
  "NewByteArrayComparable v = v"

text \<open>The messages; \<^verbatim>\<open>ByteArrayComparable\<close> is the bytes it holds.\<close>

datatype comparator =
    BinaryComparator bytes
  | LongComparator bytes
  | BinaryPrefixComparator bytes
  | BitComparator u32 bytes
  | NullComparator
  | RegexStringComparator gostring u32 gostring gostring
  | SubstringComparator gostring

definition NewBinaryComparator :: "bytes \<Rightarrow> comparator" where
  "NewBinaryComparator value = BinaryComparator value"

definition NewLongComparator :: "bytes \<Rightarrow> comparator" where
  "NewLongComparator value = LongComparator value"

definition NewBinaryPrefixComparator :: "bytes \<Rightarrow> comparator" where
  "NewBinaryPrefixComparator value = BinaryPrefixComparator value"

definition NewBitComparator :: "u32 \<Rightarrow> bytes \<Rightarrow> comparator" where
  "NewBitComparator bitwiseOp value = BitComparator bitwiseOp value"

definition NewNullComparator :: "comparator" where
  "NewNullComparator = NullComparator"

definition NewRegexStringComparator :: "gostring \<Rightarrow> u32 \<Rightarrow> gostring \<Rightarrow> gostring \<Rightarrow> comparator" where
  "NewRegexStringComparator pattern patternFlags charset engine = RegexStringComparator pattern patternFlags charset engine"

definition NewSubstringComparator :: "gostring \<Rightarrow> comparator" where
  "NewSubstringComparator substr = SubstringComparator substr"

definition serialized_comparator ::
  "(comparator \<Rightarrow> string + bytes) \<Rightarrow> string \<Rightarrow> comparator \<Rightarrow> (string, pb_comparator) outcome" where
  "serialized_comparator marshal name c =
     (case marshal c of
        Inl err \<Rightarrow> Err err
      | Inr b \<Rightarrow> Ok \<lparr>pc_name = str (comparatorPath @ name), pc_serialized = b\<rparr>)"

definition BinaryComparator_ConstructPB :: "(comparator \<Rightarrow> string + bytes) \<Rightarrow> bytes \<Rightarrow> (string, pb_comparator) outcome" where
  "BinaryComparator_ConstructPB marshal value = serialized_comparator marshal ''BinaryComparator'' (BinaryComparator value)"

definition LongComparator_ConstructPB :: "(comparator \<Rightarrow> string + bytes) \<Rightarrow> bytes \<Rightarrow> (string, pb_comparator) outcome" where
  "LongComparator_ConstructPB marshal value = serialized_comparator marshal ''LongComparator'' (LongComparator value)"

definition BinaryPrefixComparator_ConstructPB :: "(comparator \<Rightarrow> string + bytes) \<Rightarrow> bytes \<Rightarrow> (string, pb_comparator) outcome" where
  "BinaryPrefixComparator_ConstructPB marshal value = serialized_comparator marshal ''BinaryPrefixComparator'' (BinaryPrefixComparator value)"

definition BitComparator_ConstructPB :: "(comparator \<Rightarrow> string + bytes) \<Rightarrow> u32 \<Rightarrow> bytes \<Rightarrow> (string, pb_comparator) outcome" where
  "BitComparator_ConstructPB marshal bitwiseOp value =
     (if \<not> BitComparatorBitwiseOp_isValid bitwiseOp then Err ''Invalid bitwise operator specified''
      else serialized_comparator marshal ''BitComparator'' (BitComparator bitwiseOp value))"

definition NullComparator_ConstructPB :: "(comparator \<Rightarrow> string + bytes) \<Rightarrow> (string, pb_comparator) outcome" where
  "NullComparator_ConstructPB marshal = serialized_comparator marshal ''NullComparator'' NullComparator"

definition RegexStringComparator_ConstructPB :: "(comparator \<Rightarrow> string + bytes) \<Rightarrow> gostring \<Rightarrow> u32 \<Rightarrow> gostring \<Rightarrow> gostring \<Rightarrow> (string, pb_comparator) outcome" where
  "RegexStringComparator_ConstructPB marshal pattern patternFlags charset engine = serialized_comparator marshal ''RegexStringComparator'' (RegexStringComparator pattern patternFlags charset engine)"

definition SubstringComparator_ConstructPB :: "(comparator \<Rightarrow> string + bytes) \<Rightarrow> gostring \<Rightarrow> (string, pb_comparator) outcome" where
  "SubstringComparator_ConstructPB marshal substr = serialized_comparator marshal ''SubstringComparator'' (SubstringComparator substr)"

text \<open>The method of the interface.\<close>

fun ConstructPBComparator :: "(comparator \<Rightarrow> string + bytes) \<Rightarrow> comparator \<Rightarrow> (string, pb_comparator) outcome" where
  "ConstructPBComparator marshal (BinaryComparator value) = BinaryComparator_ConstructPB marshal value"
| "ConstructPBComparator marshal (LongComparator value) = LongComparator_ConstructPB marshal value"
| "ConstructPBComparator marshal (BinaryPrefixComparator value) = BinaryPrefixComparator_ConstructPB marshal value"
| "ConstructPBComparator marshal (BitComparator bitwiseOp value) = BitComparator_ConstructPB marshal bitwiseOp value"
| "ConstructPBComparator marshal NullComparator = NullComparator_ConstructPB marshal"
| "ConstructPBComparator marshal (RegexStringComparator pattern patternFlags charset engine) = RegexStringComparator_ConstructPB marshal pattern patternFlags charset engine"
| "ConstructPBComparator marshal (SubstringComparator substr) = SubstringComparator_ConstructPB marshal substr"

lemmas comparator_defs = BitComparator_ConstructPB_def BinaryComparator_ConstructPB_def LongComparator_ConstructPB_def BinaryPrefixComparator_ConstructPB_def NullComparator_ConstructPB_def RegexStringComparator_ConstructPB_def SubstringComparator_ConstructPB_def

section \<open>Filters\<close>

definition filterPath :: string where
  "filterPath = ''org.apache.hadoop.hbase.filter.''"

definition ListOperator_isValid :: "u32 \<Rightarrow> bool" where
  "ListOperator_isValid op \<longleftrightarrow> sint op \<ge> 1 \<and> sint op \<le> 2"

definition CompareType_isValid :: "u32 \<Rightarrow> bool" where
  "CompareType_isValid op \<longleftrightarrow> sint op \<ge> 0 \<and> sint op \<le> 6"

record compare_filter =
  cf_compareOp :: u32
  cf_comparator :: pb_comparator

record single_column_value =
  sc_columnFamily :: bytes
  sc_columnQualifier :: bytes
  sc_compareOp :: u32
  sc_comparator :: pb_comparator
  sc_filterIfMissing :: bool
  sc_latestVersionOnly :: bool

record row_range =
  rr_startRow :: bytes
  rr_startRowInclusive :: bool
  rr_stopRow :: bytes
  rr_stopRowInclusive :: bool

text \<open>The messages. A filter inside another one is already in its form for requests.\<close>

datatype row_filter =
    FilterList u32 "pb_filter list"
  | ColumnCountGetFilter u32
  | ColumnPaginationFilter u32 u32 bytes
  | ColumnPrefixFilter bytes
  | ColumnRangeFilter bytes bytes bool bool
  | CompareFilter compare_filter
  | DependentColumnFilter compare_filter bytes bytes bool
  | FamilyFilter compare_filter
  | Wrapper pb_filter
  | FirstKeyOnlyFilter
  | FirstKeyValueMatchingQualifiersFilter "bytes list"
  | FuzzyRowFilter "(bytes \<times> bytes) list"
  | InclusiveStopFilter bytes
  | KeyOnlyFilter bool
  | MultipleColumnPrefixFilter "bytes list"
  | PageFilter u64
  | PrefixFilter bytes
  | QualifierFilter compare_filter
  | RandomRowFilter u32
  | RowFilter compare_filter
  | SingleColumnValueFilter single_column_value
  | SingleColumnValueExcludeFilter single_column_value
  | SkipFilter pb_filter
  | TimestampsFilter "u64 list"
  | ValueFilter compare_filter
  | WhileMatchFilter pb_filter
  | AllFilter
  | RowRange row_range
  | MultiRowRangeFilter "row_range list"

definition serialized_filter ::
  "(row_filter \<Rightarrow> string + bytes) \<Rightarrow> string \<Rightarrow> row_filter \<Rightarrow> (string, pb_filter) outcome" where
  "serialized_filter marshal name f =
     (case marshal f of
        Inl err \<Rightarrow> Err err
      | Inr b \<Rightarrow> Ok \<lparr>pf_name = str (filterPath @ name), pf_serialized = b\<rparr>)"

text \<open>\<^verbatim>\<open>pb.MustMarshal\<close> panics where \<^verbatim>\<open>proto.Marshal\<close> fails.\<close>

definition must_marshal :: "(row_filter \<Rightarrow> string + bytes) \<Rightarrow> string \<Rightarrow> row_filter \<Rightarrow> (string, pb_filter) outcome" where
  "must_marshal marshal name f =
     (case marshal f of
        Inl err \<Rightarrow> Panic (Explicit err)
      | Inr b \<Rightarrow> Ok \<lparr>pf_name = str (filterPath @ name), pf_serialized = b\<rparr>)"

definition FilterList_ConstructPBFilter ::
  "(row_filter \<Rightarrow> string + bytes) \<Rightarrow> u32 \<Rightarrow> pb_filter list \<Rightarrow> (string, pb_filter) outcome" where
  "FilterList_ConstructPBFilter marshal operator filters =
     (if \<not> ListOperator_isValid operator then Err ''invalid operator specified''
      else serialized_filter marshal ''FilterList'' (FilterList operator filters))"

definition ColumnCountGetFilter_ConstructPBFilter ::
  "(row_filter \<Rightarrow> string + bytes) \<Rightarrow> u32 \<Rightarrow> (string, pb_filter) outcome" where
  "ColumnCountGetFilter_ConstructPBFilter marshal limit = serialized_filter marshal ''ColumnCountGetFilter'' (ColumnCountGetFilter limit)"

definition ColumnPaginationFilter_ConstructPBFilter ::
  "(row_filter \<Rightarrow> string + bytes) \<Rightarrow> u32 \<Rightarrow> u32 \<Rightarrow> bytes \<Rightarrow> (string, pb_filter) outcome" where
  "ColumnPaginationFilter_ConstructPBFilter marshal limit offset columnOffset = serialized_filter marshal ''ColumnPaginationFilter'' (ColumnPaginationFilter limit offset columnOffset)"

definition ColumnPrefixFilter_ConstructPBFilter ::
  "(row_filter \<Rightarrow> string + bytes) \<Rightarrow> bytes \<Rightarrow> (string, pb_filter) outcome" where
  "ColumnPrefixFilter_ConstructPBFilter marshal pfx = serialized_filter marshal ''ColumnPrefixFilter'' (ColumnPrefixFilter pfx)"

definition ColumnRangeFilter_ConstructPBFilter ::
  "(row_filter \<Rightarrow> string + bytes) \<Rightarrow> bytes \<Rightarrow> bytes \<Rightarrow> bool \<Rightarrow> bool \<Rightarrow> (string, pb_filter) outcome" where
  "ColumnRangeFilter_ConstructPBFilter marshal minColumn maxColumn minColumnInclusive maxColumnInclusive = serialized_filter marshal ''ColumnRangeFilter'' (ColumnRangeFilter minColumn maxColumn minColumnInclusive maxColumnInclusive)"

definition CompareFilter_ConstructPBFilter ::
  "(row_filter \<Rightarrow> string + bytes) \<Rightarrow> compare_filter \<Rightarrow> (string, pb_filter) outcome" where
  "CompareFilter_ConstructPBFilter marshal compareFilter = serialized_filter marshal ''CompareFilter'' (CompareFilter compareFilter)"

definition DependentColumnFilter_ConstructPBFilter ::
  "(row_filter \<Rightarrow> string + bytes) \<Rightarrow> compare_filter \<Rightarrow> bytes \<Rightarrow> bytes \<Rightarrow> bool \<Rightarrow> (string, pb_filter) outcome" where
  "DependentColumnFilter_ConstructPBFilter marshal compareFilter columnFamily columnQualifier dropDependentColumn = serialized_filter marshal ''DependentColumnFilter'' (DependentColumnFilter compareFilter columnFamily columnQualifier dropDependentColumn)"

definition FamilyFilter_ConstructPBFilter ::
  "(row_filter \<Rightarrow> string + bytes) \<Rightarrow> compare_filter \<Rightarrow> (string, pb_filter) outcome" where
  "FamilyFilter_ConstructPBFilter marshal compareFilter = serialized_filter marshal ''FamilyFilter'' (FamilyFilter compareFilter)"

definition Wrapper_ConstructPBFilter ::
  "(row_filter \<Rightarrow> string + bytes) \<Rightarrow> pb_filter \<Rightarrow> (string, pb_filter) outcome" where
  "Wrapper_ConstructPBFilter marshal wrapped = serialized_filter marshal ''FilterWrapper'' (Wrapper wrapped)"

definition FirstKeyOnlyFilter_ConstructPBFilter ::
  "(row_filter \<Rightarrow> string + bytes) \<Rightarrow> (string, pb_filter) outcome" where
  "FirstKeyOnlyFilter_ConstructPBFilter marshal = must_marshal marshal ''FirstKeyOnlyFilter'' FirstKeyOnlyFilter"

definition FirstKeyValueMatchingQualifiersFilter_ConstructPBFilter ::
  "(row_filter \<Rightarrow> string + bytes) \<Rightarrow> bytes list \<Rightarrow> (string, pb_filter) outcome" where
  "FirstKeyValueMatchingQualifiersFilter_ConstructPBFilter marshal qualifiers = serialized_filter marshal ''FirstKeyValueMatchingQualifiersFilter'' (FirstKeyValueMatchingQualifiersFilter qualifiers)"

definition FuzzyRowFilter_ConstructPBFilter ::
  "(row_filter \<Rightarrow> string + bytes) \<Rightarrow> (bytes \<times> bytes) list \<Rightarrow> (string, pb_filter) outcome" where
  "FuzzyRowFilter_ConstructPBFilter marshal pairs = serialized_filter marshal ''FuzzyRowFilter'' (FuzzyRowFilter pairs)"

definition InclusiveStopFilter_ConstructPBFilter ::
  "(row_filter \<Rightarrow> string + bytes) \<Rightarrow> bytes \<Rightarrow> (string, pb_filter) outcome" where
  "InclusiveStopFilter_ConstructPBFilter marshal stopRowKey = serialized_filter marshal ''InclusiveStopFilter'' (InclusiveStopFilter stopRowKey)"

definition KeyOnlyFilter_ConstructPBFilter ::
  "(row_filter \<Rightarrow> string + bytes) \<Rightarrow> bool \<Rightarrow> (string, pb_filter) outcome" where
  "KeyOnlyFilter_ConstructPBFilter marshal lenAsVal = serialized_filter marshal ''KeyOnlyFilter'' (KeyOnlyFilter lenAsVal)"

definition MultipleColumnPrefixFilter_ConstructPBFilter ::
  "(row_filter \<Rightarrow> string + bytes) \<Rightarrow> bytes list \<Rightarrow> (string, pb_filter) outcome" where
  "MultipleColumnPrefixFilter_ConstructPBFilter marshal sortedPrefixes = serialized_filter marshal ''MultipleColumnPrefixFilter'' (MultipleColumnPrefixFilter sortedPrefixes)"

definition PageFilter_ConstructPBFilter ::
  "(row_filter \<Rightarrow> string + bytes) \<Rightarrow> u64 \<Rightarrow> (string, pb_filter) outcome" where
  "PageFilter_ConstructPBFilter marshal pageSize = serialized_filter marshal ''PageFilter'' (PageFilter pageSize)"

definition PrefixFilter_ConstructPBFilter ::
  "(row_filter \<Rightarrow> string + bytes) \<Rightarrow> bytes \<Rightarrow> (string, pb_filter) outcome" where
  "PrefixFilter_ConstructPBFilter marshal pfx = serialized_filter marshal ''PrefixFilter'' (PrefixFilter pfx)"

definition QualifierFilter_ConstructPBFilter ::
  "(row_filter \<Rightarrow> string + bytes) \<Rightarrow> compare_filter \<Rightarrow> (string, pb_filter) outcome" where
  "QualifierFilter_ConstructPBFilter marshal compareFilter = serialized_filter marshal ''QualifierFilter'' (QualifierFilter compareFilter)"

definition RandomRowFilter_ConstructPBFilter ::
  "(row_filter \<Rightarrow> string + bytes) \<Rightarrow> u32 \<Rightarrow> (string, pb_filter) outcome" where
  "RandomRowFilter_ConstructPBFilter marshal chance = serialized_filter marshal ''RandomRowFilter'' (RandomRowFilter chance)"

definition RowFilter_ConstructPBFilter ::
  "(row_filter \<Rightarrow> string + bytes) \<Rightarrow> compare_filter \<Rightarrow> (string, pb_filter) outcome" where
  "RowFilter_ConstructPBFilter marshal compareFilter = serialized_filter marshal ''RowFilter'' (RowFilter compareFilter)"

definition SingleColumnValueFilter_ConstructPBFilter ::
  "(row_filter \<Rightarrow> string + bytes) \<Rightarrow> single_column_value \<Rightarrow> (string, pb_filter) outcome" where
  "SingleColumnValueFilter_ConstructPBFilter marshal scvf = serialized_filter marshal ''SingleColumnValueFilter'' (SingleColumnValueFilter scvf)"

definition SingleColumnValueExcludeFilter_ConstructPBFilter ::
  "(row_filter \<Rightarrow> string + bytes) \<Rightarrow> single_column_value \<Rightarrow> (string, pb_filter) outcome" where
  "SingleColumnValueExcludeFilter_ConstructPBFilter marshal scvf = serialized_filter marshal ''SingleColumnValueExcludeFilter'' (SingleColumnValueExcludeFilter scvf)"

definition SkipFilter_ConstructPBFilter ::
  "(row_filter \<Rightarrow> string + bytes) \<Rightarrow> pb_filter \<Rightarrow> (string, pb_filter) outcome" where
  "SkipFilter_ConstructPBFilter marshal skipped = serialized_filter marshal ''SkipFilter'' (SkipFilter skipped)"

definition TimestampsFilter_ConstructPBFilter ::
  "(row_filter \<Rightarrow> string + bytes) \<Rightarrow> u64 list \<Rightarrow> (string, pb_filter) outcome" where
  "TimestampsFilter_ConstructPBFilter marshal timestamps = serialized_filter marshal ''TimestampsFilter'' (TimestampsFilter timestamps)"

definition ValueFilter_ConstructPBFilter ::
  "(row_filter \<Rightarrow> string + bytes) \<Rightarrow> compare_filter \<Rightarrow> (string, pb_filter) outcome" where
  "ValueFilter_ConstructPBFilter marshal compareFilter = serialized_filter marshal ''ValueFilter'' (ValueFilter compareFilter)"

definition WhileMatchFilter_ConstructPBFilter ::
  "(row_filter \<Rightarrow> string + bytes) \<Rightarrow> pb_filter \<Rightarrow> (string, pb_filter) outcome" where
  "WhileMatchFilter_ConstructPBFilter marshal matching = serialized_filter marshal ''WhileMatchFilter'' (WhileMatchFilter matching)"

definition AllFilter_ConstructPBFilter ::
  "(row_filter \<Rightarrow> string + bytes) \<Rightarrow> (string, pb_filter) outcome" where
  "AllFilter_ConstructPBFilter marshal = must_marshal marshal ''FilterAllFilter'' AllFilter"

definition RowRange_ConstructPBFilter ::
  "(row_filter \<Rightarrow> string + bytes) \<Rightarrow> row_range \<Rightarrow> (string, pb_filter) outcome" where
  "RowRange_ConstructPBFilter marshal row_range = serialized_filter marshal ''RowRange'' (RowRange row_range)"

definition MultiRowRangeFilter_ConstructPBFilter ::
  "(row_filter \<Rightarrow> string + bytes) \<Rightarrow> row_range list \<Rightarrow> (string, pb_filter) outcome" where
  "MultiRowRangeFilter_ConstructPBFilter marshal ranges = serialized_filter marshal ''MultiRowRangeFilter'' (MultiRowRangeFilter ranges)"

text \<open>The method of the interface.\<close>

fun ConstructPBFilter :: "(row_filter \<Rightarrow> string + bytes) \<Rightarrow> row_filter \<Rightarrow> (string, pb_filter) outcome" where
  "ConstructPBFilter marshal (FilterList operator filters) = FilterList_ConstructPBFilter marshal operator filters"
| "ConstructPBFilter marshal (ColumnCountGetFilter limit) = ColumnCountGetFilter_ConstructPBFilter marshal limit"
| "ConstructPBFilter marshal (ColumnPaginationFilter limit offset columnOffset) = ColumnPaginationFilter_ConstructPBFilter marshal limit offset columnOffset"
| "ConstructPBFilter marshal (ColumnPrefixFilter pfx) = ColumnPrefixFilter_ConstructPBFilter marshal pfx"
| "ConstructPBFilter marshal (ColumnRangeFilter minColumn maxColumn minColumnInclusive maxColumnInclusive) = ColumnRangeFilter_ConstructPBFilter marshal minColumn maxColumn minColumnInclusive maxColumnInclusive"
| "ConstructPBFilter marshal (CompareFilter compareFilter) = CompareFilter_ConstructPBFilter marshal compareFilter"
| "ConstructPBFilter marshal (DependentColumnFilter compareFilter columnFamily columnQualifier dropDependentColumn) = DependentColumnFilter_ConstructPBFilter marshal compareFilter columnFamily columnQualifier dropDependentColumn"
| "ConstructPBFilter marshal (FamilyFilter compareFilter) = FamilyFilter_ConstructPBFilter marshal compareFilter"
| "ConstructPBFilter marshal (Wrapper wrapped) = Wrapper_ConstructPBFilter marshal wrapped"
| "ConstructPBFilter marshal FirstKeyOnlyFilter = FirstKeyOnlyFilter_ConstructPBFilter marshal"
| "ConstructPBFilter marshal (FirstKeyValueMatchingQualifiersFilter qualifiers) = FirstKeyValueMatchingQualifiersFilter_ConstructPBFilter marshal qualifiers"
| "ConstructPBFilter marshal (FuzzyRowFilter pairs) = FuzzyRowFilter_ConstructPBFilter marshal pairs"
| "ConstructPBFilter marshal (InclusiveStopFilter stopRowKey) = InclusiveStopFilter_ConstructPBFilter marshal stopRowKey"
| "ConstructPBFilter marshal (KeyOnlyFilter lenAsVal) = KeyOnlyFilter_ConstructPBFilter marshal lenAsVal"
| "ConstructPBFilter marshal (MultipleColumnPrefixFilter sortedPrefixes) = MultipleColumnPrefixFilter_ConstructPBFilter marshal sortedPrefixes"
| "ConstructPBFilter marshal (PageFilter pageSize) = PageFilter_ConstructPBFilter marshal pageSize"
| "ConstructPBFilter marshal (PrefixFilter pfx) = PrefixFilter_ConstructPBFilter marshal pfx"
| "ConstructPBFilter marshal (QualifierFilter compareFilter) = QualifierFilter_ConstructPBFilter marshal compareFilter"
| "ConstructPBFilter marshal (RandomRowFilter chance) = RandomRowFilter_ConstructPBFilter marshal chance"
| "ConstructPBFilter marshal (RowFilter compareFilter) = RowFilter_ConstructPBFilter marshal compareFilter"
| "ConstructPBFilter marshal (SingleColumnValueFilter scvf) = SingleColumnValueFilter_ConstructPBFilter marshal scvf"
| "ConstructPBFilter marshal (SingleColumnValueExcludeFilter scvf) = SingleColumnValueExcludeFilter_ConstructPBFilter marshal scvf"
| "ConstructPBFilter marshal (SkipFilter skipped) = SkipFilter_ConstructPBFilter marshal skipped"
| "ConstructPBFilter marshal (TimestampsFilter timestamps) = TimestampsFilter_ConstructPBFilter marshal timestamps"
| "ConstructPBFilter marshal (ValueFilter compareFilter) = ValueFilter_ConstructPBFilter marshal compareFilter"
| "ConstructPBFilter marshal (WhileMatchFilter matching) = WhileMatchFilter_ConstructPBFilter marshal matching"
| "ConstructPBFilter marshal AllFilter = AllFilter_ConstructPBFilter marshal"
| "ConstructPBFilter marshal (RowRange row_range) = RowRange_ConstructPBFilter marshal row_range"
| "ConstructPBFilter marshal (MultiRowRangeFilter ranges) = MultiRowRangeFilter_ConstructPBFilter marshal ranges"

lemmas filter_defs = FilterList_ConstructPBFilter_def
  ColumnCountGetFilter_ConstructPBFilter_def
  ColumnPaginationFilter_ConstructPBFilter_def
  ColumnPrefixFilter_ConstructPBFilter_def
  ColumnRangeFilter_ConstructPBFilter_def
  CompareFilter_ConstructPBFilter_def
  DependentColumnFilter_ConstructPBFilter_def
  FamilyFilter_ConstructPBFilter_def
  Wrapper_ConstructPBFilter_def
  FirstKeyOnlyFilter_ConstructPBFilter_def
  FirstKeyValueMatchingQualifiersFilter_ConstructPBFilter_def
  FuzzyRowFilter_ConstructPBFilter_def
  InclusiveStopFilter_ConstructPBFilter_def
  KeyOnlyFilter_ConstructPBFilter_def
  MultipleColumnPrefixFilter_ConstructPBFilter_def
  PageFilter_ConstructPBFilter_def
  PrefixFilter_ConstructPBFilter_def
  QualifierFilter_ConstructPBFilter_def
  RandomRowFilter_ConstructPBFilter_def
  RowFilter_ConstructPBFilter_def
  SingleColumnValueFilter_ConstructPBFilter_def
  SingleColumnValueExcludeFilter_ConstructPBFilter_def
  SkipFilter_ConstructPBFilter_def
  TimestampsFilter_ConstructPBFilter_def
  ValueFilter_ConstructPBFilter_def
  WhileMatchFilter_ConstructPBFilter_def
  AllFilter_ConstructPBFilter_def
  RowRange_ConstructPBFilter_def
  MultiRowRangeFilter_ConstructPBFilter_def

section \<open>Constructors\<close>

text \<open>An error of a nested filter or comparator is a panic.\<close>

definition or_panic :: "(string, 'a) outcome \<Rightarrow> ('a \<Rightarrow> (string, 'b) outcome) \<Rightarrow> (string, 'b) outcome" where
  "or_panic r k = (case r of Ok x \<Rightarrow> k x | Err err \<Rightarrow> Panic (Explicit err) | Panic p \<Rightarrow> Panic p)"

fun AddFilters :: "(row_filter \<Rightarrow> string + bytes) \<Rightarrow> row_filter list \<Rightarrow> pb_filter list \<Rightarrow> (string, pb_filter list) outcome" where
  "AddFilters marshal [] fpbs = Ok fpbs"
| "AddFilters marshal (f # fs) fpbs =
     or_panic (ConstructPBFilter marshal f) (\<lambda>fpb. AddFilters marshal fs (fpbs @ [fpb]))"

definition NewList :: "(row_filter \<Rightarrow> string + bytes) \<Rightarrow> u32 \<Rightarrow> row_filter list \<Rightarrow> (string, row_filter) outcome" where
  "NewList marshal operator fs = and_then (AddFilters marshal fs []) (\<lambda>fpbs. Ok (FilterList operator fpbs))"

definition NewCompareFilter ::
  "(comparator \<Rightarrow> string + bytes) \<Rightarrow> u32 \<Rightarrow> comparator \<Rightarrow> (string, compare_filter) outcome" where
  "NewCompareFilter cmarshal compareOp c =
     or_panic (ConstructPBComparator cmarshal c) (\<lambda>obj. Ok \<lparr>cf_compareOp = compareOp, cf_comparator = obj\<rparr>)"

definition NewSingleColumnValueFilter ::
  "(comparator \<Rightarrow> string + bytes) \<Rightarrow> bytes \<Rightarrow> bytes \<Rightarrow> u32 \<Rightarrow> comparator \<Rightarrow> bool \<Rightarrow> bool
     \<Rightarrow> (string, single_column_value) outcome" where
  "NewSingleColumnValueFilter cmarshal columnFamily columnQualifier compareOp c filterIfMissing latestVersionOnly =
     or_panic (ConstructPBComparator cmarshal c) (\<lambda>obj.
       Ok \<lparr>sc_columnFamily = columnFamily, sc_columnQualifier = columnQualifier, sc_compareOp = compareOp,
         sc_comparator = obj, sc_filterIfMissing = filterIfMissing, sc_latestVersionOnly = latestVersionOnly\<rparr>)"

definition SingleColumnValueFilter_ConstructPB :: "single_column_value \<Rightarrow> (string, single_column_value) outcome" where
  "SingleColumnValueFilter_ConstructPB f =
     (if \<not> CompareType_isValid (sc_compareOp f) then Err ''invalid compare operation specified'' else Ok f)"

definition NewRowRange :: "bytes \<Rightarrow> bytes \<Rightarrow> bool \<Rightarrow> bool \<Rightarrow> row_range" where
  "NewRowRange start stop startRowInclusive stopRowInclusive =
     \<lparr>rr_startRow = start, rr_startRowInclusive = startRowInclusive, rr_stopRow = stop,
       rr_stopRowInclusive = stopRowInclusive\<rparr>"

definition NewBytesBytesPair :: "bytes \<Rightarrow> bytes \<Rightarrow> bytes \<times> bytes" where
  "NewBytesBytesPair p1 p2 = (p1, p2)"

definition NewMultiRowRangeFilter :: "row_range list \<Rightarrow> row_filter" where
  "NewMultiRowRangeFilter rowRangeList = MultiRowRangeFilter (map (\<lambda>rr. rr) rowRangeList)"

definition NewFuzzyRowFilter :: "(bytes \<times> bytes) list \<Rightarrow> row_filter" where
  "NewFuzzyRowFilter ps = FuzzyRowFilter (map (\<lambda>p. p) ps)"

definition NewWrapper :: "(row_filter \<Rightarrow> string + bytes) \<Rightarrow> row_filter \<Rightarrow> (string, row_filter) outcome" where
  "NewWrapper marshal wrappedFilter = or_panic (ConstructPBFilter marshal wrappedFilter) (\<lambda>f. Ok (Wrapper f))"

definition NewSkipFilter :: "(row_filter \<Rightarrow> string + bytes) \<Rightarrow> row_filter \<Rightarrow> (string, row_filter) outcome" where
  "NewSkipFilter marshal skippingFilter = or_panic (ConstructPBFilter marshal skippingFilter) (\<lambda>f. Ok (SkipFilter f))"

definition NewWhileMatchFilter :: "(row_filter \<Rightarrow> string + bytes) \<Rightarrow> row_filter \<Rightarrow> (string, row_filter) outcome" where
  "NewWhileMatchFilter marshal matchingFilter = or_panic (ConstructPBFilter marshal matchingFilter) (\<lambda>f. Ok (WhileMatchFilter f))"

definition NewColumnCountGetFilter :: "u32 \<Rightarrow> row_filter" where
  "NewColumnCountGetFilter limit = ColumnCountGetFilter limit"

definition NewColumnPaginationFilter :: "u32 \<Rightarrow> u32 \<Rightarrow> bytes \<Rightarrow> row_filter" where
  "NewColumnPaginationFilter limit offset columnOffset = ColumnPaginationFilter limit offset columnOffset"

definition NewColumnPrefixFilter :: "bytes \<Rightarrow> row_filter" where
  "NewColumnPrefixFilter pfx = ColumnPrefixFilter pfx"

definition NewColumnRangeFilter :: "bytes \<Rightarrow> bytes \<Rightarrow> bool \<Rightarrow> bool \<Rightarrow> row_filter" where
  "NewColumnRangeFilter minColumn maxColumn minColumnInclusive maxColumnInclusive = ColumnRangeFilter minColumn maxColumn minColumnInclusive maxColumnInclusive"

definition NewDependentColumnFilter :: "compare_filter \<Rightarrow> bytes \<Rightarrow> bytes \<Rightarrow> bool \<Rightarrow> row_filter" where
  "NewDependentColumnFilter compareFilter columnFamily columnQualifier dropDependentColumn = DependentColumnFilter compareFilter columnFamily columnQualifier dropDependentColumn"

definition NewFamilyFilter :: "compare_filter \<Rightarrow> row_filter" where
  "NewFamilyFilter compareFilter = FamilyFilter compareFilter"

definition NewFirstKeyOnlyFilter :: "row_filter" where
  "NewFirstKeyOnlyFilter = FirstKeyOnlyFilter"

definition NewFirstKeyValueMatchingQualifiersFilter :: "bytes list \<Rightarrow> row_filter" where
  "NewFirstKeyValueMatchingQualifiersFilter qualifiers = FirstKeyValueMatchingQualifiersFilter qualifiers"

definition NewInclusiveStopFilter :: "bytes \<Rightarrow> row_filter" where
  "NewInclusiveStopFilter stopRowKey = InclusiveStopFilter stopRowKey"

definition NewKeyOnlyFilter :: "bool \<Rightarrow> row_filter" where
  "NewKeyOnlyFilter lenAsVal = KeyOnlyFilter lenAsVal"

definition NewMultipleColumnPrefixFilter :: "bytes list \<Rightarrow> row_filter" where
  "NewMultipleColumnPrefixFilter sortedPrefixes = MultipleColumnPrefixFilter sortedPrefixes"

definition NewPageFilter :: "u64 \<Rightarrow> row_filter" where
  "NewPageFilter pageSize = PageFilter pageSize"

definition NewPrefixFilter :: "bytes \<Rightarrow> row_filter" where
  "NewPrefixFilter pfx = PrefixFilter pfx"

definition NewQualifierFilter :: "compare_filter \<Rightarrow> row_filter" where
  "NewQualifierFilter compareFilter = QualifierFilter compareFilter"

definition NewRandomRowFilter :: "u32 \<Rightarrow> row_filter" where
  "NewRandomRowFilter chance = RandomRowFilter chance"

definition NewRowFilter :: "compare_filter \<Rightarrow> row_filter" where
  "NewRowFilter compareFilter = RowFilter compareFilter"

definition NewSingleColumnValueExcludeFilter :: "single_column_value \<Rightarrow> row_filter" where
  "NewSingleColumnValueExcludeFilter scvf = SingleColumnValueExcludeFilter scvf"

definition NewTimestampsFilter :: "u64 list \<Rightarrow> row_filter" where
  "NewTimestampsFilter timestamps = TimestampsFilter timestamps"

definition NewValueFilter :: "compare_filter \<Rightarrow> row_filter" where
  "NewValueFilter compareFilter = ValueFilter compareFilter"

definition NewAllFilter :: "row_filter" where
  "NewAllFilter = AllFilter"

section \<open>What an application can build\<close>

text \<open>
  Expressions over the constructors: filters without parts that can fail, and those that hold
  comparators or other filters.
\<close>

datatype filter_expr =
    Simple row_filter
  | Compared u32 comparator
  | Dependent u32 comparator bytes bytes bool
  | OnFamily u32 comparator
  | OnQualifier u32 comparator
  | OnRow u32 comparator
  | OnValue u32 comparator
  | SingleColumn bytes bytes u32 comparator bool bool
  | SingleColumnExclude bytes bytes u32 comparator bool bool
  | Wrapping filter_expr
  | Skipping filter_expr
  | WhileMatching filter_expr
  | Listing u32 "filter_expr list"

fun has_parts :: "row_filter \<Rightarrow> bool" where
  "has_parts (FilterList op fs) = True"
| "has_parts (CompareFilter cf) = True"
| "has_parts (DependentColumnFilter cf f q d) = True"
| "has_parts (FamilyFilter cf) = True"
| "has_parts (QualifierFilter cf) = True"
| "has_parts (RowFilter cf) = True"
| "has_parts (ValueFilter cf) = True"
| "has_parts (SingleColumnValueFilter sc) = True"
| "has_parts (SingleColumnValueExcludeFilter sc) = True"
| "has_parts (Wrapper f) = True"
| "has_parts (SkipFilter f) = True"
| "has_parts (WhileMatchFilter f) = True"
| "has_parts f = False"

fun expr_ok :: "filter_expr \<Rightarrow> bool" where
  "expr_ok (Simple f) = (\<not> has_parts f)"
| "expr_ok (Wrapping e) = expr_ok e"
| "expr_ok (Skipping e) = expr_ok e"
| "expr_ok (WhileMatching e) = expr_ok e"
| "expr_ok (Listing op es) = list_all expr_ok es"
| "expr_ok e = True"

text \<open>Building a filter by calling the constructors from the inside out.\<close>

fun build ::
  "(comparator \<Rightarrow> string + bytes) \<Rightarrow> (row_filter \<Rightarrow> string + bytes) \<Rightarrow> filter_expr \<Rightarrow> (string, row_filter) outcome"
and build_all ::
  "(comparator \<Rightarrow> string + bytes) \<Rightarrow> (row_filter \<Rightarrow> string + bytes) \<Rightarrow> filter_expr list \<Rightarrow> (string, row_filter list) outcome"
where
  "build cm fm (Simple f) = Ok f"
| "build cm fm (Compared op c) = and_then (NewCompareFilter cm op c) (\<lambda>cf. Ok (CompareFilter cf))"
| "build cm fm (Dependent op c fam qual d) =
     and_then (NewCompareFilter cm op c) (\<lambda>cf. Ok (NewDependentColumnFilter cf fam qual d))"
| "build cm fm (OnFamily op c) = and_then (NewCompareFilter cm op c) (\<lambda>cf. Ok (NewFamilyFilter cf))"
| "build cm fm (OnQualifier op c) = and_then (NewCompareFilter cm op c) (\<lambda>cf. Ok (NewQualifierFilter cf))"
| "build cm fm (OnRow op c) = and_then (NewCompareFilter cm op c) (\<lambda>cf. Ok (NewRowFilter cf))"
| "build cm fm (OnValue op c) = and_then (NewCompareFilter cm op c) (\<lambda>cf. Ok (NewValueFilter cf))"
| "build cm fm (SingleColumn fam qual op c m l) =
     and_then (NewSingleColumnValueFilter cm fam qual op c m l) (\<lambda>sc. Ok (SingleColumnValueFilter sc))"
| "build cm fm (SingleColumnExclude fam qual op c m l) =
     and_then (NewSingleColumnValueFilter cm fam qual op c m l) (\<lambda>sc. Ok (NewSingleColumnValueExcludeFilter sc))"
| "build cm fm (Wrapping e) = and_then (build cm fm e) (NewWrapper fm)"
| "build cm fm (Skipping e) = and_then (build cm fm e) (NewSkipFilter fm)"
| "build cm fm (WhileMatching e) = and_then (build cm fm e) (NewWhileMatchFilter fm)"
| "build cm fm (Listing op es) = and_then (build_all cm fm es) (NewList fm op)"
| "build_all cm fm [] = Ok []"
| "build_all cm fm (e # es) = and_then (build cm fm e) (\<lambda>f. and_then (build_all cm fm es) (\<lambda>fs. Ok (f # fs)))"

text \<open>The filter of a request, as \<^verbatim>\<open>hrpc.Filters\<close> takes it.\<close>

definition request_filter ::
  "(comparator \<Rightarrow> string + bytes) \<Rightarrow> (row_filter \<Rightarrow> string + bytes) \<Rightarrow> filter_expr \<Rightarrow> (string, pb_filter) outcome" where
  "request_filter cm fm e = and_then (build cm fm e) (ConstructPBFilter fm)"

section \<open>Names\<close>

text \<open>The messages of one type have one name in HBase.\<close>

fun filter_type :: "row_filter \<Rightarrow> string" where
  "filter_type (FilterList operator filters) = ''FilterList''"
| "filter_type (ColumnCountGetFilter limit) = ''ColumnCountGetFilter''"
| "filter_type (ColumnPaginationFilter limit offset columnOffset) = ''ColumnPaginationFilter''"
| "filter_type (ColumnPrefixFilter pfx) = ''ColumnPrefixFilter''"
| "filter_type (ColumnRangeFilter minColumn maxColumn minColumnInclusive maxColumnInclusive) = ''ColumnRangeFilter''"
| "filter_type (CompareFilter compareFilter) = ''CompareFilter''"
| "filter_type (DependentColumnFilter compareFilter columnFamily columnQualifier dropDependentColumn) = ''DependentColumnFilter''"
| "filter_type (FamilyFilter compareFilter) = ''FamilyFilter''"
| "filter_type (Wrapper wrapped) = ''FilterWrapper''"
| "filter_type FirstKeyOnlyFilter = ''FirstKeyOnlyFilter''"
| "filter_type (FirstKeyValueMatchingQualifiersFilter qualifiers) = ''FirstKeyValueMatchingQualifiersFilter''"
| "filter_type (FuzzyRowFilter pairs) = ''FuzzyRowFilter''"
| "filter_type (InclusiveStopFilter stopRowKey) = ''InclusiveStopFilter''"
| "filter_type (KeyOnlyFilter lenAsVal) = ''KeyOnlyFilter''"
| "filter_type (MultipleColumnPrefixFilter sortedPrefixes) = ''MultipleColumnPrefixFilter''"
| "filter_type (PageFilter pageSize) = ''PageFilter''"
| "filter_type (PrefixFilter pfx) = ''PrefixFilter''"
| "filter_type (QualifierFilter compareFilter) = ''QualifierFilter''"
| "filter_type (RandomRowFilter chance) = ''RandomRowFilter''"
| "filter_type (RowFilter compareFilter) = ''RowFilter''"
| "filter_type (SingleColumnValueFilter scvf) = ''SingleColumnValueFilter''"
| "filter_type (SingleColumnValueExcludeFilter scvf) = ''SingleColumnValueExcludeFilter''"
| "filter_type (SkipFilter skipped) = ''SkipFilter''"
| "filter_type (TimestampsFilter timestamps) = ''TimestampsFilter''"
| "filter_type (ValueFilter compareFilter) = ''ValueFilter''"
| "filter_type (WhileMatchFilter matching) = ''WhileMatchFilter''"
| "filter_type AllFilter = ''FilterAllFilter''"
| "filter_type (RowRange row_range) = ''RowRange''"
| "filter_type (MultiRowRangeFilter ranges) = ''MultiRowRangeFilter''"

fun comparator_type :: "comparator \<Rightarrow> string" where
  "comparator_type (BinaryComparator value) = ''BinaryComparator''"
| "comparator_type (LongComparator value) = ''LongComparator''"
| "comparator_type (BinaryPrefixComparator value) = ''BinaryPrefixComparator''"
| "comparator_type (BitComparator bitwiseOp value) = ''BitComparator''"
| "comparator_type NullComparator = ''NullComparator''"
| "comparator_type (RegexStringComparator pattern patternFlags charset engine) = ''RegexStringComparator''"
| "comparator_type (SubstringComparator substr) = ''SubstringComparator''"

text \<open>What is used of the protobuf runtime: no two messages of one type have the same encoding.\<close>

definition unambiguous :: "('m \<Rightarrow> string) \<Rightarrow> ('m \<Rightarrow> string + bytes) \<Rightarrow> bool" where
  "unambiguous ty marshal \<longleftrightarrow> (\<forall>x y b. ty x = ty y \<longrightarrow> marshal x = Inr b \<longrightarrow> marshal y = Inr b \<longrightarrow> x = y)"

lemma str_inject: "str s = str t \<longleftrightarrow> s = t"
  unfolding str_def using inj_map_eq_map [of char_byte] by (simp add: inj_def char_byte_inject)

lemma ConstructPBComparator_name:
  "ConstructPBComparator cm c = Ok p \<Longrightarrow>
    pc_name p = str (comparatorPath @ comparator_type c) \<and> cm c = Inr (pc_serialized p)"
  by (cases c) (auto simp: comparator_defs serialized_comparator_def split: sum.splits if_splits)

lemma ConstructPBFilter_name:
  "ConstructPBFilter fm f = Ok p \<Longrightarrow> pf_name p = str (filterPath @ filter_type f) \<and> fm f = Inr (pf_serialized p)"
  by (cases f) (auto simp: filter_defs serialized_filter_def must_marshal_def split: sum.splits if_splits)

lemma ConstructPBComparator_inj:
  "unambiguous comparator_type cm \<Longrightarrow> ConstructPBComparator cm c = Ok p \<Longrightarrow> ConstructPBComparator cm d = Ok p \<Longrightarrow> c = d"
  using ConstructPBComparator_name [of cm c p] ConstructPBComparator_name [of cm d p]
  by (auto simp: unambiguous_def str_inject)

lemma ConstructPBFilter_inj:
  "unambiguous filter_type fm \<Longrightarrow> ConstructPBFilter fm f = Ok p \<Longrightarrow> ConstructPBFilter fm g = Ok p \<Longrightarrow> f = g"
  using ConstructPBFilter_name [of fm f p] ConstructPBFilter_name [of fm g p]
  by (auto simp: unambiguous_def str_inject)

section \<open>Nothing of an expression is lost\<close>

lemma or_panic_eq_Ok [simp]: "or_panic r k = Ok y \<longleftrightarrow> (\<exists>x. r = Ok x \<and> k x = Ok y)"
  by (auto simp: or_panic_def split: outcome.splits)

lemma AddFilters_Ok:
  "AddFilters fm fs acc = Ok ps \<longleftrightarrow> (\<exists>qs. ps = acc @ qs \<and> list_all2 (\<lambda>f q. ConstructPBFilter fm f = Ok q) fs qs)"
proof (induction fs arbitrary: acc)
  case (Cons f fs)
  then show ?case by (auto simp: list_all2_Cons1)
qed auto

lemma list_all2_inj:
  "(\<And>x y z. R x z \<Longrightarrow> R y z \<Longrightarrow> x = y) \<Longrightarrow> list_all2 R xs zs \<Longrightarrow> list_all2 R ys zs \<Longrightarrow> xs = ys"
  by (induction zs arbitrary: xs ys) (auto simp: list_all2_Cons2)

lemma NewCompareFilter_inj:
  "unambiguous comparator_type cm \<Longrightarrow> NewCompareFilter cm op c = Ok cf \<Longrightarrow> NewCompareFilter cm op' c' = Ok cf \<Longrightarrow>
    op = op' \<and> c = c'"
  by (auto simp: NewCompareFilter_def intro: ConstructPBComparator_inj)

lemma NewSingleColumnValueFilter_inj:
  "unambiguous comparator_type cm \<Longrightarrow> NewSingleColumnValueFilter cm fam qual op c m l = Ok sc \<Longrightarrow>
    NewSingleColumnValueFilter cm fam' qual' op' c' m' l' = Ok sc \<Longrightarrow>
    fam = fam' \<and> qual = qual' \<and> op = op' \<and> c = c' \<and> m = m' \<and> l = l'"
  by (auto simp: NewSingleColumnValueFilter_def intro: ConstructPBComparator_inj)

lemmas new_defs = NewDependentColumnFilter_def NewFamilyFilter_def
  NewQualifierFilter_def NewRowFilter_def NewValueFilter_def NewSingleColumnValueExcludeFilter_def NewWrapper_def
  NewSkipFilter_def NewWhileMatchFilter_def NewList_def AddFilters_Ok

lemma build_all_Ok: "build_all cm fm es = Ok fs \<longleftrightarrow> list_all2 (\<lambda>e f. build cm fm e = Ok f) es fs"
  by (induction es arbitrary: fs) (auto simp: list_all2_Cons1)

lemma build_Listing_inj:
  assumes "unambiguous filter_type fm" "build cm fm (Listing op es) = Ok f" "build cm fm e' = Ok f" "expr_ok e'"
  obtains es' fs where "e' = Listing op es'" "list_all2 (\<lambda>e f. build cm fm e = Ok f) es fs"
    "list_all2 (\<lambda>e f. build cm fm e = Ok f) es' fs"
proof -
  obtain fs ps where fs: "list_all2 (\<lambda>e f. build cm fm e = Ok f) es fs"
      "list_all2 (\<lambda>f q. ConstructPBFilter fm f = Ok q) fs ps" "f = FilterList op ps"
    using assms(2) by (auto simp: new_defs build_all_Ok)
  then obtain es' gs where e': "e' = Listing op es'" "list_all2 (\<lambda>e f. build cm fm e = Ok f) es' gs"
      "list_all2 (\<lambda>f q. ConstructPBFilter fm f = Ok q) gs ps"
    using assms(3,4) by (cases e') (auto simp: new_defs build_all_Ok)
  have "gs = fs" by (rule list_all2_inj [OF _ e'(3) fs(2)]) (rule ConstructPBFilter_inj [OF assms(1)])
  then show ?thesis using that e'(1,2) fs(1) by simp
qed

lemma build_inj:
  assumes "unambiguous comparator_type cm" "unambiguous filter_type fm"
  shows "build cm fm e = Ok f \<Longrightarrow> expr_ok e \<Longrightarrow> build cm fm e' = Ok f \<Longrightarrow> expr_ok e' \<Longrightarrow> e = e'"
proof (induction e arbitrary: f e')
  case (Simple x)
  then show ?case by (cases e') (auto simp: new_defs)
next
  case (Wrapping e)
  then show ?case by (cases e') (auto simp: new_defs dest: ConstructPBFilter_inj [OF assms(2)])
next
  case (Skipping e)
  then show ?case by (cases e') (auto simp: new_defs dest: ConstructPBFilter_inj [OF assms(2)])
next
  case (WhileMatching e)
  then show ?case by (cases e') (auto simp: new_defs dest: ConstructPBFilter_inj [OF assms(2)])
next
  case (Listing op es)
  from build_Listing_inj [OF assms(2) Listing.prems(1,3,4)] obtain es' fs where e': "e' = Listing op es'"
    "list_all2 (\<lambda>e f. build cm fm e = Ok f) es fs" "list_all2 (\<lambda>e f. build cm fm e = Ok f) es' fs" by blast
  then have "es = es'"
    using Listing by (intro nth_equalityI) (auto simp: list_all_length list_all2_conv_all_nth)
  then show ?case using e'(1) by simp
next
  case Compared
  then show ?case by (cases e') (auto simp: new_defs dest: NewCompareFilter_inj [OF assms(1)])
next
  case Dependent
  then show ?case by (cases e') (auto simp: new_defs dest: NewCompareFilter_inj [OF assms(1)])
next
  case OnFamily
  then show ?case by (cases e') (auto simp: new_defs dest: NewCompareFilter_inj [OF assms(1)])
next
  case OnQualifier
  then show ?case by (cases e') (auto simp: new_defs dest: NewCompareFilter_inj [OF assms(1)])
next
  case OnRow
  then show ?case by (cases e') (auto simp: new_defs dest: NewCompareFilter_inj [OF assms(1)])
next
  case OnValue
  then show ?case by (cases e') (auto simp: new_defs dest: NewCompareFilter_inj [OF assms(1)])
next
  case SingleColumn
  then show ?case by (cases e') (auto simp: new_defs dest: NewSingleColumnValueFilter_inj [OF assms(1)])
next
  case SingleColumnExclude
  then show ?case by (cases e') (auto simp: new_defs dest: NewSingleColumnValueFilter_inj [OF assms(1)])
qed

section \<open>Errors\<close>

fun comparator_ok :: "comparator \<Rightarrow> bool" where
  "comparator_ok (BitComparator op v) = BitComparatorBitwiseOp_isValid op"
| "comparator_ok c = True"

fun operator_ok :: "filter_expr \<Rightarrow> bool" where
  "operator_ok (Listing op es) = ListOperator_isValid op"
| "operator_ok e = True"

fun parts_ok :: "filter_expr \<Rightarrow> bool" where
  "parts_ok (Simple f) = True"
| "parts_ok (Compared op c) = comparator_ok c"
| "parts_ok (Dependent op c fam qual d) = comparator_ok c"
| "parts_ok (OnFamily op c) = comparator_ok c"
| "parts_ok (OnQualifier op c) = comparator_ok c"
| "parts_ok (OnRow op c) = comparator_ok c"
| "parts_ok (OnValue op c) = comparator_ok c"
| "parts_ok (SingleColumn fam qual op c m l) = comparator_ok c"
| "parts_ok (SingleColumnExclude fam qual op c m l) = comparator_ok c"
| "parts_ok (Wrapping e) = (parts_ok e \<and> operator_ok e)"
| "parts_ok (Skipping e) = (parts_ok e \<and> operator_ok e)"
| "parts_ok (WhileMatching e) = (parts_ok e \<and> operator_ok e)"
| "parts_ok (Listing op es) = list_all (\<lambda>e. parts_ok e \<and> operator_ok e) es"

fun list_invalid :: "row_filter \<Rightarrow> bool" where
  "list_invalid (FilterList op fs) = (\<not> ListOperator_isValid op)"
| "list_invalid f = False"

definition serializes :: "('m \<Rightarrow> string + bytes) \<Rightarrow> bool" where
  "serializes marshal \<longleftrightarrow> (\<forall>m. \<exists>b. marshal m = Inr b)"

lemma total_Inr: "serializes marshal \<Longrightarrow> marshal m = Inr (projr (marshal m))"
  unfolding serializes_def by (metis sum.sel(2))

lemma serialized_total:
  "serializes cm \<Longrightarrow> serialized_comparator cm n c = Ok \<lparr>pc_name = str (comparatorPath @ n), pc_serialized = projr (cm c)\<rparr>"
  "serializes fm \<Longrightarrow> serialized_filter fm n f = Ok \<lparr>pf_name = str (filterPath @ n), pf_serialized = projr (fm f)\<rparr>"
  "serializes fm \<Longrightarrow> must_marshal fm n f = Ok \<lparr>pf_name = str (filterPath @ n), pf_serialized = projr (fm f)\<rparr>"
  using total_Inr [of cm c] total_Inr [of fm f]
  by (auto simp: serialized_comparator_def serialized_filter_def must_marshal_def split: sum.split)

lemma comparator_outcome:
  "serializes cm \<Longrightarrow> comparator_ok c \<Longrightarrow> \<exists>p. ConstructPBComparator cm c = Ok p"
  "\<not> comparator_ok c \<Longrightarrow> ConstructPBComparator cm c = Err ''Invalid bitwise operator specified''"
  by (cases c; simp add: comparator_defs serialized_total)+

lemma filter_outcome:
  "serializes fm \<Longrightarrow> \<not> list_invalid f \<Longrightarrow> \<exists>p. ConstructPBFilter fm f = Ok p"
  "list_invalid f \<Longrightarrow> ConstructPBFilter fm f = Err ''invalid operator specified''"
  by (cases f; simp add: filter_defs serialized_total)+

lemma AddFilters_outcome:
  assumes "serializes fm"
  shows "(list_all (\<lambda>f. \<not> list_invalid f) fs \<longrightarrow> (\<exists>ps. AddFilters fm fs acc = Ok ps)) \<and>
    (\<not> list_all (\<lambda>f. \<not> list_invalid f) fs \<longrightarrow> (\<exists>q. AddFilters fm fs acc = Panic q))"
proof (induction fs arbitrary: acc)
  case (Cons f fs)
  show ?case
  proof (cases "list_invalid f")
    case True
    then show ?thesis by (simp add: filter_outcome or_panic_def)
  next
    case False
    obtain p where "ConstructPBFilter fm f = Ok p" using filter_outcome(1) [OF assms False] by blast
    then show ?thesis using Cons [of "acc @ [p]"] False by (simp add: or_panic_def)
  qed
qed simp

definition built :: "(string, row_filter) outcome \<Rightarrow> filter_expr \<Rightarrow> bool" where
  "built r e \<longleftrightarrow> (if parts_ok e then \<exists>f. r = Ok f \<and> (list_invalid f \<longleftrightarrow> \<not> operator_ok e) else \<exists>q. r = Panic q)"

lemma build_all_outcome:
  assumes "\<forall>e \<in> set es. built (build cm fm e) e"
  shows "if list_all parts_ok es
    then \<exists>fs. build_all cm fm es = Ok fs \<and> list_all2 (\<lambda>e f. list_invalid f \<longleftrightarrow> \<not> operator_ok e) es fs
    else \<exists>q. build_all cm fm es = Panic q"
  using assms
proof (induction es)
  case (Cons e es)
  show ?case
  proof (cases "parts_ok e")
    case True
    then obtain f where "build cm fm e = Ok f" "list_invalid f \<longleftrightarrow> \<not> operator_ok e" using Cons.prems by (auto simp: built_def)
    then show ?thesis using Cons True by (auto split: if_splits)
  next
    case False
    then show ?thesis using Cons.prems by (auto simp: built_def)
  qed
qed simp

lemma nested_outcome:
  assumes "serializes fm" "built r e" "\<And>x. \<not> list_invalid (k x)" "operator_ok e'" "parts_ok e' \<longleftrightarrow> parts_ok e \<and> operator_ok e"
  shows "built (and_then r (\<lambda>f. or_panic (ConstructPBFilter fm f) (\<lambda>x. Ok (k x)))) e'"
proof (cases "parts_ok e")
  case True
  then obtain f where f: "r = Ok f" "list_invalid f \<longleftrightarrow> \<not> operator_ok e" using assms(2) by (auto simp: built_def)
  then show ?thesis using True filter_outcome(1) [OF assms(1), of f] filter_outcome(2) [of f fm] assms
    by (cases "list_invalid f") (auto simp: built_def or_panic_def)
next
  case False
  then show ?thesis using assms(2,5) by (auto simp: built_def)
qed

lemma compared_outcome:
  "serializes cm \<Longrightarrow> if comparator_ok c then \<exists>cf. NewCompareFilter cm op c = Ok cf else \<exists>q. NewCompareFilter cm op c = Panic q"
  "serializes cm \<Longrightarrow> if comparator_ok c then \<exists>sc. NewSingleColumnValueFilter cm fam qual op c m l = Ok sc
    else \<exists>q. NewSingleColumnValueFilter cm fam qual op c m l = Panic q"
  using comparator_outcome(1) [of cm c] comparator_outcome(2) [of c cm]
  by (auto simp: NewCompareFilter_def NewSingleColumnValueFilter_def or_panic_def)

lemma list_outcome:
  assumes "serializes fm" "\<forall>e \<in> set es. built (build cm fm e) e"
  shows "built (build cm fm (Listing op es)) (Listing op es)"
proof (cases "list_all parts_ok es")
  case True
  then obtain fs where fs: "build_all cm fm es = Ok fs" "list_all2 (\<lambda>e f. list_invalid f \<longleftrightarrow> \<not> operator_ok e) es fs"
    using build_all_outcome [OF assms(2)] by auto
  have "list_all (\<lambda>e. parts_ok e \<and> operator_ok e) es \<longleftrightarrow> list_all operator_ok es"
    using True by (auto simp: list_all_iff)
  moreover have "list_all (\<lambda>f. \<not> list_invalid f) fs \<longleftrightarrow> list_all operator_ok es"
    using fs(2) by (auto simp: list_all2_conv_all_nth list_all_length)
  ultimately show ?thesis using fs(1) AddFilters_outcome [OF assms(1), of fs "[]"]
    by (auto simp: built_def NewList_def)
next
  case False
  then have "\<not> parts_ok (Listing op es)" by (auto simp: list_all_iff)
  then show ?thesis using build_all_outcome [OF assms(2)] False by (auto simp: built_def)
qed

lemma build_outcome:
  assumes "serializes cm" "serializes fm"
  shows "expr_ok e \<Longrightarrow> built (build cm fm e) e"
proof (induction e)
  case (Simple f)
  then show ?case by (cases f) (auto simp: built_def)
next
  case (Listing op es)
  then show ?case by (intro list_outcome [OF assms(2)]) (auto simp: list_all_iff)
next
  case (Wrapping e)
  then show ?case using nested_outcome [OF assms(2), of "build cm fm e" e Wrapper "Wrapping e"]
    by (simp add: NewWrapper_def [abs_def])
next
  case (Skipping e)
  then show ?case using nested_outcome [OF assms(2), of "build cm fm e" e SkipFilter "Skipping e"]
    by (simp add: NewSkipFilter_def [abs_def])
next
  case (WhileMatching e)
  then show ?case using nested_outcome [OF assms(2), of "build cm fm e" e WhileMatchFilter "WhileMatching e"]
    by (simp add: NewWhileMatchFilter_def [abs_def])
next
  case (Compared op c)
  show ?case using compared_outcome(1) [OF assms(1), of c op] by (auto simp: built_def new_defs split: if_splits)
next
  case (Dependent op c fam qual d)
  show ?case using compared_outcome(1) [OF assms(1), of c op] by (auto simp: built_def new_defs split: if_splits)
next
  case (OnFamily op c)
  show ?case using compared_outcome(1) [OF assms(1), of c op] by (auto simp: built_def new_defs split: if_splits)
next
  case (OnQualifier op c)
  show ?case using compared_outcome(1) [OF assms(1), of c op] by (auto simp: built_def new_defs split: if_splits)
next
  case (OnRow op c)
  show ?case using compared_outcome(1) [OF assms(1), of c op] by (auto simp: built_def new_defs split: if_splits)
next
  case (OnValue op c)
  show ?case using compared_outcome(1) [OF assms(1), of c op] by (auto simp: built_def new_defs split: if_splits)
next
  case (SingleColumn fam qual op c m l)
  show ?case using compared_outcome(2) [OF assms(1), of c fam qual op m l] by (auto simp: built_def new_defs split: if_splits)
next
  case (SingleColumnExclude fam qual op c m l)
  show ?case using compared_outcome(2) [OF assms(1), of c fam qual op m l] by (auto simp: built_def new_defs split: if_splits)
qed

section \<open>Properties\<close>

text \<open>
  C30. Two filters that an application builds, from whatever constructors, comparators and
  filters nested to whatever depth, have the same form in a request only when they are the
  same: HBase sees the class, every field and the nesting as they were built.
\<close>

theorem request_filter_faithful:
  assumes "request_filter cm fm e1 = Ok p" "request_filter cm fm e2 = Ok p" "expr_ok e1" "expr_ok e2"
    and "unambiguous comparator_type cm" "unambiguous filter_type fm"
  shows "e1 = e2"
proof -
  obtain f1 f2 where f: "build cm fm e1 = Ok f1" "ConstructPBFilter fm f1 = Ok p" "build cm fm e2 = Ok f2"
      "ConstructPBFilter fm f2 = Ok p"
    using assms(1,2) by (auto simp: request_filter_def)
  then have "f1 = f2" using ConstructPBFilter_inj [OF assms(6)] by blast
  then show ?thesis using build_inj [OF assms(5,6)] f assms(3,4) by blast
qed

text \<open>
  C34. When every message can be serialised, a filter is accepted exactly when the operators of
  all its lists and bit comparators are valid. An invalid operator of the outermost list is an
  error, one further inside is a panic. The operators of comparisons are not checked.
\<close>

theorem request_filter_errors:
  assumes "serializes cm" "serializes fm" "expr_ok e"
  shows "((\<exists>p. request_filter cm fm e = Ok p) \<longleftrightarrow> parts_ok e \<and> operator_ok e) \<and>
    ((\<exists>q. request_filter cm fm e = Panic q) \<longleftrightarrow> \<not> parts_ok e) \<and>
    (\<forall>err. request_filter cm fm e = Err err \<longleftrightarrow> parts_ok e \<and> \<not> operator_ok e \<and> err = ''invalid operator specified'')"
proof (cases "parts_ok e")
  case True
  then obtain f where f: "build cm fm e = Ok f" "list_invalid f \<longleftrightarrow> \<not> operator_ok e"
    using build_outcome [OF assms] by (auto simp: built_def)
  then show ?thesis using True filter_outcome(1) [OF assms(2), of f] filter_outcome(2) [of f fm]
    by (cases "list_invalid f") (auto simp: request_filter_def)
next
  case False
  then show ?thesis using build_outcome [OF assms] by (auto simp: built_def request_filter_def)
qed

definition plain_comparators :: "comparator \<Rightarrow> string + bytes" where
  "plain_comparators c = (case c of BinaryComparator v \<Rightarrow> Inr v | _ \<Rightarrow> Inl ''unsupported'')"

definition plain_filters :: "row_filter \<Rightarrow> string + bytes" where
  "plain_filters f = (case f of PrefixFilter b \<Rightarrow> Inr b | _ \<Rightarrow> Inl ''unsupported'')"

theorem request_filter_faithful_witness:
  "\<exists>p. request_filter plain_comparators plain_filters (Simple (NewPrefixFilter [1])) = Ok p \<and>
    (\<forall>b. request_filter plain_comparators plain_filters (Simple (NewPrefixFilter b)) \<noteq> Ok p \<or>
      Simple (NewPrefixFilter [1]) = Simple (NewPrefixFilter b))"
proof -
  obtain p where p: "request_filter plain_comparators plain_filters (Simple (NewPrefixFilter [1])) = Ok p"
    by (simp add: request_filter_def NewPrefixFilter_def filter_defs serialized_filter_def plain_filters_def)
  have u: "unambiguous comparator_type plain_comparators" "unambiguous filter_type plain_filters"
    by (auto simp: unambiguous_def plain_comparators_def plain_filters_def split: comparator.splits row_filter.splits)
  have "expr_ok (Simple (NewPrefixFilter b))" for b by (simp add: NewPrefixFilter_def)
  with request_filter_faithful [OF p] u p show ?thesis by blast
qed

theorem request_filter_errors_witness:
  "\<exists>q. request_filter (\<lambda>_. Inr []) (\<lambda>_. Inr []) (Skipping (Listing 3 [])) = Panic q"
proof -
  have "\<not> parts_ok (Skipping (Listing 3 []))" by (simp add: ListOperator_isValid_def)
  then show ?thesis using request_filter_errors [of "\<lambda>_. Inr []" "\<lambda>_. Inr []" "Skipping (Listing 3 [])"]
    by (simp add: serializes_def)
qed

end
