(* ===== verification/Gohbase.thy ===== *)
theory Gohbase
  imports Establish Zookeeper Row_Filters
begin

text \<open>
  What an application calls: the clients of \<^verbatim>\<open>src/client.go\<close> and \<^verbatim>\<open>src/admin_client.go\<close>. Every
  operation is built on \<^verbatim>\<open>SendRPC\<close>, which is the argument \<open>sendRPC\<close> of the operations; the locale
  \<open>rpc_client\<close> states what they rely on, and \<^verbatim>\<open>SendRPC\<close> of the model is its instance.
\<close>

section \<open>Configuration\<close>

text \<open>Sizes of queues and intervals of flushes are not negative; other durations are any \<^verbatim>\<open>int64\<close>.\<close>

record config =
  cfg_rpcQueueSize :: nat
  cfg_flushInterval :: nat
  cfg_zkRoot :: string
  cfg_zkTimeout :: int
  cfg_effectiveUser :: gostring
  cfg_regionLookupTimeout :: int
  cfg_regionReadTimeout :: int
  cfg_compressionCodec :: "codec_ops option"

type_synonym client_option = "config \<Rightarrow> (unit, config) outcome"

definition RpcQueueSize :: "nat \<Rightarrow> client_option" where
  "RpcQueueSize n c = Ok (c\<lparr>cfg_rpcQueueSize := n\<rparr>)"

definition ZookeeperRoot :: "string \<Rightarrow> client_option" where
  "ZookeeperRoot root c = Ok (c\<lparr>cfg_zkRoot := root\<rparr>)"

definition ZookeeperTimeout :: "int \<Rightarrow> client_option" where
  "ZookeeperTimeout t c = Ok (c\<lparr>cfg_zkTimeout := t\<rparr>)"

definition RegionLookupTimeout :: "int \<Rightarrow> client_option" where
  "RegionLookupTimeout t c = Ok (c\<lparr>cfg_regionLookupTimeout := t\<rparr>)"

definition RegionReadTimeout :: "int \<Rightarrow> client_option" where
  "RegionReadTimeout t c = Ok (c\<lparr>cfg_regionReadTimeout := t\<rparr>)"

definition EffectiveUser :: "gostring \<Rightarrow> client_option" where
  "EffectiveUser user c = Ok (c\<lparr>cfg_effectiveUser := user\<rparr>)"

definition FlushInterval :: "nat \<Rightarrow> client_option" where
  "FlushInterval t c = Ok (c\<lparr>cfg_flushInterval := t\<rparr>)"

definition CompressionCodec :: "(bytes \<Rightarrow> bytes) \<Rightarrow> (bytes \<Rightarrow> string + bytes) \<Rightarrow> string \<Rightarrow> client_option" where
  "CompressionCodec encode decode name c =
     and_then (compression_New encode decode name) (\<lambda>cdc. Ok (c\<lparr>cfg_compressionCodec := Some cdc\<rparr>))"

definition default_config :: config where
  "default_config = \<lparr>cfg_rpcQueueSize = 100, cfg_flushInterval = nat (20 * millisecond), cfg_zkRoot = ''/hbase'',
     cfg_zkTimeout = 30 * second, cfg_effectiveUser = str ''root'', cfg_regionLookupTimeout = 30 * second,
     cfg_regionReadTimeout = 30 * second, cfg_compressionCodec = None\<rparr>"

fun apply_options :: "client_option list \<Rightarrow> config \<Rightarrow> (unit, config) outcome" where
  "apply_options [] c = Ok c"
| "apply_options (opt # opts) c = and_then (opt c) (apply_options opts)"

text \<open>
  The \<^verbatim>\<open>nil\<close> region of a client that does not use it is a region with identity 0, which no
  other region has; \<open>p\<close> is the identity of the region that is made and \<open>tree\<close> the empty tree.
\<close>

definition nil_region :: region where
  "nil_region = NewInfo 0 0 None [] [] [] []"

definition newClient ::
  "'t \<Rightarrow> nat \<Rightarrow> string \<Rightarrow> client_option list \<Rightarrow> (unit, config \<times> zk_client \<times> 't gclient) outcome" where
  "newClient tree p zkquorum options =
     and_then (apply_options options default_config) (\<lambda>cfg.
       Ok (cfg, zk_NewClient zkquorum (cfg_zkTimeout cfg),
         \<lparr>gc_clientType = RegionClient, gc_regions = tree, gc_clients = [], gc_heap = init_heap,
          gc_metaRegionInfo = NewInfo p 0 (Some (str ''hbase'')) (str ''meta'') (str ''hbase:meta,,1'') [] [],
          gc_adminRegionInfo = nil_region, gc_closeOnce = False, gc_done = Some False, gc_started = []\<rparr>))"

definition newAdminClient ::
  "'t \<Rightarrow> nat \<Rightarrow> string \<Rightarrow> client_option list \<Rightarrow> (unit, config \<times> zk_client \<times> 't gclient) outcome" where
  "newAdminClient tree p zkquorum options =
     and_then (apply_options options default_config) (\<lambda>cfg.
       Ok (cfg, zk_NewClient zkquorum (cfg_zkTimeout cfg),
         \<lparr>gc_clientType = MasterClient, gc_regions = tree, gc_clients = [], gc_heap = init_heap,
          gc_metaRegionInfo = nil_region, gc_adminRegionInfo = NewInfo p 0 None [] [] [] [],
          gc_closeOnce = False, gc_done = None, gc_started = []\<rparr>))"

text \<open>The region client that \<^verbatim>\<open>establishRegion\<close> makes; that of the master does not compress.\<close>

definition new_region_client :: "config \<Rightarrow> 't gclient \<Rightarrow> region \<Rightarrow> string \<Rightarrow> client" where
  "new_region_client cfg G reg addr =
     NewClient addr (gc_clientType G) (cfg_rpcQueueSize cfg) (cfg_flushInterval cfg) (cfg_effectiveUser cfg)
       (if same_region_ptr reg (gc_adminRegionInfo G) then None else cfg_compressionCodec cfg)"

text \<open>
  \<^verbatim>\<open>Close\<close>; the result is the panic, if there is one, and the region clients that are closed. The
  \<^verbatim>\<open>Once\<close> counts its function as run as soon as it started, also when it panics.
\<close>

definition gohbase_Close :: "'t gclient \<Rightarrow> panic option \<times> nat list \<times> 't gclient" where
  "gohbase_Close G =
     (if gc_closeOnce G then (None, [], G)
      else
        let G1 = G\<lparr>gc_closeOnce := True\<rparr> in
        case gc_done G of
          None \<Rightarrow> (Some CloseOfNilChannel, [], G1)
        | Some True \<Rightarrow> (Some CloseOfClosedChannel, [], G1)
        | Some False \<Rightarrow>
            let closed = (if gc_clientType G = MasterClient
                  then case Client (gc_heap G) (gc_adminRegionInfo G) of None \<Rightarrow> [] | Some ac \<Rightarrow> [ac]
                  else []);
                (h, all) = crc_closeAll (gc_clients G) (gc_heap G) closed
            in (None, all, G1\<lparr>gc_done := Some True, gc_heap := h\<rparr>))"

section \<open>Operations on rows\<close>

definition client_Scan :: "scan \<Rightarrow> call_option list \<Rightarrow> scanner" where
  "client_Scan rpc opts = newScanner rpc opts"

type_synonym ('a, 's) reply_of = "(go_error \<times> 's, 'a \<times> 's) outcome option"

definition on_reply :: "('a, 's) reply_of \<Rightarrow> ('a \<Rightarrow> (go_error, 'b) outcome) \<Rightarrow> ('b, 's) reply_of" where
  "on_reply r k =
     (case r of
        None \<Rightarrow> None
      | Some (Panic p) \<Rightarrow> Some (Panic p)
      | Some (Err e) \<Rightarrow> Some (Err e)
      | Some (Ok (x, s)) \<Rightarrow>
          Some (case k x of Ok y \<Rightarrow> Ok (y, s) | Err e \<Rightarrow> Err (e, s) | Panic p \<Rightarrow> Panic p))"

type_synonym 's sender = "call \<Rightarrow> 's \<Rightarrow> (rpc_msg option, 's) reply_of"

definition get_reply :: "rpc_msg option \<Rightarrow> (go_error, local_result) outcome" where
  "get_reply pbmsg =
     (case pbmsg of
        Some (GetResponse r) \<Rightarrow> Ok (ToLocalResult (gresp_result r))
      | _ \<Rightarrow> Err (Message ''sendRPC returned not a GetResponse''))"

definition client_Get :: "'s sender \<Rightarrow> get \<Rightarrow> 's \<Rightarrow> (local_result, 's) reply_of" where
  "client_Get sendRPC g s = on_reply (sendRPC (Get g) s) get_reply"

definition mutate_reply :: "rpc_msg option \<Rightarrow> (go_error, local_result) outcome" where
  "mutate_reply pbmsg =
     (case pbmsg of
        Some (MutateResponse r) \<Rightarrow> Ok (ToLocalResult (mresp_result r))
      | _ \<Rightarrow> Err (Message ''sendRPC returned not a MutateResponse''))"

definition client_mutate :: "'s sender \<Rightarrow> mutate \<Rightarrow> 's \<Rightarrow> (local_result, 's) reply_of" where
  "client_mutate sendRPC m s = on_reply (sendRPC (Mutate m) s) mutate_reply"

definition client_Put :: "'s sender \<Rightarrow> mutate \<Rightarrow> 's \<Rightarrow> (local_result, 's) reply_of" where
  "client_Put sendRPC p s = client_mutate sendRPC p s"

definition client_Delete :: "'s sender \<Rightarrow> mutate \<Rightarrow> 's \<Rightarrow> (local_result, 's) reply_of" where
  "client_Delete sendRPC d s = client_mutate sendRPC d s"

definition client_Append :: "'s sender \<Rightarrow> mutate \<Rightarrow> 's \<Rightarrow> (local_result, 's) reply_of" where
  "client_Append sendRPC a s = client_mutate sendRPC a s"

text \<open>The \<^verbatim>\<open>int64\<close> that \<^verbatim>\<open>Increment\<close> returns has the bits of the word.\<close>

definition increment_value :: "local_result \<Rightarrow> (go_error, u64) outcome" where
  "increment_value r =
     (case lr_Cells r of
        [c] \<Rightarrow> uint64 (Value c)
      | _ \<Rightarrow> Err (Message ''increment did not return exactly one cell''))"

definition client_Increment :: "'s sender \<Rightarrow> mutate \<Rightarrow> 's \<Rightarrow> (u64, 's) reply_of" where
  "client_Increment sendRPC i s = on_reply (client_mutate sendRPC i s) increment_value"

text \<open>\<open>cmp\<close> makes the comparator of the expected value.\<close>

definition client_CheckAndPut ::
  "(bytes \<Rightarrow> (string, pb_comparator) outcome) \<Rightarrow> 's sender \<Rightarrow> mutate \<Rightarrow> gostring \<Rightarrow> gostring \<Rightarrow> bytes \<Rightarrow> 's
     \<Rightarrow> (bool, 's) reply_of" where
  "client_CheckAndPut cmp sendRPC p family qualifier expectedValue s =
     (case NewCheckAndPut cmp p family qualifier expectedValue of
        Panic q \<Rightarrow> Some (Panic q)
      | Err e \<Rightarrow> Some (Err (Message e, s))
      | Ok cas \<Rightarrow>
          on_reply (sendRPC (CheckAndPut cas) s) (\<lambda>pbmsg. case pbmsg of
             Some (MutateResponse r) \<Rightarrow>
               (case mresp_processed r of
                  None \<Rightarrow> Err (Message ''protobuf in the response didn't contain the field'')
                | Some b \<Rightarrow> Ok b)
           | _ \<Rightarrow> Err (Message ''sendRPC did not return a MutateResponse'')))"

section \<open>Operations of the master\<close>

text \<open>
  \<^verbatim>\<open>checkProcedureWithBackoff\<close>: for each poll, the identity of the call and whether the context
  ends while sleeping after it. A type assertion without a second result panics.
\<close>

fun checkProcedureWithBackoff ::
  "'s sender \<Rightarrow> nat \<Rightarrow> u64 \<Rightarrow> int \<Rightarrow> (nat \<times> bool) list \<Rightarrow> 's \<Rightarrow> (unit, 's) reply_of" where
  "checkProcedureWithBackoff sendRPC ctx procID backoff [] s = None"
| "checkProcedureWithBackoff sendRPC ctx procID backoff ((i, ctx_done) # polls) s =
     (case sendRPC (NewGetProcedureState i ctx procID) s of
        None \<Rightarrow> None
      | Some (Panic p) \<Rightarrow> Some (Panic p)
      | Some (Err e) \<Rightarrow> Some (Err e)
      | Some (Ok (pbmsg, s1)) \<Rightarrow>
          (case pbmsg of
             Some (AdminResponse (GetProcedureResultResponse state exception)) \<Rightarrow>
               (case (case state of None \<Rightarrow> PROC_NOT_FOUND | Some st \<Rightarrow> st) of
                  PROC_NOT_FOUND \<Rightarrow> Some (Err (Message ''procedure not found'', s1))
                | PROC_FINISHED \<Rightarrow>
                    (case exception of
                       None \<Rightarrow> Some (Ok ((), s1))
                     | Some fe \<Rightarrow>
                         (case GenericException fe of
                            None \<Rightarrow> Some (Err (Message ''got unexpected empty exception'', s1))
                          | Some ge \<Rightarrow>
                              Some (Err (Message (''procedure exception: '' @ ClassName ge @ '': '' @ ExMessage ge), s1))))
                | PROC_RUNNING \<Rightarrow>
                    (case sleepAndIncreaseBackoff ctx_done backoff of
                       Inl e \<Rightarrow> Some (Err (e, s1))
                     | Inr backoff' \<Rightarrow> checkProcedureWithBackoff sendRPC ctx procID backoff' polls s1))
           | _ \<Rightarrow> Some (Panic (Explicit ''interface conversion''))))"

text \<open>The operations that start a procedure: \<open>proc_id\<close> reads the response of the right type.\<close>

definition run_procedure ::
  "(admin_response \<Rightarrow> u64 option option) \<Rightarrow> string \<Rightarrow> 's sender \<Rightarrow> (nat \<times> bool) list \<Rightarrow> base \<Rightarrow> admin_call \<Rightarrow> 's
     \<Rightarrow> (unit, 's) reply_of" where
  "run_procedure proc_id err sendRPC polls b t s =
     (case sendRPC (Admin b t) s of
        None \<Rightarrow> None
      | Some (Panic p) \<Rightarrow> Some (Panic p)
      | Some (Err e) \<Rightarrow> Some (Err e)
      | Some (Ok (pbmsg, s1)) \<Rightarrow>
          (case (case pbmsg of Some (AdminResponse r) \<Rightarrow> proc_id r | _ \<Rightarrow> None) of
             None \<Rightarrow> Some (Err (Message err, s1))
           | Some pid \<Rightarrow>
               checkProcedureWithBackoff sendRPC (b_ctx b) (case pid of None \<Rightarrow> 0 | Some n \<Rightarrow> n) backoffStart polls s1))"

definition client_CreateTable ::
  "'s sender \<Rightarrow> (nat \<times> bool) list \<Rightarrow> base \<Rightarrow> create_table \<Rightarrow> 's \<Rightarrow> (unit, 's) reply_of" where
  "client_CreateTable sendRPC polls b t s =
     run_procedure (\<lambda>r. case r of CreateTableResponse pid \<Rightarrow> Some pid | _ \<Rightarrow> None)
       ''sendRPC returned not a CreateTableResponse'' sendRPC polls b (CreateTable t) s"

definition client_DeleteTable :: "'s sender \<Rightarrow> (nat \<times> bool) list \<Rightarrow> base \<Rightarrow> 's \<Rightarrow> (unit, 's) reply_of" where
  "client_DeleteTable sendRPC polls b s =
     run_procedure (\<lambda>r. case r of DeleteTableResponse pid \<Rightarrow> Some pid | _ \<Rightarrow> None)
       ''sendRPC returned not a DeleteTableResponse'' sendRPC polls b DeleteTable s"

definition client_EnableTable :: "'s sender \<Rightarrow> (nat \<times> bool) list \<Rightarrow> base \<Rightarrow> 's \<Rightarrow> (unit, 's) reply_of" where
  "client_EnableTable sendRPC polls b s =
     run_procedure (\<lambda>r. case r of EnableTableResponse pid \<Rightarrow> Some pid | _ \<Rightarrow> None)
       ''sendRPC returned not a EnableTableResponse'' sendRPC polls b EnableTable s"

definition client_DisableTable :: "'s sender \<Rightarrow> (nat \<times> bool) list \<Rightarrow> base \<Rightarrow> 's \<Rightarrow> (unit, 's) reply_of" where
  "client_DisableTable sendRPC polls b s =
     run_procedure (\<lambda>r. case r of DisableTableResponse pid \<Rightarrow> Some pid | _ \<Rightarrow> None)
       ''sendRPC returned not a DisableTableResponse'' sendRPC polls b DisableTable s"

definition expect :: "(admin_response \<Rightarrow> 'a option) \<Rightarrow> string \<Rightarrow> rpc_msg option \<Rightarrow> (go_error, 'a) outcome" where
  "expect f err pbmsg =
     (case (case pbmsg of Some (AdminResponse r) \<Rightarrow> f r | _ \<Rightarrow> None) of
        None \<Rightarrow> Err (Message err)
      | Some x \<Rightarrow> Ok x)"

definition client_ClusterStatus :: "nat \<Rightarrow> nat \<Rightarrow> 's sender \<Rightarrow> 's \<Rightarrow> (bytes option, 's) reply_of" where
  "client_ClusterStatus i background sendRPC s =
     on_reply (sendRPC (NewClusterStatus i background) s)
       (expect (\<lambda>r. case r of GetClusterStatusResponse st \<Rightarrow> Some st | _ \<Rightarrow> None)
         ''sendRPC returned not a ClusterStatusResponse'')"

definition client_CreateNamespace :: "'s sender \<Rightarrow> base \<Rightarrow> gostring \<Rightarrow> 's \<Rightarrow> (unit, 's) reply_of" where
  "client_CreateNamespace sendRPC b ns s =
     on_reply (sendRPC (Admin b (CreateNamespace ns)) s)
       (expect (\<lambda>r. case r of CreateNamespaceResponse \<Rightarrow> Some () | _ \<Rightarrow> None)
         ''sendRPC returned not a CreateTableResponse'')"

definition client_DeleteSnapshot :: "'s sender \<Rightarrow> base \<Rightarrow> snap \<Rightarrow> 's \<Rightarrow> (unit, 's) reply_of" where
  "client_DeleteSnapshot sendRPC b t s =
     on_reply (sendRPC (NewDeleteSnapshot b t) s)
       (expect (\<lambda>r. case r of DeleteSnapshotResponse \<Rightarrow> Some () | _ \<Rightarrow> None)
         ''sendPRC returned not a DeleteSnapshotResponse'')"

definition client_ListSnapshots :: "'s sender \<Rightarrow> base \<Rightarrow> 's \<Rightarrow> (bytes list, 's) reply_of" where
  "client_ListSnapshots sendRPC b s =
     on_reply (sendRPC (Admin b ListSnapshots) s)
       (expect (\<lambda>r. case r of GetCompletedSnapshotsResponse xs \<Rightarrow> Some xs | _ \<Rightarrow> None)
         ''sendPRC returned not a GetCompletedSnapshotsResponse'')"

definition client_RestoreSnapshot :: "'s sender \<Rightarrow> base \<Rightarrow> snap \<Rightarrow> 's \<Rightarrow> (unit, 's) reply_of" where
  "client_RestoreSnapshot sendRPC b t s =
     on_reply (sendRPC (NewRestoreSnapshot b t) s)
       (expect (\<lambda>r. case r of RestoreSnapshotResponse \<Rightarrow> Some () | _ \<Rightarrow> None)
         ''sendPRC returned not a RestoreSnapshotResponse'')"

definition client_ListTableNames :: "'s sender \<Rightarrow> base \<Rightarrow> list_table_names \<Rightarrow> 's \<Rightarrow> (table_name list, 's) reply_of" where
  "client_ListTableNames sendRPC b t s =
     on_reply (sendRPC (Admin b (ListTableNames t)) s)
       (expect (\<lambda>r. case r of GetTableNamesResponse xs \<Rightarrow> Some xs | _ \<Rightarrow> None)
         ''sendPRC returned not a GetTableNamesResponse'')"

definition client_SetBalancer :: "'s sender \<Rightarrow> base \<Rightarrow> bool \<Rightarrow> 's \<Rightarrow> (bool, 's) reply_of" where
  "client_SetBalancer sendRPC b on s =
     on_reply (sendRPC (Admin b (SetBalancer on)) s)
       (expect (\<lambda>r. case r of SetBalancerRunningResponse p \<Rightarrow> Some (p = Some True) | _ \<Rightarrow> None)
         ''SendPRC returned not a SetBalancerRunningResponse'')"

definition client_MoveRegion :: "'s sender \<Rightarrow> base \<Rightarrow> move_region_request \<Rightarrow> 's \<Rightarrow> (unit, 's) reply_of" where
  "client_MoveRegion sendRPC b mr s =
     on_reply (sendRPC (Admin b (MoveRegion mr)) s)
       (expect (\<lambda>r. case r of MoveRegionResponse \<Rightarrow> Some () | _ \<Rightarrow> None)
         ''SendPRC returned not a MoveRegionResponse'')"

text \<open>The loop of \<^verbatim>\<open>CreateSnapshot\<close>: what its \<^verbatim>\<open>select\<close> gets, a tick or the end of the context.\<close>

datatype snapshot_event = Tick | ContextOver

fun await_snapshot :: "'s sender \<Rightarrow> call \<Rightarrow> snapshot_event list \<Rightarrow> 's \<Rightarrow> (unit, 's) reply_of" where
  "await_snapshot sendRPC check [] s = None"
| "await_snapshot sendRPC check (ContextOver # evs) s = Some (Err (ContextEnded, s))"
| "await_snapshot sendRPC check (Tick # evs) s =
     (case sendRPC check s of
        None \<Rightarrow> None
      | Some (Panic p) \<Rightarrow> Some (Panic p)
      | Some (Err e) \<Rightarrow> Some (Err e)
      | Some (Ok (pbmsg, s1)) \<Rightarrow>
          (case pbmsg of
             Some (AdminResponse (IsSnapshotDoneResponse d)) \<Rightarrow>
               if d = Some True then Some (Ok ((), s1)) else await_snapshot sendRPC check evs s1
           | _ \<Rightarrow> Some (Err (Message ''sendPRC returned not a IsSnapshotDoneResponse'', s1))))"

definition client_CreateSnapshot :: "'s sender \<Rightarrow> snapshot_event list \<Rightarrow> base \<Rightarrow> snap \<Rightarrow> 's \<Rightarrow> (unit, 's) reply_of" where
  "client_CreateSnapshot sendRPC evs b t s =
     (case sendRPC (Admin b (Snapshot t)) s of
        None \<Rightarrow> None
      | Some (Panic p) \<Rightarrow> Some (Panic p)
      | Some (Err e) \<Rightarrow> Some (Err e)
      | Some (Ok (pbmsg, s1)) \<Rightarrow>
          (case pbmsg of
             Some (AdminResponse SnapshotResponse) \<Rightarrow> await_snapshot sendRPC (NewSnapshotDone b t) evs s1
           | _ \<Rightarrow> Some (Err (Message ''sendPRC returned not a SnapshotResponse'', s1))))"

section \<open>What the operations rely on\<close>

lemma on_reply_error:
  "on_reply r k = Some (Err (e, s')) \<Longrightarrow> r = Some (Err (e, s')) \<or> (\<exists>x. r = Some (Ok (x, s')) \<and> k x = Err e)"
  by (auto simp: on_reply_def split: option.splits outcome.splits)

lemma on_reply_Ok: "on_reply r k = Some (Ok (y, s')) \<Longrightarrow> \<exists>x. r = Some (Ok (x, s')) \<and> k x = Ok y"
  by (auto simp: on_reply_def split: option.splits outcome.splits)

lemma get_reply_Ok: "get_reply m = Ok lr \<longleftrightarrow> (\<exists>r. m = Some (GetResponse r) \<and> lr = ToLocalResult (gresp_result r))"
  by (auto simp: get_reply_def split: option.split rpc_msg.split)

lemma mutate_reply_Ok: "mutate_reply m = Ok lr \<longleftrightarrow> (\<exists>r. m = Some (MutateResponse r) \<and> lr = ToLocalResult (mresp_result r))"
  by (auto simp: mutate_reply_def split: option.split rpc_msg.split)

lemma reply_errors:
  "get_reply m = Err e \<Longrightarrow> \<exists>msg. e = Message msg" "mutate_reply m = Err e \<Longrightarrow> \<exists>msg. e = Message msg"
  by (auto simp: get_reply_def mutate_reply_def split: option.splits rpc_msg.splits)

text \<open>The errors of an operation: those of \<^verbatim>\<open>SendRPC\<close> and messages of its own.\<close>

definition operation_error :: "go_error \<Rightarrow> bool" where
  "operation_error e \<longleftrightarrow> final_error e \<or> (\<exists>msg. e = Message msg)"

text \<open>
  A procedure that runs: the master was asked for its state, and said that it is running. One that
  finished: asked once more, the master said so, without an exception.
\<close>

definition running :: "'s sender \<Rightarrow> nat \<Rightarrow> u64 \<Rightarrow> 's \<Rightarrow> 's \<Rightarrow> bool" where
  "running sendRPC ctx pid s s' \<longleftrightarrow> (\<exists>i ex. sendRPC (NewGetProcedureState i ctx pid) s =
     Some (Ok (Some (AdminResponse (GetProcedureResultResponse (Some PROC_RUNNING) ex)), s')))"

definition ran_to_end :: "'s sender \<Rightarrow> nat \<Rightarrow> u64 \<Rightarrow> 's \<Rightarrow> 's \<Rightarrow> bool" where
  "ran_to_end sendRPC ctx pid s s' \<longleftrightarrow> (\<exists>s1 i. (running sendRPC ctx pid)\<^sup>*\<^sup>* s s1 \<and>
     sendRPC (NewGetProcedureState i ctx pid) s1 =
       Some (Ok (Some (AdminResponse (GetProcedureResultResponse (Some PROC_FINISHED) None)), s')))"

text \<open>A snapshot that is not there yet.\<close>

definition pending :: "'s sender \<Rightarrow> call \<Rightarrow> 's \<Rightarrow> 's \<Rightarrow> bool" where
  "pending sendRPC check s s' \<longleftrightarrow>
     (\<exists>d. sendRPC check s = Some (Ok (Some (AdminResponse (IsSnapshotDoneResponse d)), s')) \<and> d \<noteq> Some True)"

text \<open>
  The contract of \<^verbatim>\<open>RPCClient\<close>: an error is final, and a message is one that was received.
  \<open>received\<close> is the messages received on the way from one state to another.
\<close>

locale rpc_client =
  fixes sendRPC :: "'s sender"
    and received :: "rpc_msg option \<Rightarrow> 's \<Rightarrow> 's \<Rightarrow> bool"
  assumes send_error: "sendRPC c s = Some (Err (e, s')) \<Longrightarrow> final_error e"
    and send_received: "sendRPC c s = Some (Ok (m, s')) \<Longrightarrow> received m s s'"
begin

lemma Get_result:
  assumes "client_Get sendRPC g s = Some (Ok (lr, s'))"
  shows "\<exists>r. received (Some (GetResponse r)) s s' \<and> lr = ToLocalResult (gresp_result r)"
  using on_reply_Ok [OF assms [unfolded client_Get_def]] by (auto simp: get_reply_Ok dest: send_received)

lemma mutate_result:
  assumes "client_mutate sendRPC m s = Some (Ok (lr, s'))"
  shows "\<exists>r. received (Some (MutateResponse r)) s s' \<and> lr = ToLocalResult (mresp_result r)"
  using on_reply_Ok [OF assms [unfolded client_mutate_def]] by (auto simp: mutate_reply_Ok dest: send_received)

lemma send_final: "sendRPC c s = Some (Err (e, s')) \<Longrightarrow> operation_error e"
  by (simp add: operation_error_def send_error)

lemma mutate_error: "client_mutate sendRPC m s = Some (Err (e, s')) \<Longrightarrow> operation_error e"
  unfolding client_mutate_def by (drule on_reply_error) (auto simp: operation_error_def dest: send_error reply_errors)

lemma Increment_result:
  assumes "client_Increment sendRPC m s = Some (Ok (v, s'))"
  obtains r c rest where "received (Some (MutateResponse r)) s s'" "lr_Cells (ToLocalResult (mresp_result r)) = [c]"
    "Value c = put_uint64 v @ rest"
proof -
  obtain lr where lr: "client_mutate sendRPC m s = Some (Ok (lr, s'))" "increment_value lr = Ok v"
    using on_reply_Ok [OF assms [unfolded client_Increment_def]] by blast
  obtain c where c: "lr_Cells lr = [c]" "uint64 (Value c) = (Ok v :: (go_error, u64) outcome)"
    using lr(2) by (auto simp: increment_value_def split: list.splits)
  have u: "length (take 8 (Value c)) = 8" "uint64 (take 8 (Value c)) = (Ok v :: (go_error, u64) outcome)"
    using c(2) by (auto simp: uint64_def split: if_splits)
  have "take 8 (Value c) = put_uint64 v" using put_uint64_get [OF u(1), of v] u(2) by blast
  then have "Value c = put_uint64 v @ drop 8 (Value c)" by (metis append_take_drop_id)
  then show thesis using mutate_result [OF lr(1)] c(1) that by blast
qed

text \<open>A procedure: the last answer of the master says that it finished without an exception.\<close>

lemma ran_to_end_step: "running sendRPC ctx pid s s1 \<Longrightarrow> ran_to_end sendRPC ctx pid s1 s' \<Longrightarrow> ran_to_end sendRPC ctx pid s s'"
  unfolding ran_to_end_def by (blast intro: converse_rtranclp_into_rtranclp)

lemma checkProcedure_Ok:
  "checkProcedureWithBackoff sendRPC ctx pid b polls s = Some (Ok ((), s')) \<Longrightarrow> ran_to_end sendRPC ctx pid s s'"
proof (induction polls arbitrary: b s)
  case (Cons poll polls)
  obtain i d where poll: "poll = (i, d)" by force
  obtain m s1 where m: "sendRPC (NewGetProcedureState i ctx pid) s = Some (Ok (m, s1))"
    using Cons.prems poll by (auto split: option.splits outcome.splits)
  obtain st ex where st: "m = Some (AdminResponse (GetProcedureResultResponse (Some st) ex))"
    using Cons.prems poll m by (auto split: option.splits rpc_msg.splits admin_response.splits)
  show ?case
  proof (cases st)
    case PROC_FINISHED
    then show ?thesis using Cons.prems poll m st by (auto simp: ran_to_end_def split: option.splits)
  next
    case PROC_RUNNING
    then have "ran_to_end sendRPC ctx pid s1 s'" using Cons poll m st by (auto split: sum.splits)
    then show ?thesis using m st PROC_RUNNING by (intro ran_to_end_step [of ctx pid s s1]) (auto simp: running_def)
  qed (use Cons.prems poll m st in simp)
qed simp

lemma checkProcedure_error:
  "checkProcedureWithBackoff sendRPC ctx pid b polls s = Some (Err (e, s')) \<Longrightarrow> operation_error e"
proof (induction polls arbitrary: b s)
  case (Cons poll polls)
  obtain i d where poll: "poll = (i, d)" by force
  show ?case using Cons poll
    by (auto split: option.splits outcome.splits rpc_msg.splits admin_response.splits proc_state.splits sum.splits
        dest: send_error sleep_error simp: operation_error_def final_error_def)
qed simp

lemma run_procedure_Ok:
  assumes "run_procedure f err sendRPC polls b t s = Some (Ok ((), s'))"
  shows "\<exists>resp pid s1. sendRPC (Admin b t) s = Some (Ok (Some (AdminResponse resp), s1)) \<and> f resp = Some pid \<and>
    ran_to_end sendRPC (b_ctx b) (case pid of None \<Rightarrow> 0 | Some n \<Rightarrow> n) s1 s'"
  using assms by (auto simp: run_procedure_def dest!: checkProcedure_Ok split: option.splits outcome.splits rpc_msg.splits) force+

lemma run_procedure_error:
  assumes "run_procedure f err sendRPC polls b t s = Some (Err (e, s'))"
  shows "operation_error e"
  using assms by (auto simp: run_procedure_def operation_error_def [of "Message _"] dest: checkProcedure_error send_final split: option.splits outcome.splits)


lemma await_snapshot_Ok:
  "await_snapshot sendRPC check evs s = Some (Ok ((), s')) \<Longrightarrow> \<exists>s0. (pending sendRPC check)\<^sup>*\<^sup>* s s0 \<and>
    sendRPC check s0 = Some (Ok (Some (AdminResponse (IsSnapshotDoneResponse (Some True))), s'))"
proof (induction evs arbitrary: s)
  case (Cons ev evs)
  show ?case
  proof (cases ev)
    case Tick
    then obtain d s1 where m: "sendRPC check s = Some (Ok (Some (AdminResponse (IsSnapshotDoneResponse d)), s1))"
      using Cons.prems by (auto split: option.splits outcome.splits rpc_msg.splits admin_response.splits)
    show ?thesis
    proof (cases "d = Some True")
      case False
      then have "pending sendRPC check s s1" using m by (auto simp: pending_def)
      moreover obtain s0 where "(pending sendRPC check)\<^sup>*\<^sup>* s1 s0"
          "sendRPC check s0 = Some (Ok (Some (AdminResponse (IsSnapshotDoneResponse (Some True))), s'))"
        using Cons Tick m False by auto
      ultimately show ?thesis by (blast intro: converse_rtranclp_into_rtranclp)
    qed (use Cons.prems Tick m in auto)
  qed (use Cons.prems in simp)
qed simp

lemma CreateSnapshot_Ok:
  assumes "client_CreateSnapshot sendRPC evs b t s = Some (Ok ((), s'))"
  shows "\<exists>s1 s0. sendRPC (Admin b (Snapshot t)) s = Some (Ok (Some (AdminResponse SnapshotResponse), s1)) \<and>
    (pending sendRPC (NewSnapshotDone b t))\<^sup>*\<^sup>* s1 s0 \<and>
    sendRPC (NewSnapshotDone b t) s0 = Some (Ok (Some (AdminResponse (IsSnapshotDoneResponse (Some True))), s'))"
  using assms by (auto simp: client_CreateSnapshot_def dest!: await_snapshot_Ok
      split: option.splits outcome.splits rpc_msg.splits admin_response.splits)

end

section \<open>The client as such a sender\<close>

text \<open>
  The state of an application's client: the client, and for every call it will send, the
  attempts that \<^verbatim>\<open>SendRPC\<close> makes for it.
\<close>

definition client_send ::
  "('t, 'e) tree_ops \<Rightarrow> (bytes \<Rightarrow> string + region_info) \<Rightarrow> ('t gclient \<times> 't attempt list list) sender" where
  "client_send T unmarshal rpc s =
     (case snd s of
        [] \<Rightarrow> None
      | as # rest \<Rightarrow>
          (case SendRPC T unmarshal as rpc (fst s) of
             None \<Rightarrow> None
           | Some (Panic p) \<Rightarrow> Some (Panic p)
           | Some (Err (e, G)) \<Rightarrow> Some (Err (e, (G, rest)))
           | Some (Ok (m, G)) \<Rightarrow> Some (Ok (m, (G, rest)))))"

text \<open>A region client delivered the message in the last of the attempts for the call.\<close>

definition client_received :: "rpc_msg option \<Rightarrow> 't gclient \<times> 't attempt list list \<Rightarrow> 't gclient \<times> 't attempt list list \<Rightarrow> bool" where
  "client_received m s s' \<longleftrightarrow> (\<exists>as. snd s = as # snd s' \<and> (\<exists>a \<in> set as. at_result a = Some (Inr m)))"

lemma sendRPC_Inr: "sendRPCToRegionClient res reg rc G = (Inr m, G') \<Longrightarrow> res = Some (Inr m)"
  by (auto simp: sendRPCToRegionClient_def split: option.splits sum.splits)

lemma SendRPC_loop_reply:
  "SendRPC_loop T unmarshal as b rpc G = Some (Ok (m, G')) \<Longrightarrow> \<exists>a \<in> set as. at_result a = Some (Inr m)"
proof (induction "as" arbitrary: b rpc G)
  case (Cons a as)
  obtain rc reg rpc' G1 where f: "getRegionAndClientForRPC T unmarshal (at_turns a) rpc G = Some (Ok ((rc, reg, rpc'), G1))"
    using Cons.prems by (auto split: option.splits outcome.splits)
  obtain r G2 where s: "sendRPCToRegionClient (at_result a) reg rc (at_env a G1) = (r, G2)" by force
  from s show ?case
  proof (cases rule: send_result_cases)
    case (msg m')
    then show ?thesis using Cons.prems f s sendRPC_Inr by auto
  next
    case (retryable e)
    then show ?thesis using Cons f s by (auto split: sum.splits)
  qed (use Cons f s in auto)
qed simp

interpretation gohbase: rpc_client "client_send T unmarshal" client_received
proof
  fix c s e s'
  assume "client_send T unmarshal c s = Some (Err (e, s'))"
  then show "final_error e"
    by (auto simp: client_send_def SendRPC_def dest: SendRPC_loop_errors split: list.splits option.splits outcome.splits)
next
  fix c s m s'
  assume "client_send T unmarshal c s = Some (Ok (m, s'))"
  then show "client_received m s s'"
    by (auto simp: client_send_def client_received_def SendRPC_def dest: SendRPC_loop_reply
        split: list.splits option.splits outcome.splits)
qed

section \<open>Properties\<close>

text \<open>
  What \<^verbatim>\<open>Increment\<close> returns is the number that a region server sent: the response that a
  region client delivered for this call has exactly one cell, and the value of the cell starts
  with the eight bytes of the number.
\<close>

theorem Increment_exact:
  assumes "client_Increment (client_send T unmarshal) m (G, as # rest) = Some (Ok (v, s'))"
  shows "\<exists>a r c extra. a \<in> set as \<and> at_result a = Some (Inr (Some (MutateResponse r))) \<and>
    lr_Cells (ToLocalResult (mresp_result r)) = [c] \<and> Value c = put_uint64 v @ extra \<and> snd s' = rest"
  using assms by (rule gohbase.Increment_result) (auto simp: client_received_def)

text \<open>
  C29. An operation on tables that the master carries out as a procedure succeeds only when the
  procedure did: the master answered the request of the operation with a response of its type, which
  names the procedure (0 when it has no number); asked for the state of \<^emph>\<open>this\<close> procedure
  it said that it runs, as often as it was asked, and in its last answer, after which the operation returned, that it finished
  without an exception. Every error is a final error of the call or a message about the procedure.
\<close>

theorem table_procedures_finish:
  assumes "client_CreateTable (client_send T unmarshal) polls b ct s = Some r \<and> t = CreateTable ct \<and> resp = CreateTableResponse \<or>
    client_DeleteTable (client_send T unmarshal) polls b s = Some r \<and> t = DeleteTable \<and> resp = DeleteTableResponse \<or>
    client_EnableTable (client_send T unmarshal) polls b s = Some r \<and> t = EnableTable \<and> resp = EnableTableResponse \<or>
    client_DisableTable (client_send T unmarshal) polls b s = Some r \<and> t = DisableTable \<and> resp = DisableTableResponse"
  shows "(\<forall>s'. r = Ok ((), s') \<longrightarrow> (\<exists>pid s1 s2 i. let procId = (case pid of None \<Rightarrow> 0 | Some n \<Rightarrow> n) in
      client_send T unmarshal (Admin b t) s = Some (Ok (Some (AdminResponse (resp pid)), s1)) \<and>
      (running (client_send T unmarshal) (b_ctx b) procId)\<^sup>*\<^sup>* s1 s2 \<and>
      client_send T unmarshal (NewGetProcedureState i (b_ctx b) procId) s2 =
        Some (Ok (Some (AdminResponse (GetProcedureResultResponse (Some PROC_FINISHED) None)), s')))) \<and>
    (\<forall>e s'. r = Err (e, s') \<longrightarrow> operation_error e)"
proof -
  have "\<exists>f err. run_procedure f err (client_send T unmarshal) polls b t s = Some r \<and> (\<forall>x pid. f x = Some pid \<longleftrightarrow> x = resp pid)"
    using assms unfolding client_CreateTable_def client_DeleteTable_def client_EnableTable_def client_DisableTable_def
    by (elim disjE conjE; hypsubst) (intro exI conjI, assumption, simp split: admin_response.split)+
  then obtain f err where f: "run_procedure f err (client_send T unmarshal) polls b t s = Some r"
      "\<And>x pid. f x = Some pid \<longleftrightarrow> x = resp pid" by blast
  show ?thesis
  proof (intro conjI allI impI)
    fix s' assume "r = Ok ((), s')"
    then obtain pid s1 where "client_send T unmarshal (Admin b t) s = Some (Ok (Some (AdminResponse (resp pid)), s1))"
        "ran_to_end (client_send T unmarshal) (b_ctx b) (case pid of None \<Rightarrow> 0 | Some n \<Rightarrow> n) s1 s'"
      using f(1) gohbase.run_procedure_Ok [of f err T unmarshal polls b t s s'] unfolding f(2) by blast
    then show "\<exists>pid s1 s2 i. let procId = (case pid of None \<Rightarrow> 0 | Some n \<Rightarrow> n) in
        client_send T unmarshal (Admin b t) s = Some (Ok (Some (AdminResponse (resp pid)), s1)) \<and>
        (running (client_send T unmarshal) (b_ctx b) procId)\<^sup>*\<^sup>* s1 s2 \<and>
        client_send T unmarshal (NewGetProcedureState i (b_ctx b) procId) s2 =
          Some (Ok (Some (AdminResponse (GetProcedureResultResponse (Some PROC_FINISHED) None)), s'))"
      unfolding ran_to_end_def Let_def by blast
  qed (use f(1) gohbase.run_procedure_error [of f err T unmarshal polls b t s] in blast)
qed

text \<open>
  Closing a client closes every region client it knows, each once, and the one of the
  master; every region of these clients becomes unavailable and has no client any more. Closing
  again does nothing.
\<close>

theorem gohbase_Close_once:
  assumes "gc_done G = Some False" "\<not> gc_closeOnce G"
  shows "\<exists>G'. gohbase_Close G = (None,
      (if gc_clientType G = MasterClient then case Client (gc_heap G) (gc_adminRegionInfo G) of None \<Rightarrow> [] | Some ac \<Rightarrow> [ac] else []) @
        map (cl_ptr \<circ> fst) (gc_clients G), G') \<and>
    gohbase_Close G' = (None, [], G') \<and>
    (\<forall>r. (\<exists>e \<in> set (gc_clients G). known r (snd e)) \<longrightarrow> IsUnavailable (gc_heap G') r \<and> Client (gc_heap G') r = None)"
proof -
  let ?c = "if gc_clientType G = MasterClient then case Client (gc_heap G) (gc_adminRegionInfo G) of None \<Rightarrow> [] | Some ac \<Rightarrow> [ac] else []"
  obtain h all where a: "crc_closeAll (gc_clients G) (gc_heap G) ?c = (h, all)" by force
  let ?G = "G\<lparr>gc_closeOnce := True, gc_done := Some True, gc_heap := h\<rparr>"
  have "gohbase_Close G = (None, all, ?G)" using assms a by (simp add: gohbase_Close_def Let_def)
  moreover have "gohbase_Close ?G = (None, [], ?G)" by (simp add: gohbase_Close_def)
  moreover have "IsUnavailable h r \<and> Client h r = None" if "e \<in> set (gc_clients G)" "known r (snd e)" for r e
    using crc_closeAll_heap [OF a] that
    by (auto simp: Client_def IsUnavailable_def ptr_unavailable_def state_of_def known_iff)
  ultimately show ?thesis using crc_closeAll_heap(1) [OF a] by (intro exI [of _ ?G]) auto
qed

text \<open>Calls of a client of the master whose connection is in place.\<close>

lemma master_answers:
  assumes "call_base c = admin_base i ctx table"
  shows "client_send list_tree (\<lambda>_. Inl []) c (master_client, [sample_attempt (Some (Inr m))] # rest) =
    Some (Ok (m, (master_client, rest)))"
  using assms
  by (simp add: client_send_def SendRPC_def sample_attempt_def sample_lookup_def getRegionForRpc_def maxFindRegionTries_def
      numeral_eq_Suc getRegionFromCache_def client_of_region_def wait_available_def master_client_def sample_gclient_def
      sendRPCToRegionClient_def admin_base_def init_heap_def new_region_state_def NewInfo_def region_heap_defs)

definition sample_increment :: mutate where
  "sample_increment = \<lparr>m_base = admin_base 0 0 [], mutationType = INCREMENT, m_values = [], ttl = [], m_timestamp = 0,
     m_durability = UseDefault, deleteOneVersion = False, m_skipbatch = False\<rparr>"

definition sample_counter :: mutate_response where
  "sample_counter = \<lparr>mresp_result = Some \<lparr>Cell = [\<lparr>Row = [], Family = [], Qualifier = [], Timestamp = None,
     CellType = None, Value = put_uint64 7\<rparr>], AssociatedCellCount = None, Exists = None, Stale = None, Partial = None\<rparr>,
     mresp_processed = None\<rparr>"

theorem Increment_exact_witness:
  "\<exists>s' a r c extra. client_Increment (client_send list_tree (\<lambda>_. Inl [])) sample_increment
      (master_client, [sample_attempt (Some (Inr (Some (MutateResponse sample_counter))))] # []) = Some (Ok (7, s')) \<and>
    a \<in> set [sample_attempt (Some (Inr (Some (MutateResponse sample_counter))))] \<and> at_result a = Some (Inr (Some (MutateResponse r))) \<and> lr_Cells (ToLocalResult (mresp_result r)) = [c] \<and>
    Value c = put_uint64 7 @ extra"
proof -
  have "client_send list_tree (\<lambda>_. Inl []) (Mutate sample_increment)
      (master_client, [sample_attempt (Some (Inr (Some (MutateResponse sample_counter))))] # []) =
    Some (Ok (Some (MutateResponse sample_counter), (master_client, [])))"
    by (rule master_answers) (simp add: sample_increment_def)
  then have "client_Increment (client_send list_tree (\<lambda>_. Inl [])) sample_increment
      (master_client, [sample_attempt (Some (Inr (Some (MutateResponse sample_counter))))] # []) = Some (Ok (7, (master_client, [])))"
    by (simp add: client_Increment_def client_mutate_def on_reply_def mutate_reply_def sample_counter_def ToLocalResult_def
        toLocalCells_def increment_value_def)
  from Increment_exact [OF this] this show ?thesis by blast
qed

definition finished :: "rpc_msg option" where
  "finished = Some (AdminResponse (GetProcedureResultResponse (Some PROC_FINISHED) None))"

theorem table_procedures_finish_witness:
  "\<exists>s'. client_DeleteTable (client_send list_tree (\<lambda>_. Inl [])) [(1, False)] (admin_base 0 0 [])
      (master_client, [[sample_attempt (Some (Inr (Some (AdminResponse (DeleteTableResponse (Some 4))))))],
        [sample_attempt (Some (Inr finished))]]) = Some (Ok ((), s')) \<and>
    (\<exists>pid s1 s2 i. let procId = (case pid of None \<Rightarrow> 0 | Some n \<Rightarrow> n) in
      client_send list_tree (\<lambda>_. Inl []) (Admin (admin_base 0 0 []) DeleteTable)
        (master_client, [[sample_attempt (Some (Inr (Some (AdminResponse (DeleteTableResponse (Some 4))))))],
          [sample_attempt (Some (Inr finished))]]) = Some (Ok (Some (AdminResponse (DeleteTableResponse pid)), s1)) \<and>
      (running (client_send list_tree (\<lambda>_. Inl [])) 0 procId)\<^sup>*\<^sup>* s1 s2 \<and>
      client_send list_tree (\<lambda>_. Inl []) (NewGetProcedureState i 0 procId) s2 = Some (Ok (finished, s')))"
proof -
  let ?send = "client_send list_tree (\<lambda>_. Inl [])" and ?r = "Some (AdminResponse (DeleteTableResponse (Some 4)))"
  have "?send (Admin (admin_base 0 0 []) DeleteTable) (master_client, [[sample_attempt (Some (Inr ?r))],
      [sample_attempt (Some (Inr finished))]]) = Some (Ok (?r, (master_client, [[sample_attempt (Some (Inr finished))]])))"
    by (rule master_answers) simp
  moreover have "?send (NewGetProcedureState 1 0 4) (master_client, [[sample_attempt (Some (Inr finished))]]) =
      Some (Ok (finished, (master_client, [])))"
    by (rule master_answers) (simp add: NewGetProcedureState_def)
  ultimately have r: "client_DeleteTable ?send [(1, False)] (admin_base 0 0 []) (master_client, [[sample_attempt (Some (Inr ?r))],
      [sample_attempt (Some (Inr finished))]]) = Some (Ok ((), (master_client, [])))"
    by (simp add: client_DeleteTable_def run_procedure_def admin_base_def finished_def)
  have c: "b_ctx (admin_base 0 0 []) = 0" by (simp add: admin_base_def)
  from table_procedures_finish [OF disjI2, OF disjI1, OF conjI [OF r conjI [OF refl refl]]] r
  show ?thesis unfolding c finished_def by blast
qed

theorem gohbase_Close_once_witness:
  "\<exists>G'. gohbase_Close sample_gclient = (None, [1, 2], G') \<and> gohbase_Close G' = (None, [], G') \<and>
     IsUnavailable (gc_heap G') sample_left \<and> Client (gc_heap G') sample_left = None"
proof -
  have m: "gc_done sample_gclient = Some False" "\<not> gc_closeOnce sample_gclient" "gc_clientType sample_gclient = RegionClient"
    "gc_clients sample_gclient = sample_clients"
    by (simp_all add: sample_gclient_def)
  have k: "\<exists>e \<in> set sample_clients. known sample_left (snd e)" by (simp add: sample_clients_def known_iff)
  from gohbase_Close_once [OF m(1,2)] k show ?thesis unfolding m by (auto simp: sample_clients_def)
qed

end
