(* ===== verification/Client_State.thy ===== *)
theory Client_State
  imports Gohbase
begin

text \<open>
  The state of a client as a whole. Its goroutines change it through a few operations on the
  cache of regions, the cache of clients and the regions; between two of them any other
  goroutine may act. Here is what holds in every state that a client reaches this way, and that
  the code of \<^verbatim>\<open>src/rpc.go\<close> and \<^verbatim>\<open>src/client.go\<close> consists of these operations.
\<close>

section \<open>Steps of a client\<close>

inductive client_step :: "('t, 'e) tree_ops \<Rightarrow> 't gclient \<Rightarrow> 't gclient \<Rightarrow> bool" for T :: "('t, 'e) tree_ops" where
  region: "region_step (gc_heap G) h \<Longrightarrow> client_step T G (G\<lparr>gc_heap := h\<rparr>)"
| put: "put_region T reg G = Ok (v, G') \<Longrightarrow> wf_region reg \<Longrightarrow> client_step T G G'"
| del: "krc_del T reg (gc_regions G) (gc_heap G) = (b, t, h) \<Longrightarrow> wf_region reg \<Longrightarrow>
    client_step T G (G\<lparr>gc_regions := t, gc_heap := h\<rparr>)"
| put_client: "crc_put addr r new (gc_clients G) = (c, rcc) \<Longrightarrow> cl_addr new = addr \<Longrightarrow>
    client_step T G (G\<lparr>gc_clients := rcc\<rparr>)"
| del_client: "crc_del r (gc_clients G) (gc_heap G) = (rcc, h) \<Longrightarrow>
    client_step T G (G\<lparr>gc_clients := rcc, gc_heap := h\<rparr>)"
| client_down: "crc_clientDown cl (gc_clients G) = (rs, rcc) \<Longrightarrow> client_step T G (G\<lparr>gc_clients := rcc\<rparr>)"
| start: "client_step T G (start_goroutine g G)"
| shut: "gc_done G = Some False \<Longrightarrow> client_step T G (G\<lparr>gc_closeOnce := True, gc_done := Some True\<rparr>)"
| once: "gc_done G \<noteq> Some False \<Longrightarrow> client_step T G (G\<lparr>gc_closeOnce := True\<rparr>)"

abbreviation client_steps :: "('t, 'e) tree_ops \<Rightarrow> 't gclient \<Rightarrow> 't gclient \<Rightarrow> bool" where
  "client_steps T \<equiv> (client_step T)\<^sup>*\<^sup>*"

definition state_ok :: "('t \<Rightarrow> bool) \<Rightarrow> ('t \<Rightarrow> entry list) \<Rightarrow> 't gclient \<Rightarrow> bool" where
  "state_ok tinv entries G \<longleftrightarrow> tinv (gc_regions G) \<and> cache_inv (entries (gc_regions G)) \<and>
     crc_inv (gc_clients G) \<and> heap_inv (gc_heap G) \<and>
     (gc_clientType G \<noteq> MasterClient \<longrightarrow> wf_region (gc_metaRegionInfo G))"

text \<open>What kind of client it is and its own regions never change, and a \<^verbatim>\<open>nil\<close> channel stays \<^verbatim>\<open>nil\<close>.\<close>

definition same_client :: "'t gclient \<Rightarrow> 't gclient \<Rightarrow> bool" where
  "same_client G0 G \<longleftrightarrow> gc_clientType G = gc_clientType G0 \<and> gc_metaRegionInfo G = gc_metaRegionInfo G0 \<and>
     gc_adminRegionInfo G = gc_adminRegionInfo G0 \<and> (gc_done G = None \<longleftrightarrow> gc_done G0 = None)"

lemma client_step_same: "client_step T G G' \<Longrightarrow> same_client G0 G \<Longrightarrow> same_client G0 G'"
  by (induction rule: client_step.induct) (auto simp: same_client_def put_region_def start_goroutine_def)

interpretation same: step_invariant "client_step T" "same_client G0" for T G0
  by unfold_locales (rule client_step_same)

lemma client_steps_same: "client_steps T G G' \<Longrightarrow> same_client G G'"
  by (rule same.run_inv) (simp_all add: same_client_def)

lemma crc_del_inv: "crc_inv rcc \<Longrightarrow> crc_del r rcc h = (rcc', h') \<Longrightarrow> crc_inv rcc'"
  by (auto simp: crc_del_def crc_inv_def comp_def if_distrib [of fst] split: option.splits cong: if_cong)
    (force intro: distinct_map_filter)+

lemma crc_clientDown_inv: "crc_inv rcc \<Longrightarrow> crc_clientDown c rcc = (rs, rcc') \<Longrightarrow> crc_inv rcc'"
  by (auto simp: crc_clientDown_def crc_inv_def distinct_map_filter)

lemma crc_del_heap: "crc_del r rcc h = (rcc', h') \<Longrightarrow> region_step\<^sup>*\<^sup>* h h'"
  by (auto simp: crc_del_def split: option.splits intro: region_step.set_client)

context btree
begin

lemma put_region_ok:
  assumes "put_region T reg G = Ok (v, G')" "wf_region reg" "state_ok tinv entries G"
  shows "state_ok tinv entries G'"
proof -
  have inv: "tinv (gc_regions G)" "cache_inv (entries (gc_regions G))" using assms(3) by (simp_all add: state_ok_def)
  have h: "heap_inv (gc_heap G')"
    using heap.run_inv put_region_steps [OF assms(1)] assms(3) unfolding steps_def state_ok_def by blast
  have same: "gc_clientType G' = gc_clientType G" "gc_metaRegionInfo G' = gc_metaRegionInfo G"
    using assms(1) by (auto simp: put_region_def)
  have "tinv (gc_regions G') \<and> cache_inv (entries (gc_regions G')) \<and> gc_clients G' = gc_clients G"
  proof (cases "map_of (entries (gc_regions G)) (ri_name reg)")
    case None
    then have new: "ri_name reg \<notin> fst ` set (entries (gc_regions G))" by (simp add: map_of_eq_None_iff)
    show ?thesis
      by (rule krc_put_new [OF inv assms(2) new refl refl, of "gc_heap G"])
        (use assms(1,2) inv new in \<open>auto simp: put_region_def cache_inv_replace_overlaps\<close>)
  next
    case (Some x)
    show ?thesis
      by (rule krc_put_stored [OF inv(1) assms(2) Some, of "gc_heap G"]) (use assms(1) inv in \<open>auto simp: put_region_def\<close>)
  qed
  then show ?thesis using h same assms(3) by (simp add: state_ok_def)
qed

lemma client_step_ok: "client_step T G G' \<Longrightarrow> state_ok tinv entries G \<Longrightarrow> state_ok tinv entries G'"
proof (induction rule: client_step.induct)
  case (put reg G v G')
  then show ?case by (rule put_region_ok)
next
  case (del reg G b t h)
  then have inv: "tinv (gc_regions G)" "cache_inv (entries (gc_regions G))" by (simp_all add: state_ok_def)
  show ?case
    by (rule krc_del_entries [OF inv(1) del(2), of "gc_heap G"])
      (use del inv in \<open>auto simp: state_ok_def heap_inv_MarkDead cache_inv_delete_key\<close>)
next
  case (put_client addr r new G c rcc)
  then show ?case using crc_put_inv [of "gc_clients G" new addr r] by (simp add: state_ok_def)
next
  case (del_client r G rcc h)
  then show ?case using crc_del_inv heap.run_inv [OF crc_del_heap] by (auto simp: state_ok_def)
qed (auto simp: state_ok_def start_goroutine_def dest: region_step_inv crc_clientDown_inv)

end

text \<open>Whatever tree the cache of regions is, the client built on it keeps its invariant.\<close>

sublocale btree < client: step_invariant "client_step T" "state_ok tinv entries"
  by unfold_locales (rule client_step_ok)

context btree
begin

lemmas client_steps_ok = client.run_inv

end

section \<open>The code consists of steps\<close>

lemma heap_steps: "region_step\<^sup>*\<^sup>* (gc_heap G) h \<Longrightarrow> client_steps T G (G\<lparr>gc_heap := h\<rparr>)"
proof (induction rule: rtranclp_induct)
  case (step h h')
  then have "client_step T (G\<lparr>gc_heap := h\<rparr>) (G\<lparr>gc_heap := h\<rparr>\<lparr>gc_heap := h'\<rparr>)" by (intro client_step.region) simp
  then show ?case using step.IH by simp
qed simp

lemma fold_steps: "(\<And>x G. client_steps T G (f x G)) \<Longrightarrow> client_steps T G (fold f xs G)"
  by (induction xs arbitrary: G) (auto intro: rtranclp_trans)

lemma mark_steps: "client_steps T G (G\<lparr>gc_heap := snd (MarkUnavailable r (gc_heap G))\<rparr>)"
  by (intro heap_steps r_into_rtranclp region_step.mark_unavailable [OF prod.collapse [symmetric]])

lemma reestablish_steps:
  assumes "\<And>h. region_step\<^sup>*\<^sup>* h (f h)"
  shows "client_steps T G (mark_and_reestablish f reg G)"
proof (cases "MarkUnavailable reg (gc_heap G)")
  case (Pair created h)
  have "region_step (gc_heap G) h" using Pair by (rule region_step.mark_unavailable)
  then have "region_step\<^sup>*\<^sup>* (gc_heap G) h" "region_step\<^sup>*\<^sup>* (gc_heap G) (f h)"
    using assms by (auto intro: converse_rtranclp_into_rtranclp)
  then have "client_steps T G (G\<lparr>gc_heap := h\<rparr>)" "client_steps T G (G\<lparr>gc_heap := f h\<rparr>)"
    by (auto intro: heap_steps)
  moreover have "client_step T (G\<lparr>gc_heap := f h\<rparr>) (start_goroutine (Reestablish reg) (G\<lparr>gc_heap := f h\<rparr>))"
    by (rule client_step.start)
  ultimately show ?thesis using Pair by (auto simp: mark_and_reestablish_def intro: rtranclp.rtrancl_into_rtrancl)
qed

lemma drop_client_steps: "client_steps T G (drop_client reg G)"
  unfolding drop_client_def by (rule reestablish_steps) (auto intro: region_step.set_client)

lemma clientDown_steps: "client_steps T G (clientDown cl reg G)"
proof -
  obtain rs rcc where c: "crc_clientDown cl (gc_clients G) = (rs, rcc)" by force
  have "client_step T G (G\<lparr>gc_clients := rcc\<rparr>)" using c by (rule client_step.client_down)
  moreover have "client_steps T (G\<lparr>gc_clients := rcc\<rparr>) (clientDown cl reg G)"
    unfolding clientDown_fold c fst_conv snd_conv by (rule fold_steps) (rule drop_client_steps)
  ultimately show ?thesis by (rule converse_rtranclp_into_rtranclp)
qed

lemma handleResultError_steps: "client_steps T G (handleResultError err reg rc G)"
  by (auto simp: handleResultError_def intro: reestablish_steps clientDown_steps split: rpc_error.split)

lemma del_clients_are_steps: "client_steps T G (del_clients rs G)"
proof -
  have "client_steps T G (G\<lparr>gc_clients := fst p, gc_heap := snd p\<rparr>)"
    if "p = fold (\<lambda>r (rcc, h). crc_del r rcc h) rs (gc_clients G, gc_heap G)" for p
    using that
  proof (induction rs arbitrary: G)
    case (Cons r rs)
    obtain rcc h where c: "crc_del r (gc_clients G) (gc_heap G) = (rcc, h)" by force
    have "client_step T G (G\<lparr>gc_clients := rcc, gc_heap := h\<rparr>)" using c by (rule client_step.del_client)
    then show ?case using Cons.IH [of "G\<lparr>gc_clients := rcc, gc_heap := h\<rparr>"] Cons.prems c
      by (auto intro: converse_rtranclp_into_rtranclp)
  qed simp
  then show ?thesis by (simp add: del_clients_def split_beta)
qed

lemma closeAll_heap: "crc_closeAll rcc h cs = (h', all') \<Longrightarrow> region_step\<^sup>*\<^sup>* h h'"
proof (induction rcc h cs rule: crc_closeAll.induct)
  case (2 client rs rcc h cs)
  have one: "region_step\<^sup>*\<^sup>* g (release_region r g)" for r g
  proof -
    have "region_step g (snd (MarkUnavailable r g))" by (rule region_step.mark_unavailable [OF prod.collapse [symmetric]])
    moreover have "region_step (snd (MarkUnavailable r g)) (release_region r g)"
      unfolding release_region_def by (rule region_step.set_client [OF refl])
    ultimately show ?thesis by (auto intro: converse_rtranclp_into_rtranclp)
  qed
  have "region_step\<^sup>*\<^sup>* g (fold release_region rs g)" for g
    by (induction rs arbitrary: g) (auto intro: one rtranclp_trans)
  then show ?case using 2 by (auto intro: rtranclp_trans)
qed simp

lemma Close_steps:
  assumes "gohbase_Close G = (p, cs, G')"
  shows "client_steps T G G'"
proof (cases "gc_done G = Some False \<and> \<not> gc_closeOnce G")
  case True
  let ?cs = "if gc_clientType G = MasterClient then case Client (gc_heap G) (gc_adminRegionInfo G) of None \<Rightarrow> [] | Some ac \<Rightarrow> [ac] else []"
  let ?G1 = "G\<lparr>gc_closeOnce := True, gc_done := Some True\<rparr>"
  obtain h all where c: "crc_closeAll (gc_clients G) (gc_heap G) ?cs = (h, all)" by force
  then have close: "G' = ?G1\<lparr>gc_heap := h\<rparr>"
    using assms True by (simp add: gohbase_Close_def Let_def)
  have "client_step T G ?G1" using True by (intro client_step.shut) simp
  moreover have "client_steps T ?G1 (?G1\<lparr>gc_heap := h\<rparr>)"
    using heap_steps [of ?G1 h T] closeAll_heap [OF c] by simp
  ultimately show ?thesis using close by (auto intro: converse_rtranclp_into_rtranclp)
next
  case False
  then have "G' = G \<or> gc_done G \<noteq> Some False \<and> G' = G\<lparr>gc_closeOnce := True\<rparr>"
    using assms by (cases "gc_closeOnce G"; cases "gc_done G") (auto simp: gohbase_Close_def Let_def split: bool.splits)
  then show ?thesis using client_step.once [of G T] by auto
qed

section \<open>Finding a region\<close>

text \<open>The rows of \<^verbatim>\<open>hbase:meta\<close> that a lookup reads describe well-formed regions.\<close>

definition meta_ok :: "(bytes \<Rightarrow> string + region_info) \<Rightarrow> lookup_try list \<Rightarrow> bool" where
  "meta_ok unmarshal tries \<longleftrightarrow> (\<forall>t \<in> set tries. \<forall>table key reg addr.
     metaLookup unmarshal (lt_ptr t) (lt_timeout t) table key (lt_replies t) = Some (Ok (reg, addr)) \<longrightarrow> wf_region reg)"

text \<open>A region the client may have in its hands: the client of the master has one only.\<close>

definition client_region :: "'t gclient \<Rightarrow> region \<Rightarrow> bool" where
  "client_region G reg \<longleftrightarrow> (if gc_clientType G = MasterClient then reg = gc_adminRegionInfo G else wf_region reg)"

lemma client_region_same: "same_client G G' \<Longrightarrow> client_region G' reg = client_region G reg"
  by (simp add: client_region_def same_client_def)

lemma lookupRegion_ok:
  assumes "lookupRegion unmarshal G table key b tries = Some (Ok (reg, addr))" "meta_ok unmarshal tries"
    "gc_clientType G \<noteq> MasterClient \<longrightarrow> wf_region (gc_metaRegionInfo G)"
  shows "client_region G reg"
  using assms
proof (induction tries arbitrary: b)
  case (Cons t ts)
  have "client_region G reg" if "lookup_once unmarshal G table key t = Some (Ok (reg, addr))"
    using that Cons.prems(2,3) by (auto simp: lookup_once_def client_region_def meta_ok_def split: if_splits sum.splits)
  moreover have "meta_ok unmarshal ts" using Cons.prems(2) by (simp add: meta_ok_def)
  ultimately show ?case using Cons.IH Cons.prems(1,3)
    by (auto split: option.splits outcome.splits if_splits sum.splits)
qed simp

lemma lookupRegion_not_found:
  "lookupRegion unmarshal G table key b tries = Some (Err TableNotFound) \<Longrightarrow> gc_clientType G \<noteq> MasterClient"
proof (induction tries arbitrary: b)
  case (Cons t ts)
  then show ?case
    by (auto simp: meta_lookup_final_def sleepAndIncreaseBackoff_def split: option.splits outcome.splits if_splits sum.splits)
qed simp

lemma found_region_steps:
  assumes "found_region T reg addr G = Ok (r, G')" "client_region G reg"
  shows "client_steps T G G'"
proof -
  let ?G1 = "G\<lparr>gc_heap := snd (MarkUnavailable reg (gc_heap G))\<rparr>"
  show ?thesis
  proof (cases "same_region_ptr reg (gc_metaRegionInfo G) \<or> same_region_ptr reg (gc_adminRegionInfo G)")
    case True
    then have "G' = start_goroutine (Establish reg (to_string addr)) ?G1" using assms(1) by (simp add: found_region_def Let_def)
    then show ?thesis using mark_steps [of T G reg] client_step.start by (metis rtranclp.rtrancl_into_rtrancl)
  next
    case False
    then obtain ovs replaced G2 where p: "put_region T reg ?G1 = Ok ((ovs, replaced), G2)"
        "G' = (if replaced then start_goroutine (Establish reg (to_string addr)) (del_clients ovs G2) else G2)"
    proof -
      obtain v G2 where p: "put_region T reg ?G1 = Ok (v, G2)"
        using assms(1) False by (auto simp: found_region_def Let_def)
      then show thesis using assms(1) False that [of "fst v" "snd v" G2]
        by (auto simp: found_region_def Let_def split_beta split: if_splits)
    qed
    have "wf_region reg" using assms(2) False by (auto simp: client_region_def same_region_ptr_def split: if_splits)
    then have "client_step T ?G1 G2" using p(1) client_step.put by blast
    then have "client_steps T G G2" using mark_steps [of T G reg] by (rule rtranclp.rtrancl_into_rtrancl [rotated])
    moreover have "client_steps T G2 (start_goroutine g (del_clients ovs G2))" for g
      using del_clients_are_steps client_step.start by (rule rtranclp.rtrancl_into_rtrancl)
    ultimately show ?thesis using p(2) by (auto intro: rtranclp_trans)
  qed
qed

lemma findRegion_steps:
  assumes "findRegion T unmarshal table key tries env G = Some (Ok (r, G'))" "meta_ok unmarshal tries"
    "gc_clientType G \<noteq> MasterClient \<longrightarrow> wf_region (gc_metaRegionInfo G)" "client_steps T G (env G)"
  shows "client_steps T G G'"
  using assms(1)
proof (rule findRegion_cases)
  fix reg addr
  assume l: "lookupRegion unmarshal G table key backoffStart tries = Some (Ok (reg, addr))"
    and f: "found_region T reg addr (env G) = Ok (r, G')"
  have "client_region G reg" using l assms(2,3) by (rule lookupRegion_ok)
  then have "client_region (env G) reg" using client_region_same [OF client_steps_same [OF assms(4)]] by blast
  then show ?thesis using found_region_steps [OF f] assms(4) by (meson rtranclp_trans)
qed

lemma findRegion_failed_steps:
  assumes "findRegion T unmarshal table key tries env G = Some (Err (e, G'))" "client_steps T G (env G)"
  shows "client_steps T G G'"
  using assms by (auto simp: findRegion_def split: option.splits outcome.splits prod.splits unit.splits)

section \<open>Establishing a region\<close>

definition acts :: "('t, 'e) tree_ops \<Rightarrow> 't est_turn \<Rightarrow> bool" where
  "acts T t \<longleftrightarrow> (\<forall>G. client_steps T G (et_sleep_env t G) \<and> client_steps T G (et_lookup_env t G) \<and>
     client_steps T G (et_dial_env t G) \<and> client_steps T G (et_probe_env t G))"

definition ends_in :: "('t gclient \<Rightarrow> bool) \<Rightarrow> 't est_result \<Rightarrow> bool" where
  "ends_in P R \<longleftrightarrow> (case R of EstDone G \<Rightarrow> P G | EstClosed G \<Rightarrow> P G | EstNext reg b G \<Rightarrow> P G | _ \<Rightarrow> True)"

lemma est_available_steps:
  assumes "\<And>G'. client_steps T G G' \<Longrightarrow> ends_in (client_steps T G0) (k G')"
  shows "ends_in (client_steps T G0) (est_available reg G k)"
proof (cases "MarkAvailable reg (gc_heap G) :: (unit, region_heap) outcome")
  case (Ok h)
  have "client_step T G (G\<lparr>gc_heap := h\<rparr>)" using region_step.mark_available [OF Ok] by (rule client_step.region)
  then show ?thesis using assms [OF r_into_rtranclp] Ok by (simp add: est_available_def)
qed (auto simp: est_available_def ends_in_def split: unit.splits)

lemma est_done_steps: "client_steps T G0 G \<Longrightarrow> ends_in (client_steps T G0) (est_available reg G EstDone)"
  by (rule est_available_steps) (auto simp: ends_in_def intro: rtranclp_trans)

lemma set_client_steps': "client_steps T G (set_client reg cl G)"
  unfolding set_client_def by (rule heap_steps) (auto intro: region_step.set_client)

lemma connect_region_steps:
  assumes "client_steps T G0 G" "acts T t"
  shows "ends_in (client_steps T G0) (connect_region t reg addr b G)"
proof -
  obtain cl G1 where c: "(if same_region_ptr reg (gc_adminRegionInfo G) then (et_client t, G)
    else case crc_put addr reg \<lparr>cl_ptr = et_client t, cl_addr = addr\<rparr> (gc_clients G) of (c, rcc) \<Rightarrow> (cl_ptr c, G\<lparr>gc_clients := rcc\<rparr>)) = (cl, G1)"
    by force
  have "client_steps T G G1"
  proof (cases "same_region_ptr reg (gc_adminRegionInfo G)")
    case False
    then obtain c0 rcc where "crc_put addr reg \<lparr>cl_ptr = et_client t, cl_addr = addr\<rparr> (gc_clients G) = (c0, rcc)"
        "G1 = G\<lparr>gc_clients := rcc\<rparr>" using c by (auto split: prod.splits)
    then show ?thesis using client_step.put_client [of addr reg "\<lparr>cl_ptr = et_client t, cl_addr = addr\<rparr>" G c0 rcc T] by simp
  qed (use c in simp)
  then have s1: "client_steps T G0 G1" using assms(1) by (rule rtranclp_trans [rotated])
  then have s2: "client_steps T G0 (et_dial_env t G1)" using assms(2) by (auto simp: acts_def intro: rtranclp_trans)
  then have s3: "client_steps T G0 (et_probe_env t (et_dial_env t G1))" using assms(2) by (auto simp: acts_def intro: rtranclp_trans)
  note set = rtranclp_trans [OF s2 set_client_steps', of reg cl] rtranclp_trans [OF s3 set_client_steps', of reg cl]
    and down = rtranclp_trans [OF s2 clientDown_steps, of cl reg] rtranclp_trans [OF s3 clientDown_steps, of cl reg]
  show ?thesis using est_done_steps [OF s2] est_done_steps [OF set(1)] est_done_steps [OF set(2)] down s3
    unfolding connect_region_def Let_def c by (auto simp: ends_in_def split: dial_result.split option.split)
qed

lemma switch_region_steps:
  assumes "client_steps T G0 G" "wf_region reg'" "\<And>G'. client_steps T G0 G' \<Longrightarrow> ends_in (client_steps T G0) (k G')"
  shows "ends_in (client_steps T G0) (switch_region T reg reg' G k)"
proof -
  let ?G = "G\<lparr>gc_heap := snd (MarkUnavailable reg' (gc_heap G))\<rparr>"
  have s: "client_steps T G0 ?G" using assms(1) mark_steps by (rule rtranclp_trans)
  show ?thesis
  proof (cases "put_region T reg' ?G")
    case (Ok x)
    obtain ovs replaced G1 where x: "x = ((ovs, replaced), G1)" by (cases x) auto
    have "client_step T ?G G1" using Ok x assms(2) client_step.put by blast
    with s have s1: "client_steps T G0 G1" by (rule rtranclp.rtrancl_into_rtrancl)
    have "ends_in (client_steps T G0) (est_available reg (del_clients ovs G1) k)"
      using s1 del_clients_are_steps [of T G1 ovs] by (intro est_available_steps assms(3)) (blast intro: rtranclp_trans)
    moreover have "ends_in (client_steps T G0) (est_available reg' G1 (\<lambda>G2. est_available reg G2 EstDone))"
      using s1 by (intro est_available_steps est_done_steps) (blast intro: rtranclp_trans)
    ultimately show ?thesis using Ok x by (simp add: switch_region_def)
  qed (auto simp: switch_region_def ends_in_def split: unit.splits)
qed

lemma forget_region_are_steps: "wf_region reg \<Longrightarrow> client_steps T G (forget_region T reg G)"
proof -
  assume wf: "wf_region reg"
  obtain b t h where k: "krc_del T reg (gc_regions G) (gc_heap G) = (b, t, h)" by (metis prod_cases3)
  have "client_step T G (G\<lparr>gc_regions := t, gc_heap := h\<rparr>)" using k wf by (rule client_step.del)
  moreover have "client_steps T (G\<lparr>gc_regions := t, gc_heap := h\<rparr>) (forget_region T reg G)"
    using del_clients_are_steps k by (simp add: forget_region_def)
  ultimately show ?thesis by (rule converse_rtranclp_into_rtranclp)
qed

text \<open>The region that the next turn goes on with.\<close>

definition next_ok :: "'t gclient \<Rightarrow> 't est_result \<Rightarrow> bool" where
  "next_ok G0 R \<longleftrightarrow> (case R of EstNext reg b G \<Rightarrow> client_region G0 reg | _ \<Rightarrow> True)"

lemma next_ok_available: "(\<And>G'. next_ok G0 (k G')) \<Longrightarrow> next_ok G0 (est_available reg G k)"
  by (cases "MarkAvailable reg (gc_heap G) :: (unit, region_heap) outcome")
    (auto simp: est_available_def next_ok_def split: unit.split)

lemma next_ok_done: "next_ok G0 (est_available reg G EstDone)"
  by (rule next_ok_available) (simp add: next_ok_def)

lemma next_ok_connect: "client_region G0 reg \<Longrightarrow> next_ok G0 (connect_region t reg addr b G)"
  using next_ok_done [of G0 reg]
  by (auto simp: connect_region_def Let_def split: dial_result.split option.split prod.split) (simp_all add: next_ok_def)

lemma next_ok_switch:
  assumes "\<And>G'. next_ok G0 (k G')"
  shows "next_ok G0 (switch_region T reg reg' G k)"
proof (cases "put_region T reg' (G\<lparr>gc_heap := snd (MarkUnavailable reg' (gc_heap G))\<rparr>)")
  case (Ok x)
  then show ?thesis using assms
    by (auto simp: switch_region_def split_beta intro!: next_ok_available next_ok_done)
qed (auto simp: switch_region_def next_ok_def split: unit.split)

lemma establish_turn_steps:
  assumes "client_steps T G0 G" "acts T t" "client_region G0 reg" "meta_ok unmarshal (et_tries t)"
    "gc_clientType G0 \<noteq> MasterClient \<longrightarrow> wf_region (gc_metaRegionInfo G0)"
  shows "ends_in (client_steps T G0) (establish_turn T unmarshal t reg addr b G) \<and>
    next_ok G0 (establish_turn T unmarshal t reg addr b G)"
proof -
  let ?P = "\<lambda>R. ends_in (client_steps T G0) R \<and> next_ok G0 R"
  let ?G1 = "et_sleep_env t G" and ?G2 = "et_lookup_env t (et_sleep_env t G)"
  let ?look = "lookupRegion unmarshal ?G1 (fullyQualifiedTable reg) (ri_startKey reg) backoffStart (et_tries t)"
  have s1: "client_steps T G0 ?G1" using assms(1,2) by (auto simp: acts_def intro: rtranclp_trans)
  have s2: "client_steps T G0 ?G2" using s1 assms(2) by (auto simp: acts_def intro: rtranclp_trans)
  note same = client_steps_same [OF s1]
  have conn: "?P (connect_region t r a b' G')" if "client_steps T G0 G'" "client_region G0 r" for r a b' G'
    using connect_region_steps [OF that(1) assms(2)] next_ok_connect [OF that(2)] by blast
  have avail: "?P (est_available reg G' EstDone)" if "client_steps T G0 G'" for G'
    using est_done_steps [OF that] next_ok_done by blast
  have forget: "client_steps T G0 (forget_region T reg ?G2)" if "?look = Some (Err TableNotFound)"
  proof -
    have "wf_region reg" using lookupRegion_not_found [OF that] same assms(3) by (auto simp: client_region_def same_client_def split: if_splits)
    then show ?thesis using s2 forget_region_are_steps by (meson rtranclp_trans)
  qed
  have switch: "?P (switch_region T reg reg' ?G2 (connect_region t reg' (to_string addr') b'))"
    if look: "?look = Some (Ok (reg', addr'))" and other: "ri_name reg' \<noteq> ri_name reg" for reg' addr' b'
  proof -
    have "gc_clientType ?G1 \<noteq> MasterClient \<longrightarrow> wf_region (gc_metaRegionInfo ?G1)" using same assms(5) by (simp add: same_client_def)
    then have r: "client_region G0 reg'" using lookupRegion_ok [OF look assms(4)] client_region_same [OF same] by blast
    then have wf: "wf_region reg'" using other assms(3) by (auto simp: client_region_def split: if_splits)
    show ?thesis using switch_region_steps [OF s2 wf] next_ok_switch conn [OF _ r] next_ok_connect [OF r] by blast
  qed
  have wait: "?P EstWait" "?P (EstPanic p)" "?P (EstClosed ?G2)" for p using s2 by (simp_all add: ends_in_def next_ok_def)
  show ?thesis
  proof (cases "sleepAndIncreaseBackoff (ContextDone (gc_heap ?G1) reg) b")
    case (Inl e)
    then show ?thesis using avail [OF s1] by (simp add: establish_turn_def)
  next
    case (Inr b')
    then show ?thesis
      using conn [OF s1 assms(3)] conn [OF s2 assms(3)] avail [OF s2] avail [OF forget] switch wait
      by (cases "addr = []") (simp_all add: establish_turn_def Let_def split: option.split outcome.split prod.split)
  qed
qed

lemma establishRegion_steps:
  assumes "client_steps T G0 G" "\<forall>t \<in> set ts. acts T t \<and> meta_ok unmarshal (et_tries t)" "client_region G0 reg"
    "gc_clientType G0 \<noteq> MasterClient \<longrightarrow> wf_region (gc_metaRegionInfo G0)"
  shows "ends_in (client_steps T G0) (establishRegion T unmarshal ts reg addr b G)"
  using assms
proof (induction ts arbitrary: reg addr b G)
  case (Cons t ts)
  have e: "ends_in (client_steps T G0) (establish_turn T unmarshal t reg addr b G)"
      "next_ok G0 (establish_turn T unmarshal t reg addr b G)"
    using establish_turn_steps [of T G0 G t reg unmarshal addr b] Cons.prems by auto
  show ?case
  proof (cases "establish_turn T unmarshal t reg addr b G")
    case (EstNext reg' b' G')
    then have "client_steps T G0 G'" "client_region G0 reg'" using e by (simp_all add: ends_in_def next_ok_def)
    then show ?thesis using Cons.IH [of G' reg'] Cons.prems(2,4) EstNext by simp
  qed (use e in simp_all)
qed (simp add: ends_in_def)

section \<open>Properties\<close>

lemma wf_meta_region: "wf_region (NewInfo p 0 (Some (str ''hbase'')) (str ''meta'') (str ''hbase:meta,,1'') [] [])"
proof -
  have "wf_region (NewInfo 0 0 (Some (str ''hbase'')) (str ''meta'') (str ''hbase:meta,,1'') [] [])" by code_simp
  then show ?thesis by (simp add: wf_region_def NewInfo_def fullyQualifiedTable_def wf_table_def)
qed

lemma new_client_ok:
  assumes "newClient tree p zkquorum options = Ok (cfg, zk, G0) \<or> newAdminClient tree p zkquorum options = Ok (cfg, zk, G0)"
    and "tinv tree" "entries tree = []"
  shows "state_ok tinv entries G0"
proof -
  have "gc_regions G0 = tree" "gc_clients G0 = []" "gc_heap G0 = init_heap"
      "gc_clientType G0 \<noteq> MasterClient \<longrightarrow> wf_region (gc_metaRegionInfo G0)"
    using assms(1) wf_meta_region by (cases "apply_options options default_config"; auto simp: newClient_def newAdminClient_def)+
  then show ?thesis using assms(2,3) by (simp add: state_ok_def cache_inv_def crc_inv_def heap_inv_init)
qed

text \<open>
  C3. In every state that a client, of regions or of the master, reaches from its creation, by whatever sequence of operations of
  whatever goroutines: no two cached regions overlap, every region that a lookup in the cache
  returns covers the row, no two region clients have the same address or the same identity, and
  the channels that calls wait on are open and belong to one region each.
\<close>

theorem client_invariant:
  assumes "btree T tinv entries cur" "tinv tree" "entries tree = []"
    and "newClient tree p zkquorum options = Ok (cfg, zk, G0) \<or> newAdminClient tree p zkquorum options = Ok (cfg, zk, G0)"
    and "client_steps T G0 G"
  shows "cache_inv (entries (gc_regions G)) \<and> crc_inv (gc_clients G) \<and> heap_inv (gc_heap G) \<and>
    (\<forall>table key reg. no_comma table \<longrightarrow> cached_region T (gc_regions G) table key = Ok (Some reg) \<longrightarrow> covers reg table key)"
proof -
  have "state_ok tinv entries G0" using assms(4,2,3) by (rule new_client_ok)
  then have ok: "state_ok tinv entries G" using btree.client_steps_ok [OF assms(1,5)] by blast
  have "covers reg table key" if "no_comma table" "cached_region T (gc_regions G) table key = Ok (Some reg)" for table key reg
  proof -
    have inv: "tinv (gc_regions G)" "cache_inv (entries (gc_regions G))" using ok by (simp_all add: state_ok_def)
    have "region_of (entries (gc_regions G)) table key = Some reg"
      using that btree.cached_region_refines [OF assms(1) inv(1) that(1)] inv by (intro cached_region_sound) simp_all
    then show ?thesis using region_of_Some_iff [OF inv(2)] by auto
  qed
  then show ?thesis using ok by (simp add: state_ok_def)
qed

text \<open>
  C8. The code consists of such steps, and so keeps this invariant: handling an error, losing a region
  client, closing, finding a region, with a result or an error, and establishing one, whether it
  ends or gives up because the client is closed, lead from the state they start in by steps of the client to the state they
  leave, whatever the other goroutines do, in steps of their own, at the points where the goroutine blocks. The lookups find rows of
  \<^verbatim>\<open>hbase:meta\<close> that describe well-formed regions.
\<close>

theorem goroutines_keep_invariant:
  assumes "btree T tinv entries cur" "state_ok tinv entries G" "client_region G reg"
    and "\<forall>t \<in> set ts. acts T t \<and> meta_ok unmarshal (et_tries t)"
    and "meta_ok unmarshal tries" "client_steps T G (env G)"
    and "G' = handleResultError err reg rc G \<or> G' = clientDown rc reg G \<or> gohbase_Close G = (p, cs, G') \<or>
      findRegion T unmarshal table key tries env G = Some (Ok (r, G')) \<or>
      findRegion T unmarshal table key tries env G = Some (Err (e, G')) \<or>
      establishRegion T unmarshal ts reg addr b G \<in> {EstDone G', EstClosed G'} \<or>
      reestablishRegion T unmarshal ts reg G \<in> {EstDone G', EstClosed G'}"
  shows "client_steps T G G' \<and> state_ok tinv entries G'"
proof -
  have meta: "gc_clientType G \<noteq> MasterClient \<longrightarrow> wf_region (gc_metaRegionInfo G)" using assms(2) by (simp add: state_ok_def)
  have est: "client_steps T G G'" if "establishRegion T unmarshal ts reg addr' b' G \<in> {EstDone G', EstClosed G'}" for addr' b'
    using establishRegion_steps [OF rtranclp.rtrancl_refl assms(4,3) meta, of addr' b'] that by (auto simp: ends_in_def)
  have "client_steps T G G'" if "reestablishRegion T unmarshal ts reg G \<in> {EstDone G', EstClosed G'}"
    using that est by (auto simp: reestablishRegion_def split: if_splits)
  moreover have "client_steps T G G'" if "findRegion T unmarshal table key tries env G = Some (Ok (r, G'))"
    using that assms(5) meta assms(6) by (rule findRegion_steps)
  moreover have "client_steps T G G'" if "findRegion T unmarshal table key tries env G = Some (Err (e, G'))"
    using that assms(6) by (rule findRegion_failed_steps)
  ultimately have "client_steps T G G'"
    using assms(7) est by (elim disjE) (simp_all add: handleResultError_steps clientDown_steps Close_steps)
  then show ?thesis using btree.client_steps_ok [OF assms(1) _ assms(2)] by blast
qed

text \<open>
  C33. A client of the master cannot be closed: it is made without the channel that \<^verbatim>\<open>Close\<close> closes, so that
  in whatever state it is the first \<^verbatim>\<open>Close\<close> panics before it closes any connection. Every later one does nothing,
  since the \<^verbatim>\<open>Once\<close> counts as done: all that changes is \<^verbatim>\<open>closeOnce\<close>, and the connection to the master stays.
\<close>

theorem admin_Close_panics:
  assumes "newAdminClient tree p zkquorum options = Ok (cfg, zk, G0)" "client_steps T G0 G"
  shows "\<not> gc_closeOnce G0 \<and>
    gohbase_Close G = (if gc_closeOnce G then None else Some CloseOfNilChannel, [], G\<lparr>gc_closeOnce := True\<rparr>)"
proof -
  have G0: "gc_done G0 = None" "\<not> gc_closeOnce G0" using assms(1)
    by (cases "apply_options options default_config"; auto simp: newAdminClient_def)+
  then have "gc_done G = None" using client_steps_same [OF assms(2)] by (simp add: same_client_def)
  then show ?thesis using G0(2) by (simp add: gohbase_Close_def)
qed

theorem admin_Close_panics_witness:
  "\<exists>cfg zk G0 G G'. newAdminClient ([] :: entry list) 7 ''zk'' [] = Ok (cfg, zk, G0) \<and>
    client_steps list_tree G0 G \<and> Client (gc_heap G) (gc_adminRegionInfo G) = Some 5 \<and>
    gohbase_Close G = (Some CloseOfNilChannel, [], G') \<and> Client (gc_heap G') (gc_adminRegionInfo G') = Some 5 \<and>
    gohbase_Close G' = (None, [], G')"
proof -
  obtain cfg zk and G0 :: "entry list gclient" where n: "newAdminClient [] 7 ''zk'' [] = Ok (cfg, zk, G0)"
    by (simp add: newAdminClient_def)
  let ?G = "set_client (gc_adminRegionInfo G0) 5 G0" and ?G' = "(set_client (gc_adminRegionInfo G0) 5 G0)\<lparr>gc_closeOnce := True\<rparr>"
  have s: "client_steps list_tree G0 ?G" by (rule set_client_steps')
  have c: "gohbase_Close ?G = (Some CloseOfNilChannel, [], ?G')"
    using admin_Close_panics [OF n s] by (simp add: set_client_def)
  have s': "client_steps list_tree G0 ?G'" using s Close_steps [OF c] by (rule rtranclp_trans)
  have "gohbase_Close ?G' = (None, [], ?G')" using admin_Close_panics [OF n s'] by simp
  moreover have "Client (gc_heap ?G) (gc_adminRegionInfo ?G) = Some 5" by (simp add: set_client_def region_heap_defs)
  ultimately show ?thesis using n s c by (intro exI conjI) simp_all
qed

theorem client_invariant_witness:
  "\<exists>cfg zk G0 v G. newClient [] 7 ''zk'' [] = Ok (cfg, zk, G0) \<and> put_region list_tree sample_left G0 = Ok (v, G) \<and>
     cache_inv (gc_regions G) \<and> crc_inv (gc_clients G)"
proof -
  obtain cfg zk and G0 :: "entry list gclient" where n: "newClient [] 7 ''zk'' [] = Ok (cfg, zk, G0)" "gc_regions G0 = []"
    by (simp add: newClient_def)
  obtain v t h where k: "krc_put list_tree sample_left [] (gc_heap G0) = Ok (v, t, h)"
    by (rule list_btree.krc_put_new [of "[]" sample_left "[]" True "gc_heap G0"])
      (use sample_cache_inv(2) in \<open>auto simp: cache_inv_def sample_cache_def\<close>)
  then have p: "put_region list_tree sample_left G0 = Ok (v, G0\<lparr>gc_regions := t, gc_heap := h\<rparr>)"
    using n(2) by (simp add: put_region_def)
  have "wf_region sample_left" using sample_cache_inv(2) by (auto simp: cache_inv_def sample_cache_def)
  then have "client_steps list_tree G0 (G0\<lparr>gc_regions := t, gc_heap := h\<rparr>)" using client_step.put [OF p] by blast
  from client_invariant [OF list_btree.btree_axioms _ _ disjI1 [OF n(1)] this] n p show ?thesis by auto
qed

lemma sample_state_ok: "state_ok keys_ok id sample_unavailable"
  using sample_cache_inv(1,2) heap_inv_MarkUnavailable [OF heap_inv_init prod.collapse [symmetric]]
  by (simp add: state_ok_def sample_unavailable_def sample_gclient_def crc_inv_def wf_meta_region)

text \<open>The turn in which the client is closed, by a step of another goroutine.\<close>

definition closed_by_step :: "entry list est_turn" where
  "closed_by_step = closing_turn\<lparr>et_lookup_env :=
     (\<lambda>G. if gc_done G = Some False then G\<lparr>gc_closeOnce := True, gc_done := Some True\<rparr> else G)\<rparr>"

lemma Next_send_error: "Next False (newScanner rpc opts) [SendError e] \<noteq> Some (Ok ((x, None), y))"
  by (auto simp: Next_def next_loop.simps [of None _ "[SendError e]"] peek_def fetch.simps [of _ "[SendError e]"] fetch_turn_def
      newScanner_def split: option.splits outcome.splits sum.splits)

lemma closing_meta_ok: "meta_ok (\<lambda>_. Inl []) (et_tries closing_turn)"
proof -
  have "metaLookup unmarshal p False table key [SendError e] \<noteq> Some (Ok r)" for unmarshal p table key e r
    using Next_send_error by (auto simp: metaLookup_def split: option.splits outcome.splits unit.splits scan_error.splits if_splits)
  then show ?thesis by (simp add: meta_ok_def closing_turn_def)
qed

theorem goroutines_keep_invariant_witness:
  "client_steps list_tree sample_unavailable (clientDown 1 sample_left sample_unavailable) \<and>
    (\<exists>G'. establishRegion list_tree (\<lambda>_. Inl []) [sample_turn] sample_left ''h:1'' 0 sample_unavailable = EstDone G' \<and>
      client_steps list_tree sample_unavailable G' \<and> state_ok keys_ok id G') \<and>
    (\<exists>G'. reestablishRegion list_tree (\<lambda>_. Inl []) [closed_by_step] sample_left sample_unavailable = EstClosed G' \<and>
      client_steps list_tree sample_unavailable G' \<and> state_ok keys_ok id G')"
proof -
  note ok = sample_state_ok
  have wf: "client_region sample_unavailable sample_left" using sample_cache_inv(2)
    by (auto simp: cache_inv_def sample_cache_def client_region_def sample_unavailable_def sample_gclient_def)
  have t1: "\<forall>t \<in> set [sample_turn]. acts list_tree t \<and> meta_ok (\<lambda>_. Inl []) (et_tries t)"
    by (simp add: acts_def meta_ok_def sample_turn_def)
  have t2: "\<forall>t \<in> set [closed_by_step]. acts list_tree t \<and> meta_ok (\<lambda>_. Inl []) (et_tries t)"
    using closing_meta_ok by (auto simp: acts_def closed_by_step_def closing_turn_def sample_turn_def intro: client_step.shut)
  have env: "meta_ok (\<lambda>_. Inl []) []" "client_steps list_tree sample_unavailable (id sample_unavailable)"
    by (simp_all add: meta_ok_def)
  note keep = goroutines_keep_invariant [where env = id, OF list_btree.btree_axioms ok wf _ env]
  obtain G1 where e: "establishRegion list_tree (\<lambda>_. Inl []) [sample_turn] sample_left ''h:1'' 0 sample_unavailable = EstDone G1"
    by (simp add: establish_turn_def sample_turn_def sleepAndIncreaseBackoff_def connect_region_def crc_put_def
        isRegionEstablished_def est_available_def set_client_def sample_unavailable_def sample_gclient_def
        region_heap_defs init_heap_def new_region_state_def same_region_ptr_def sample_defs NewInfo_def)
  have "et_sleep_env closed_by_step = id" "gc_done sample_unavailable = Some False" "et_tries closed_by_step = et_tries closing_turn"
    "\<not> ContextDone (gc_heap (et_lookup_env closed_by_step sample_unavailable)) sample_left"
    by (simp_all add: closed_by_step_def closing_turn_def sample_turn_def sample_unavailable_def sample_gclient_def region_heap_defs
        init_heap_def new_region_state_def)
  then obtain G2 where c: "reestablishRegion list_tree (\<lambda>_. Inl []) [closed_by_step] sample_left sample_unavailable = EstClosed G2"
    using closing_turn_lookup by (simp add: reestablishRegion_def establish_turn_def sleepAndIncreaseBackoff_def)
  have "client_steps list_tree sample_unavailable (clientDown 1 sample_left sample_unavailable)"
    using keep [OF t1 disjI2, OF disjI1, OF refl] by blast
  moreover have "client_steps list_tree sample_unavailable G1 \<and> state_ok keys_ok id G1"
    by (rule keep [OF t1, where addr = "''h:1''" and b = 0]) (simp only: e insert_iff, simp)
  moreover have "client_steps list_tree sample_unavailable G2 \<and> state_ok keys_ok id G2"
    by (rule keep [OF t2]) (simp add: c)
  ultimately show ?thesis using e c by blast
qed

end
