(* ===== verification/Client_Calls.thy ===== *)
theory Client_Calls
  imports Client_State
begin

text \<open>
  The goroutines of an application in a client (\<^verbatim>\<open>SendRPC\<close> and \<^verbatim>\<open>SendBatch\<close> of \<^verbatim>\<open>src/rpc.go\<close> with
  everything they call): whatever they do to the state of the client is a sequence of the steps of
  Client_State, so that its invariant holds while they run and when they return.
\<close>

section \<open>What the other goroutines do\<close>

definition does_steps :: "('t, 'e) tree_ops \<Rightarrow> ('t gclient \<Rightarrow> 't gclient) \<Rightarrow> bool" where
  "does_steps T env \<longleftrightarrow> (\<forall>G. client_steps T G (env G))"

definition find_acts :: "('t, 'e) tree_ops \<Rightarrow> (bytes \<Rightarrow> string + region_info) \<Rightarrow> 't find_try \<Rightarrow> bool" where
  "find_acts T unmarshal e \<longleftrightarrow> does_steps T (ft_env e) \<and> does_steps T (ft_lookup_env e) \<and> meta_ok unmarshal (ft_tries e)"

definition turn_acts :: "('t, 'e) tree_ops \<Rightarrow> (bytes \<Rightarrow> string + region_info) \<Rightarrow> 't turn \<Rightarrow> bool" where
  "turn_acts T unmarshal t \<longleftrightarrow> (\<forall>e \<in> set (tu_envs t). find_acts T unmarshal e) \<and> does_steps T (tu_env1 t) \<and> does_steps T (tu_env2 t)"

definition attempt_acts :: "('t, 'e) tree_ops \<Rightarrow> (bytes \<Rightarrow> string + region_info) \<Rightarrow> 't attempt \<Rightarrow> bool" where
  "attempt_acts T unmarshal a \<longleftrightarrow> (\<forall>t \<in> set (at_turns a). turn_acts T unmarshal t) \<and> does_steps T (at_env a)"

lemma does_stepsD: "does_steps T env \<Longrightarrow> client_steps T G0 G \<Longrightarrow> client_steps T G0 (env G)"
  by (auto simp: does_steps_def intro: rtranclp_trans)

text \<open>The state in which an operation returns, with a result or with an error.\<close>

definition returns :: "('e \<times> 't gclient, 'a \<times> 't gclient) outcome option \<Rightarrow> 't gclient \<Rightarrow> bool" where
  "returns r G \<longleftrightarrow> (\<exists>x. r = Some (Ok (x, G))) \<or> (\<exists>e. r = Some (Err (e, G)))"

lemma returns_simps [simp]:
  "returns (Some (Ok (x, G'))) G \<longleftrightarrow> G' = G" "returns (Some (Err (e, G'))) G \<longleftrightarrow> G' = G"
  "\<not> returns None G" "\<not> returns (Some (Panic p)) G"
  by (auto simp: returns_def)

text \<open>A client of regions knows the region of \<^verbatim>\<open>hbase:meta\<close>.\<close>

definition knows_meta :: "'t gclient \<Rightarrow> bool" where
  "knows_meta G \<longleftrightarrow> (gc_clientType G \<noteq> MasterClient \<longrightarrow> wf_region (gc_metaRegionInfo G))"

lemma knows_meta_steps: "client_steps T G G' \<Longrightarrow> knows_meta G \<Longrightarrow> knows_meta G'"
  by (drule client_steps_same) (simp add: knows_meta_def same_client_def)

section \<open>Finding the client of a call\<close>

lemma findRegion_result_steps:
  assumes "returns (findRegion T unmarshal table key tries env G) G'" "meta_ok unmarshal tries" "knows_meta G" "does_steps T env"
  shows "client_steps T G G'"
proof (cases "\<exists>r. findRegion T unmarshal table key tries env G = Some (Ok (r, G'))")
  case True
  then show ?thesis using findRegion_steps assms(2-4) unfolding knows_meta_def does_steps_def by blast
next
  case False
  then have "G' = env G" using assms(1)
    by (auto simp: findRegion_def returns_def split: option.splits outcome.splits prod.splits unit.splits)
  then show ?thesis using assms(4) by (simp add: does_steps_def)
qed

lemma region_tries_steps:
  assumes "returns (region_tries T unmarshal table key n envs G) G'" "\<forall>e \<in> set envs. find_acts T unmarshal e" "knows_meta G"
  shows "client_steps T G G'"
  using assms
proof (induction T unmarshal table key n envs G rule: region_tries.induct)
  case (3 T unmarshal table key n e envs G)
  let ?G1 = "ft_env e G" and ?find = "findRegion T unmarshal table key (ft_tries e) (ft_lookup_env e) (ft_env e G)"
  have e: "client_steps T G ?G1" "does_steps T (ft_lookup_env e)" "meta_ok unmarshal (ft_tries e)"
    using "3.prems"(2) by (auto simp: find_acts_def does_steps_def)
  have m: "knows_meta ?G1" using e(1) "3.prems"(3) by (rule knows_meta_steps)
  have f: "client_steps T G G2" if "returns ?find G2" for G2
    using findRegion_result_steps [OF that e(3) m e(2)] e(1) by (rule rtranclp_trans [rotated])
  show ?case
  proof (cases "getRegionFromCache T ?G1 table key")
    case (Ok r)
    show ?thesis
    proof (cases "\<exists>G2. r = None \<and> ?find = Some (Ok (None, G2))")
      case True
      then obtain G2 where G2: "r = None" "?find = Some (Ok (None, G2))" by blast
      have s: "client_steps T G G2" using f G2(2) by simp
      have "client_steps T G2 G'"
        using "3.IH" [OF refl Ok G2(1) G2(2) refl refl refl] "3.prems"(1,2) knows_meta_steps [OF s "3.prems"(3)] Ok G2 by simp
      then show ?thesis using s by (rule rtranclp_trans [rotated])
    next
      case False
      then show ?thesis using "3.prems"(1) Ok e(1) f
        by (auto simp: Let_def split: option.splits outcome.splits prod.splits)
    qed
  qed (use "3.prems"(1) in \<open>auto simp: Let_def split: unit.splits\<close>)
qed auto

lemma wait_steps: "wait_available reg w env G = Some (r, G') \<Longrightarrow> does_steps T env \<Longrightarrow> client_steps T G G'"
  by (auto simp: wait_available_def does_steps_def Let_def split: option.splits waited.splits if_splits)

lemma client_of_region_steps:
  assumes "client_of_region reg t G = Some (r, G')" "does_steps T (tu_env1 t)" "does_steps T (tu_env2 t)"
  shows "client_steps T G G'"
proof -
  obtain e G1 where w: "wait_available reg (tu_wait1 t) (tu_env1 t) G = Some (e, G1)"
    using assms(1) by (auto simp: client_of_region_def split: option.splits)
  then have s: "client_steps T G G1" using assms(2) by (rule wait_steps)
  show ?thesis
  proof (cases "e = None \<and> Client (gc_heap G1) reg = None")
    case True
    then have "wait_available reg (tu_wait2 t) (tu_env2 t) (mark_and_reestablish id reg G1) \<noteq> None"
        "\<forall>e2 G2. wait_available reg (tu_wait2 t) (tu_env2 t) (mark_and_reestablish id reg G1) = Some (e2, G2) \<longrightarrow> G' = G2"
      using assms(1) w by (auto simp: client_of_region_def split: option.splits if_splits)
    then obtain e2 where "wait_available reg (tu_wait2 t) (tu_env2 t) (mark_and_reestablish id reg G1) = Some (e2, G')" by auto
    then have "client_steps T (mark_and_reestablish id reg G1) G'" using assms(3) by (rule wait_steps)
    moreover have "client_steps T G1 (mark_and_reestablish id reg G1)" by (rule reestablish_steps) simp
    ultimately show ?thesis using s by (meson rtranclp_trans)
  next
    case False
    then show ?thesis using assms(1) w s by (auto simp: client_of_region_def split: option.splits)
  qed
qed

lemma getRegionAndClient_steps:
  assumes "returns (getRegionAndClientForRPC T unmarshal ts rpc G) G'" "\<forall>t \<in> set ts. turn_acts T unmarshal t" "knows_meta G"
  shows "client_steps T G G'"
  using assms
proof (induction ts arbitrary: G)
  case (Cons t ts)
  let ?find = "getRegionForRpc T unmarshal (tu_envs t) rpc G"
  have t: "\<forall>e \<in> set (tu_envs t). find_acts T unmarshal e" "does_steps T (tu_env1 t)" "does_steps T (tu_env2 t)"
    using Cons.prems(2) by (auto simp: turn_acts_def)
  have f: "client_steps T G G1" if "returns ?find G1" for G1
    using that t(1) Cons.prems(3) unfolding getRegionForRpc_def by (rule region_tries_steps)
  show ?case
  proof (cases "\<exists>reg G1. ?find = Some (Ok (reg, G1))")
    case True
    then obtain reg G1 where r: "?find = Some (Ok (reg, G1))" by blast
    have c: "client_steps T G G2" if "client_of_region reg t G1 = Some (x, G2)" for x G2
      using f [of G1] client_of_region_steps [OF that t(2,3)] r by (auto intro: rtranclp_trans)
    have "client_steps T G2 G'" if "client_of_region reg t G1 = Some (Inr None, G2)"
        "returns (getRegionAndClientForRPC T unmarshal ts rpc G2) G'" for G2
      using Cons.IH [OF that(2)] Cons.prems(2) knows_meta_steps [OF c [OF that(1)] Cons.prems(3)] by simp
    then show ?thesis using Cons.prems(1) r c
      by (auto split: option.splits sum.splits prod.splits intro: rtranclp_trans)
  next
    case False
    then show ?thesis using Cons.prems(1) f by (auto split: option.splits outcome.splits prod.splits)
  qed
qed simp

section \<open>Sending calls\<close>

lemma sendRPC_steps: "sendRPCToRegionClient res reg rc G = (r, G') \<Longrightarrow> client_steps T G G'"
  using handleResultError_steps by (auto simp: sendRPCToRegionClient_def split: option.splits sum.splits)

lemma SendRPC_loop_steps:
  assumes "returns (SendRPC_loop T unmarshal as backoff rpc G) G'" "\<forall>a \<in> set as. attempt_acts T unmarshal a" "knows_meta G"
  shows "client_steps T G G'"
  using assms
proof (induction as arbitrary: backoff rpc G)
  case (Cons a as)
  let ?find = "getRegionAndClientForRPC T unmarshal (at_turns a) rpc G"
  have a: "\<forall>t \<in> set (at_turns a). turn_acts T unmarshal t" "does_steps T (at_env a)"
    using Cons.prems(2) by (auto simp: attempt_acts_def)
  have f: "client_steps T G G1" if "returns ?find G1" for G1
    using that a(1) Cons.prems(3) by (rule getRegionAndClient_steps)
  show ?case
  proof (cases "\<exists>rc reg rpc' G1. ?find = Some (Ok ((rc, reg, rpc'), G1))")
    case True
    then obtain rc reg rpc' G1 where r: "?find = Some (Ok ((rc, reg, rpc'), G1))" by blast
    obtain x G2 where x: "sendRPCToRegionClient (at_result a) reg rc (at_env a G1) = (x, G2)" by force
    have "client_steps T G (at_env a G1)" using does_stepsD [OF a(2)] f r by simp
    then have s: "client_steps T G G2" using sendRPC_steps [OF x] by (rule rtranclp_trans)
    have "client_steps T G2 G'" if "returns (SendRPC_loop T unmarshal as backoff' rpc' G2) G'" for backoff'
      using Cons.IH [OF that] Cons.prems(2) knows_meta_steps [OF s Cons.prems(3)] by simp
    then have "client_steps T G2 G'" using Cons.prems(1) r x by (auto split: sum.splits go_error.splits rpc_error.splits)
    with s show ?thesis by (rule rtranclp_trans)
  next
    case False
    then show ?thesis using Cons.prems(1) f by (auto split: option.splits outcome.splits prod.splits)
  qed
qed simp

lemma findClients_steps:
  assumes "findClients T unmarshal i tss rpcs res gs ok G = Some (Ok (x, G'))"
    "\<forall>ts \<in> set tss. \<forall>t \<in> set ts. turn_acts T unmarshal t" "knows_meta G"
  shows "client_steps T G G'"
  using assms
proof (induction T unmarshal i tss rpcs res gs ok G rule: findClients.induct)
  case (3 T unmarshal i ts tss rpc rpcs res gs ok G)
  let ?find = "getRegionAndClientForRPC T unmarshal ts rpc G"
  have f: "client_steps T G G1" if "returns ?find G1" for G1
    using that "3.prems"(2,3) by (intro getRegionAndClient_steps) auto
  have m: "knows_meta G1" if "returns ?find G1" for G1
    using f [OF that] "3.prems"(3) by (rule knows_meta_steps)
  show ?case
  proof (cases ?find)
    case (Some r)
    have "\<exists>G1. returns ?find G1 \<and> client_steps T G1 G'"
      using "3.IH" "3.prems"(1,2) Some m by (cases r) (auto split: prod.splits)
    then show ?thesis using f by (auto intro: rtranclp_trans)
  qed (use "3.prems"(1) in simp)
qed auto

lemma store_arrival_steps: "does_steps T env \<Longrightarrow> client_steps T (snd s) (snd (store_arrival m rc env cr res s))"
  using does_stepsD [OF _ rtranclp.rtrancl_refl]
  by (auto simp: store_arrival_def split: sum.split intro: rtranclp_trans [OF _ handleResultError_steps])

lemma drain_steps: "\<forall>i. does_steps T (ar_env (arrival i)) \<Longrightarrow> client_steps T (snd s) (snd (drain_results m rc arrival crs s))"
proof (induction crs arbitrary: s)
  case (Cons cr crs)
  let ?s = "case ar_second (arrival (call_id (fst cr))) of
          Some res \<Rightarrow> store_arrival m rc (ar_env (arrival (call_id (fst cr)))) cr res s
        | None \<Rightarrow> (set_result m (fst cr) (Inl ContextEnded) (fst s), snd s)"
  have "client_steps T (snd s) (snd ?s)" using Cons.prems by (auto simp: store_arrival_steps split: option.split)
  then show ?case using Cons.IH [OF Cons.prems, of ?s] by (simp add: rtranclp_trans)
qed simp

lemma waitForCompletion_steps:
  "\<forall>i. does_steps T (ar_env (arrival i)) \<Longrightarrow> client_steps T (snd s) (snd (snd (waitForCompletion m rc arrival crs ok s)))"
proof (induction crs arbitrary: ok s)
  case (Cons cr crs)
  let ?s = "\<lambda>res. store_arrival m rc (ar_env (arrival (call_id (fst cr)))) cr res s"
  have "client_steps T (snd s) (snd (?s res))" for res using Cons.prems by (simp add: store_arrival_steps)
  then have "client_steps T (snd s) (snd (snd (waitForCompletion m rc arrival crs ok' (?s res))))" for ok' res
    using Cons.IH [OF Cons.prems] by (rule rtranclp_trans)
  then show ?case using drain_steps [OF Cons.prems, of s m rc "cr # crs"]
    by (auto simp del: drain_results.simps split: option.split)
qed simp

lemma wait_groups_steps:
  assumes "\<forall>i. does_steps T (ar_env (arrival i))"
  shows "client_steps T (snd s) (snd (snd (wait_groups m arrival gs ok s)))"
proof (induction gs arbitrary: ok s)
  case (Cons g gs)
  obtain rc crs where g: "g = (rc, crs)" by force
  show ?case using Cons waitForCompletion_steps [OF assms, of s m rc crs True]
    by (auto simp: g split: prod.split intro: rtranclp_trans)
qed simp

lemma SendBatch_steps:
  assumes "SendBatch T unmarshal order tss arrival batch G = Some (Ok (x, G'))" "knows_meta G"
    "\<forall>ts \<in> set tss. \<forall>t \<in> set ts. turn_acts T unmarshal t" "\<forall>i. does_steps T (ar_env (arrival i))"
  shows "client_steps T G G'"
proof (cases batch)
  case (Cons first rest)
  obtain res m ok where c: "check_batch (b_table (call_base first)) [] 0 batch = (res, m, ok)" by (metis prod_cases3)
  show ?thesis
  proof (cases ok)
    case True
    obtain gs res' ok' G1 where f: "findClients T unmarshal 0 tss batch res [] True G = Some (Ok ((gs, res', ok'), G1))"
      using assms(1) c True Cons by (auto simp: SendBatch_def split: option.splits outcome.splits)
    have s: "client_steps T G G1" using f assms(3,2) by (rule findClients_steps)
    have "G' = G1 \<or> G' = snd (snd (wait_groups m arrival (order gs) True (res', G1)))"
      using assms(1) c f True unfolding SendBatch_def Cons by (auto split: if_splits prod.splits)
    then show ?thesis using s wait_groups_steps [OF assms(4), of "(res', G1)" m "order gs" True] by (auto intro: rtranclp_trans)
  next
    case False
    then show ?thesis using assms(1) c Cons by (simp add: SendBatch_def)
  qed
qed (use assms(1) in \<open>simp add: SendBatch_def\<close>)

section \<open>Properties\<close>

text \<open>
  C14. A call of an application, alone or in a batch, leaves the client in a state in which its
  invariant holds, with whatever result it returns and whatever error, and whatever the other
  goroutines do while it waits for a region, for a lookup, for an answer or sleeps.
\<close>

theorem calls_keep_invariant:
  assumes "btree T tinv entries cur" "state_ok tinv entries G"
    and "\<forall>a \<in> set as. attempt_acts T unmarshal a"
    and "\<forall>ts \<in> set tss. \<forall>t \<in> set ts. turn_acts T unmarshal t" "\<forall>i. does_steps T (ar_env (arrival i))"
  shows "(\<forall>G'. returns (SendRPC T unmarshal as rpc G) G' \<longrightarrow> state_ok tinv entries G') \<and>
    (\<forall>res G'. SendBatch T unmarshal order tss arrival batch G = Some (Ok (res, G')) \<longrightarrow> state_ok tinv entries G')"
proof -
  have m: "knows_meta G" using assms(2) by (simp add: state_ok_def knows_meta_def)
  have ok: "state_ok tinv entries G'" if "client_steps T G G'" for G'
    using btree.client_steps_ok [OF assms(1) that assms(2)] .
  show ?thesis
    using ok SendRPC_loop_steps [of T unmarshal as backoffStart rpc G, OF _ assms(3) m] SendBatch_steps [OF _ m assms(4,5)]
    unfolding SendRPC_def by blast
qed

text \<open>The region of a call is not served: it is given up for another goroutine, and the context ends while the call waits.\<close>

theorem calls_keep_invariant_witness:
  "\<exists>G'. returns (SendRPC list_tree (\<lambda>_. Inl []) [sample_attempt (Some (Inl (NotServingRegionError ''moved''))), sample_attempt None]
      sample_row (sample_gclient\<lparr>gc_heap := SetClient sample_left (Some 1) init_heap\<rparr>)) G' \<and>
    gc_started G' = [Reestablish sample_left] \<and> state_ok keys_ok id G'"
proof -
  let ?h = "SetClient sample_left (Some 1) init_heap"
  let ?G = "sample_gclient\<lparr>gc_heap := ?h\<rparr>"
  have "heap_inv ?h" by (simp add: heap_inv_SetClient heap_inv_init)
  then have ok: "state_ok keys_ok id ?G" using sample_cache_inv(1,2)
    by (simp add: state_ok_def sample_gclient_def crc_inv_def sample_clients_def wf_meta_region)
  have a: "\<forall>a \<in> set [sample_attempt (Some (Inl (NotServingRegionError ''moved''))), sample_attempt None]. attempt_acts list_tree (\<lambda>_. Inl []) a"
    by (simp add: attempt_acts_def sample_attempt_def sample_lookup_def turn_acts_def find_acts_def does_steps_def meta_ok_def)
  let ?G2 = "handleResultError (NotServingRegionError ''moved'') sample_left 1 ?G"
  have G2: "gc_started ?G2 = [Reestablish sample_left]" "gc_clientType ?G2 = RegionClient" "gc_regions ?G2 = sample_cache"
      "AvailabilityChan (gc_heap ?G2) sample_left \<noteq> None"
    by (simp_all add: handleResultError_def mark_and_reestablish_def start_goroutine_def region_heap_defs init_heap_def
        new_region_state_def sample_gclient_def)
  have "b_table (call_base (SetRegion sample_row sample_left)) = str ''t''" "b_key (call_base (SetRegion sample_row sample_left)) = str ''k''"
    by (simp_all add: sample_row_def)
  then have "getRegionAndClientForRPC list_tree (\<lambda>_. Inl []) [sample_lookup] (SetRegion sample_row sample_left) ?G2 = Some (Err (ContextEnded, ?G2))"
    using G2(4) sample_region [OF G2(2,3), of "SetRegion sample_row sample_left"]
    by (auto simp: sample_lookup_def client_of_region_def wait_available_def)
  then have "returns (SendRPC list_tree (\<lambda>_. Inl []) [sample_attempt (Some (Inl (NotServingRegionError ''moved''))), sample_attempt None] sample_row ?G) ?G2"
    using sample_row_client by (simp add: SendRPC_def sample_attempt_def sendRPCToRegionClient_def)
  with calls_keep_invariant [OF list_btree.btree_axioms ok a, of "[]" "\<lambda>_. sample_arrival" sample_row]
  show ?thesis using G2(1) by (auto simp: sample_arrival_def does_steps_def)
qed

end
