(* ===== verification/Debug_State.thy ===== *)
theory Debug_State
  imports Client_State
begin

text \<open>
  What a client tells about itself (\<^verbatim>\<open>DebugState\<close> and \<^verbatim>\<open>MarshalJSON\<close> of \<^verbatim>\<open>src/client.go\<close>,
  \<^verbatim>\<open>src/region/info.go\<close> and \<^verbatim>\<open>src/region/client.go\<close>). Each function collects a structure and gives it to
  \<^verbatim>\<open>encoding/json\<close>; the structures are modelled here, with the texts that
  \<^verbatim>\<open>fmt\<close> makes of a pointer as an argument, \<open>fmt\<close>.
\<close>

section \<open>Regions\<close>

record region_json =
  rj_Id :: u64
  rj_Namespace :: bytes
  rj_Table :: bytes
  rj_Name :: bytes
  rj_StartKey :: bytes
  rj_StopKey :: bytes
  rj_ContextInstance :: string
  rj_Err :: string
  rj_Client :: string
  rj_Available :: bool

text \<open>A region made by \<^verbatim>\<open>NewInfo\<close> has a context of its own; \<open>ctx\<close> is the text of its address.\<close>

definition info_MarshalJSON :: "(nat \<Rightarrow> string) \<Rightarrow> (nat \<Rightarrow> string) \<Rightarrow> region_heap \<Rightarrow> region \<Rightarrow> region_json" where
  "info_MarshalJSON fmt ctx h i =
     \<lparr>rj_Id = ri_id i, rj_Namespace = (case ri_namespace i of None \<Rightarrow> [] | Some ns \<Rightarrow> ns), rj_Table = ri_table i,
      rj_Name = ri_name i, rj_StartKey = ri_startKey i, rj_StopKey = ri_stopKey i,
      rj_ContextInstance = ctx (ri_ptr i), rj_Err = (if ContextDone h i then ''context canceled'' else ''<nil>''),
      rj_Client = (case Client h i of None \<Rightarrow> ''%!p(<nil>)'' | Some c \<Rightarrow> fmt c),
      rj_Available = (\<not> IsUnavailable h i)\<rparr>"

section \<open>Region clients\<close>

record address = ad_Network :: string ad_Address :: string

record client_json =
  cj_ConnectionLocalAddress :: address
  cj_ConnectionRemoteAddress :: address
  cj_RegionServerAddress :: string
  cj_ClientType :: string
  cj_InFlight :: u32
  cj_Id :: u32
  cj_Done_status :: string

text \<open>\<open>ends\<close> are the two ends of the connection, for a client that has one.\<close>

definition client_MarshalJSON :: "address \<times> address \<Rightarrow> client \<Rightarrow> client_json" where
  "client_MarshalJSON ends c =
     (let none = \<lparr>ad_Network = '''', ad_Address = ''''\<rparr> in
      \<lparr>cj_ConnectionLocalAddress = (if rc_conn c then fst ends else none),
       cj_ConnectionRemoteAddress = (if rc_conn c then snd ends else none),
       cj_RegionServerAddress = rc_addr c, cj_ClientType = serviceName (rc_ctype c),
       cj_InFlight = rc_inFlight c, cj_Id = rc_id c,
       cj_Done_status = (if rc_done c then ''Closed'' else ''Not Closed'')\<rparr>)"

section \<open>The client\<close>

record gohbase_json =
  gj_ClientType :: string
  gj_ClientRegionMap :: "string \<rightharpoonup> client_json"
  gj_RegionInfoMap :: "string \<rightharpoonup> region_json"
  gj_KeyRegionCache :: "bytes \<rightharpoonup> string"
  gj_ClientRegionCache :: "string \<rightharpoonup> string list"
  gj_MetaRegionInfo :: "region_json option"
  gj_AdminRegionInfo :: "region_json option"
  gj_Done_Status :: string
  gj_RegionLookupTimeout :: int
  gj_RegionReadTimeout :: int

text \<open>Where the pointers of a client lead: its region clients with the ends of their connections.\<close>

type_synonym client_objects = "nat \<Rightarrow> client \<times> address \<times> address"

text \<open>
  \<^verbatim>\<open>MarshalJSON\<close> of the client. A client of the master is made without a tree, and reading
  from the tree is a \<^verbatim>\<open>nil\<close> dereference. \<open>None\<close>: the walk through the tree does not end.
\<close>

definition gohbase_MarshalJSON ::
  "('t, 'e) tree_ops \<Rightarrow> (nat \<Rightarrow> string) \<Rightarrow> (nat \<Rightarrow> string) \<Rightarrow> client_objects \<Rightarrow> config \<Rightarrow> 't gclient
     \<Rightarrow> (unit, gohbase_json) outcome option" where
  "gohbase_MarshalJSON T fmt ctx objects cfg G =
     (let status = (case gc_done G of None \<Rightarrow> ''nil'' | Some True \<Rightarrow> ''Closed'' | Some False \<Rightarrow> ''Not Closed'');
          region = info_MarshalJSON fmt ctx (gc_heap G);
          json_region = (\<lambda>r. if r = nil_region then None else Some (region r))
      in case crc_debugInfo fmt (gc_clients G) Map.empty Map.empty Map.empty of (infos, clnts, clientRegionCacheValues) \<Rightarrow>
        if gc_clientType G = MasterClient then Some (Panic NilDereference)
        else (case krc_debugInfo T fmt (gc_regions G) infos of
          None \<Rightarrow> None
        | Some (infos', keyRegionCacheValues) \<Rightarrow>
            Some (Ok \<lparr>gj_ClientType = serviceName (gc_clientType G),
              gj_ClientRegionMap = (\<lambda>p. map_option (\<lambda>c. client_MarshalJSON (snd (objects (cl_ptr c))) (fst (objects (cl_ptr c)))) (clnts p)),
              gj_RegionInfoMap = (\<lambda>p. map_option region (infos' p)),
              gj_KeyRegionCache = keyRegionCacheValues, gj_ClientRegionCache = clientRegionCacheValues,
              gj_MetaRegionInfo = json_region (gc_metaRegionInfo G), gj_AdminRegionInfo = json_region (gc_adminRegionInfo G),
              gj_Done_Status = status,
              gj_RegionLookupTimeout = cfg_regionLookupTimeout cfg, gj_RegionReadTimeout = cfg_regionReadTimeout cfg\<rparr>)))"

section \<open>What the dump contains\<close>

text \<open>The walk over any tree is the walk over its entries.\<close>

context btree
begin

lemma debug_walk_refines: "debug_walk T fmt n e regions m = debug_walk list_tree fmt n (cur e) regions m"
proof (induction n arbitrary: e regions m)
  case (Suc n)
  have "cur_next (cur e) = (fst (tree_ops.enum_next T e), cur (snd (tree_ops.enum_next T e)))" by (simp add: next_eq)
  then show ?case using Suc by (auto simp: list_tree_sel fun_upd_def split: prod.split option.split)
qed simp

lemma krc_debugInfo_refines: "tinv t \<Longrightarrow> krc_debugInfo T fmt t regions = krc_debugInfo list_tree fmt (entries t) regions"
  using seek_first [of t] len [of t]
  by (auto simp: krc_debugInfo_def list_tree_sel debug_walk_refines simp del: debug_walk.simps split: option.splits if_splits)

end

text \<open>Filling a map in a loop.\<close>

definition fill :: "('x \<Rightarrow> 'k) \<Rightarrow> ('x \<Rightarrow> 'v) \<Rightarrow> 'x list \<Rightarrow> ('k \<rightharpoonup> 'v) \<Rightarrow> 'k \<rightharpoonup> 'v" where
  "fill f g xs m = fold (\<lambda>x m. m(f x \<mapsto> g x)) xs m"

lemma fill_Nil [simp]: "fill f g [] m = m" by (simp add: fill_def)
lemma fill_Cons [simp]: "fill f g (x # xs) m = fill f g xs (m(f x \<mapsto> g x))" by (simp add: fill_def)
lemma fill_append [simp]: "fill f g (xs @ ys) m = fill f g ys (fill f g xs m)" by (simp add: fill_def)

lemma fill_Some:
  assumes "fill f g xs m k = Some v"
  shows "(\<exists>x \<in> set xs. k = f x \<and> v = g x) \<or> k \<notin> f ` set xs \<and> m k = Some v"
  using assms
proof (induction xs arbitrary: m)
  case (Cons x xs)
  from Cons.IH [OF Cons.prems [unfolded fill_Cons]] show ?case by (auto split: if_splits)
qed simp

lemma fill_dom: "dom (fill f g xs m) = dom m \<union> f ` set xs"
  by (induction xs arbitrary: m) auto

lemma fill_eq:
  assumes "x \<in> set xs" "\<And>y. y \<in> set xs \<Longrightarrow> f y = f x \<Longrightarrow> g y = g x"
  shows "fill f g xs m (f x) = Some (g x)"
proof -
  have "f x \<in> dom (fill f g xs m)" using assms(1) by (simp add: fill_dom)
  then obtain v where v: "fill f g xs m (f x) = Some v" by blast
  from fill_Some [OF this] have "v = g x" using assms by (elim disjE bexE conjE) (metis, blast)
  then show ?thesis using v by simp
qed

lemma fill_map_of:
  assumes "distinct (map fst xs)"
  shows "fill fst (h \<circ> snd) xs Map.empty k = map_option h (map_of xs k)"
proof (cases "map_of xs k")
  case None
  then have "k \<notin> dom (fill fst (h \<circ> snd) xs Map.empty)" by (simp add: fill_dom map_of_eq_None_iff)
  then show ?thesis using None by (simp add: domIff)
next
  case (Some v)
  then have kv: "(k, v) \<in> set xs" by (rule map_of_SomeD)
  have "y = (k, v)" if "y \<in> set xs" "fst y = fst (k, v)" for y
    using that kv assms distinct_map_inj [of fst xs y "(k, v)"] by blast
  then have "fill fst (h \<circ> snd) xs Map.empty (fst (k, v)) = Some ((h \<circ> snd) (k, v))" by (intro fill_eq kv) simp
  then show ?thesis using Some by simp
qed

lemma crc_debugInfo_eq:
  "crc_debugInfo fmt rcc regions clnts m =
    (fill (fmt \<circ> ri_ptr) id (concat (map snd rcc)) regions, fill (fmt \<circ> cl_ptr \<circ> fst) fst rcc clnts,
     fill (fmt \<circ> cl_ptr \<circ> fst) (map (fmt \<circ> ri_ptr) \<circ> snd) rcc m)"
proof (induction rcc arbitrary: regions clnts m)
  case (Cons e rcc)
  have "fold (\<lambda>r regs. regs(fmt (ri_ptr r) \<mapsto> r)) rs regions = fill (fmt \<circ> ri_ptr) id rs regions" for rs
    by (simp add: fill_def)
  then show ?case using Cons by (cases e) (simp add: fun_upd_def comp_def id_def)
qed simp

lemma krc_debugInfo_eq:
  "krc_debugInfo list_tree fmt xs regions =
    Some (fill (fmt \<circ> ri_ptr \<circ> snd) snd xs regions, fill fst (fmt \<circ> ri_ptr \<circ> snd) xs Map.empty)"
  by (simp add: krc_debugInfo_list fill_def split_def)

lemma keys_ok_distinct: "keys_ok xs \<Longrightarrow> distinct (map fst xs)"
  by (induction xs) (auto simp: cmp_less_name_less name_less_def)

lemma fill_clients:
  assumes "crc_inv rcc" "inj fmt" "e \<in> set rcc"
  shows "fill (fmt \<circ> cl_ptr \<circ> fst) g rcc m (fmt (cl_ptr (fst e))) = Some (g e)"
proof -
  have "y = e" if "y \<in> set rcc" "(fmt \<circ> cl_ptr \<circ> fst) y = (fmt \<circ> cl_ptr \<circ> fst) e" for y
    using that assms distinct_map_inj [of "cl_ptr \<circ> fst" rcc y e] injD [OF assms(2)] by (simp add: crc_inv_def)
  then have "fill (fmt \<circ> cl_ptr \<circ> fst) g rcc m ((fmt \<circ> cl_ptr \<circ> fst) e) = Some (g e)"
    by (intro fill_eq assms(3)) blast
  then show ?thesis by simp
qed

text \<open>Every region that the client knows.\<close>

definition known_regions :: "('t \<Rightarrow> entry list) \<Rightarrow> 't gclient \<Rightarrow> region set" where
  "known_regions entries G = snd ` set (entries (gc_regions G)) \<union> \<Union> (set ` snd ` set (gc_clients G))"

text \<open>
  The dump of a client of regions lists exactly the entries of its two caches, and every pointer in it
  is resolved: the key cache is that of the tree, each region client appears once with its
  regions, the regions described are exactly those of the two caches, and each is described as it is. For a
  client of the master \<^verbatim>\<open>DebugState\<close> panics, since it has no tree.
\<close>

theorem debug_state_resolves:
  assumes "btree T tinv entries cur" "state_ok tinv entries G" "inj fmt"
  shows "(gc_clientType G = MasterClient \<longrightarrow> gohbase_MarshalJSON T fmt ctx objects cfg G = Some (Panic NilDereference)) \<and>
    (gc_clientType G \<noteq> MasterClient \<longrightarrow> (\<exists>S. gohbase_MarshalJSON T fmt ctx objects cfg G = Some (Ok S) \<and>
      (\<forall>k. gj_KeyRegionCache S k = map_option (fmt \<circ> ri_ptr) (map_of (entries (gc_regions G)) k)) \<and>
      (\<forall>(c, rs) \<in> set (gc_clients G). gj_ClientRegionCache S (fmt (cl_ptr c)) = Some (map (fmt \<circ> ri_ptr) rs) \<and>
        gj_ClientRegionMap S (fmt (cl_ptr c)) = Some (client_MarshalJSON (snd (objects (cl_ptr c))) (fst (objects (cl_ptr c))))) \<and>
      dom (gj_ClientRegionCache S) = (\<lambda>e. fmt (cl_ptr (fst e))) ` set (gc_clients G) \<and>
      dom (gj_RegionInfoMap S) = (fmt \<circ> ri_ptr) ` known_regions entries G \<and>
      (\<forall>p j. gj_RegionInfoMap S p = Some j \<longrightarrow>
        (\<exists>r \<in> known_regions entries G. p = fmt (ri_ptr r) \<and> j = info_MarshalJSON fmt ctx (gc_heap G) r))))"
proof (cases "gc_clientType G = MasterClient")
  case False
  let ?rcc = "gc_clients G" and ?xs = "entries (gc_regions G)"
  let ?infos = "fill (fmt \<circ> ri_ptr \<circ> snd) snd ?xs (fill (fmt \<circ> ri_ptr) id (concat (map snd ?rcc)) Map.empty)"
  have inv: "tinv (gc_regions G)" "crc_inv ?rcc" using assms(2) by (simp_all add: state_ok_def)
  have k: "fill fst (fmt \<circ> ri_ptr \<circ> snd) ?xs Map.empty k = map_option (fmt \<circ> ri_ptr) (map_of ?xs k)" for k
    using keys_ok_distinct [OF btree.keys [OF assms(1) inv(1)]] by (rule fill_map_of)
  note c = fill_clients [OF inv(2) assms(3)]
  have d: "dom ?infos = (fmt \<circ> ri_ptr) ` known_regions entries G"
    by (auto simp: fill_dom known_regions_def image_image)
  have r: "\<exists>r \<in> known_regions entries G. p = fmt (ri_ptr r) \<and> r = x" if "?infos p = Some x" for p x
  proof -
    have "(\<exists>e \<in> set ?xs. p = fmt (ri_ptr (snd e)) \<and> x = snd e) \<or> (\<exists>r \<in> set (concat (map snd ?rcc)). p = fmt (ri_ptr r) \<and> x = r)"
      using fill_Some [OF that] fill_Some [of "fmt \<circ> ri_ptr" id "concat (map snd ?rcc)" Map.empty p x] by auto
    then show ?thesis by (auto simp: known_regions_def)
  qed
  obtain S where S: "gohbase_MarshalJSON T fmt ctx objects cfg G = Some (Ok S)"
      "gj_KeyRegionCache S = fill fst (fmt \<circ> ri_ptr \<circ> snd) ?xs Map.empty"
      "gj_ClientRegionCache S = fill (fmt \<circ> cl_ptr \<circ> fst) (map (fmt \<circ> ri_ptr) \<circ> snd) ?rcc Map.empty"
      "gj_ClientRegionMap S = (\<lambda>p. map_option (\<lambda>c. client_MarshalJSON (snd (objects (cl_ptr c))) (fst (objects (cl_ptr c))))
        (fill (fmt \<circ> cl_ptr \<circ> fst) fst ?rcc Map.empty p))"
      "gj_RegionInfoMap S = (\<lambda>p. map_option (info_MarshalJSON fmt ctx (gc_heap G)) (?infos p))"
    using False by (simp add: gohbase_MarshalJSON_def crc_debugInfo_eq btree.krc_debugInfo_refines [OF assms(1) inv(1)] krc_debugInfo_eq Let_def)
  have "dom (gj_ClientRegionCache S) = (\<lambda>e. fmt (cl_ptr (fst e))) ` set ?rcc" by (simp add: S(3) fill_dom)
  moreover have "dom (gj_RegionInfoMap S) = (fmt \<circ> ri_ptr) ` known_regions entries G"
    using d by (auto simp: S(5) dom_def)
  moreover have "\<forall>p j. gj_RegionInfoMap S p = Some j \<longrightarrow>
      (\<exists>r \<in> known_regions entries G. p = fmt (ri_ptr r) \<and> j = info_MarshalJSON fmt ctx (gc_heap G) r)"
    using r unfolding S(5) by blast
  moreover have "\<forall>(c, rs) \<in> set ?rcc. gj_ClientRegionCache S (fmt (cl_ptr c)) = Some (map (fmt \<circ> ri_ptr) rs) \<and>
      gj_ClientRegionMap S (fmt (cl_ptr c)) = Some (client_MarshalJSON (snd (objects (cl_ptr c))) (fst (objects (cl_ptr c))))"
    using c [of _ fst] c [of _ "map (fmt \<circ> ri_ptr) \<circ> snd"] unfolding S(3,4) by fastforce
  ultimately show ?thesis using False S(1,2) k by simp
qed (simp add: gohbase_MarshalJSON_def crc_debugInfo_eq)

theorem debug_state_resolves_witness:
  "\<exists>S. gohbase_MarshalJSON list_tree (\<lambda>p. replicate p CHR ''x'') (\<lambda>p. []) (\<lambda>p. (sample_client, \<lparr>ad_Network = [], ad_Address = []\<rparr>, \<lparr>ad_Network = [], ad_Address = []\<rparr>))
      default_config sample_unavailable = Some (Ok S) \<and>
    (\<forall>k. gj_KeyRegionCache S k = map_option ((\<lambda>p. replicate p CHR ''x'') \<circ> ri_ptr) (map_of sample_cache k))"
proof -
  have i: "inj (\<lambda>p. replicate p CHR ''x'')" by (rule injI) (metis length_replicate)
  have "gc_clientType sample_unavailable \<noteq> MasterClient" "gc_regions sample_unavailable = sample_cache"
    by (simp_all add: sample_unavailable_def sample_gclient_def)
  with debug_state_resolves [OF list_btree.btree_axioms sample_state_ok i] show ?thesis
    by (metis (no_types, lifting) id_apply)
qed

end
