(* ===== verification/Tracing.thy ===== *)
theory Tracing
  imports Prelude "HOL-Library.AList"
begin

text \<open>
  Propagation of traces and observation of durations (\<^verbatim>\<open>src/internal/observability/observability.go\<close>).
  A \<^verbatim>\<open>RequestTracePropagator\<close> gives OpenTelemetry access to the headers in the field \<^verbatim>\<open>TraceInfo\<close>
  of a request header; spans, the tracer and the metrics themselves are other libraries'.
\<close>

section \<open>The carrier of a trace\<close>

text \<open>
  The header as the propagator sees it: \<^verbatim>\<open>TraceInfo\<close>, which may be \<^verbatim>\<open>nil\<close>, and in it the map
  \<^verbatim>\<open>Headers\<close>, which may be \<^verbatim>\<open>nil\<close> too. The header itself may be \<^verbatim>\<open>nil\<close>, the outer \<open>None\<close>.
\<close>

type_synonym trace_headers = "(string \<times> string) list"

record trace_header = TraceInfo :: "trace_headers option option"

type_synonym propagator = "trace_header option"

definition propagator_headers :: "propagator \<Rightarrow> trace_headers option" where
  "propagator_headers r = (case r of None \<Rightarrow> None | Some h \<Rightarrow> (case TraceInfo h of None \<Rightarrow> None | Some hs \<Rightarrow> hs))"

definition propagator_Get :: "propagator \<Rightarrow> string \<Rightarrow> string" where
  "propagator_Get r key =
     (case propagator_headers r of
        None \<Rightarrow> ''''
      | Some hs \<Rightarrow> (case map_of hs key of None \<Rightarrow> '''' | Some v \<Rightarrow> v))"

text \<open>Writing to a \<^verbatim>\<open>nil\<close> map panics.\<close>

definition propagator_Set :: "propagator \<Rightarrow> string \<Rightarrow> string \<Rightarrow> (unit, propagator) outcome" where
  "propagator_Set r key v =
     (case r of
        None \<Rightarrow> Ok None
      | Some h \<Rightarrow>
          (let h1 = (if TraceInfo h = None then h\<lparr>TraceInfo := Some (Some [])\<rparr> else h) in
           case TraceInfo h1 of
             Some (Some hs) \<Rightarrow> Ok (Some (h1\<lparr>TraceInfo := Some (Some (AList.update key v hs))\<rparr>))
           | _ \<Rightarrow> Panic (Explicit ''assignment to entry in nil map'')))"

definition propagator_Keys :: "propagator \<Rightarrow> string list" where
  "propagator_Keys r = (case propagator_headers r of None \<Rightarrow> [] | Some hs \<Rightarrow> map fst hs)"

section \<open>Observing a duration\<close>

text \<open>The span context of a call, and an observer, which may or may not support exemplars.\<close>

record span_context =
  IsSampled :: bool
  TraceID :: "string option"

datatype 'v observation = Observe 'v | ObserveWithExemplar 'v "(string \<times> string) list"

definition ObserveWithTrace :: "span_context \<Rightarrow> bool \<Rightarrow> 'v \<Rightarrow> 'v observation list \<Rightarrow> 'v observation list" where
  "ObserveWithTrace spanContext exemplarObserver v seen =
     (if IsSampled spanContext \<and> TraceID spanContext \<noteq> None \<and> exemplarObserver
      then seen @ [ObserveWithExemplar v [(''traceID'', the (TraceID spanContext))]]
      else seen @ [Observe v])"

section \<open>Properties\<close>

text \<open>
  What is set is read back, other keys keep their values, and the keys listed are those that were
  set, each once. \<^verbatim>\<open>Set\<close> panics exactly for a header whose \<^verbatim>\<open>TraceInfo\<close> has no map, which
  \<^verbatim>\<open>Get\<close> and \<^verbatim>\<open>Keys\<close> take for an empty one.
\<close>

theorem trace_carrier:
  "((\<exists>p. propagator_Set r key v = Panic p) \<longleftrightarrow> map_option TraceInfo r = Some (Some None)) \<and>
   (map_option TraceInfo r = Some (Some None) \<longrightarrow> propagator_Get r key = '''' \<and> propagator_Keys r = []) \<and>
   (\<forall>r'. r \<noteq> None \<and> propagator_Set r key v = Ok r' \<longrightarrow>
     propagator_Get r' key = v \<and> (\<forall>k. k \<noteq> key \<longrightarrow> propagator_Get r' k = propagator_Get r k) \<and>
     set (propagator_Keys r') = insert key (set (propagator_Keys r)) \<and>
     (distinct (propagator_Keys r) \<longrightarrow> distinct (propagator_Keys r')))"
proof (cases r)
  case (Some h)
  show ?thesis
  proof (cases "TraceInfo h")
    case (Some hs)
    have "fst ` set (AList.update key v xs) = insert key (fst ` set xs)" for xs by (simp add: dom_update)
    then show ?thesis using Some \<open>r = Some h\<close>
      by (cases hs, simp_all add: propagator_Set_def propagator_Get_def propagator_Keys_def propagator_headers_def
          update_conv' distinct_update Let_def, auto)
  qed (auto simp: \<open>r = Some h\<close> propagator_Set_def propagator_Get_def propagator_Keys_def propagator_headers_def Let_def)
qed (simp add: propagator_Set_def)

theorem trace_carrier_witness:
  "\<exists>r'. propagator_Set (Some \<lparr>TraceInfo = Some (Some [(''a'', ''1'')])\<rparr>) ''b'' ''2'' = Ok r' \<and>
    propagator_Get r' ''b'' = ''2'' \<and> propagator_Get r' ''a'' = ''1'' \<and> set (propagator_Keys r') = {''a'', ''b''}"
proof -
  let ?r = "Some \<lparr>TraceInfo = Some (Some [(''a'', ''1'')])\<rparr>"
  obtain r' where s: "propagator_Set ?r ''b'' ''2'' = Ok r'" by (simp add: propagator_Set_def)
  then have "propagator_Get r' ''b'' = ''2''" "propagator_Get r' ''a'' = propagator_Get ?r ''a''"
      "set (propagator_Keys r') = insert ''b'' (set (propagator_Keys ?r))"
    using trace_carrier [of ?r "''b''" "''2''"] by auto
  then show ?thesis using s by (auto simp: propagator_Get_def propagator_Keys_def propagator_headers_def)
qed

end
