(* ===== verification/Spec2Isabelle.thy ===== *)
theory Spec2Isabelle
  imports Buffers Call_Methods Batching In_Flight Exchange Client_Calls Debug_State Tracing
begin

text \<open>
  gohbase is a client library for HBase written in Go. An application calls the operations of
  \<^verbatim>\<open>Client\<close> and \<^verbatim>\<open>AdminClient\<close>; each makes a call object, finds the region that serves its row,
  hands the call to the client of that region's server, and waits for the result on the call's
  channel. This development models the library and proves the properties that make it correct.

  How the program's parts fit together. \<^verbatim>\<open>client.go\<close> and \<^verbatim>\<open>admin_client.go\<close> are the operations of an
  application. \<^verbatim>\<open>rpc.go\<close> finds the region of a call, first in the cache of regions (\<^verbatim>\<open>caches.go\<close>) and
  then in the table \<^verbatim>\<open>hbase:meta\<close>, whose own place ZooKeeper (\<^verbatim>\<open>zk/client.go\<close>) knows; it queues the
  call, looks at the error that comes back, and retries. A goroutine \<^verbatim>\<open>establishRegion\<close> for each
  region that became unavailable looks it up again, connects to its server and probes it, and then
  wakes the calls that wait for it. \<^verbatim>\<open>region/client.go\<close> is the connection to one server: goroutines
  send requests, one goroutine gathers calls into batches (\<^verbatim>\<open>region/multi.go\<close>), one reads responses.
  \<^verbatim>\<open>hrpc\<close> has the calls and their translation to protobuf messages and cell blocks, \<^verbatim>\<open>filter\<close> the
  filters of gets and scans, \<^verbatim>\<open>compression\<close> and \<^verbatim>\<open>region/compressor.go\<close> the compression of cell
  blocks, and \<^verbatim>\<open>scanner.go\<close> the scanner that reads a range of rows region by region.

  Conventions. A Go function that can fail gives an \<open>outcome\<close>: \<open>Ok\<close>, \<open>Err\<close> with the error, or \<open>Panic\<close>
  with the cause. Machine integers are words of their width. A slice is a list, with its capacity
  equal to its length, but in Buffers, where the capacity matters. A Go map is an association list with distinct keys, in the order in which an
  iteration happens to visit it. A pointer that is compared (a region, a call, a region client) is a
  number in its record. The mutable part of a region, with its channels, is in a store, \<open>region_heap\<close>.

  Concurrency and waiting. Where the order of the goroutines' steps matters the component is a step
  relation, and the properties hold in every reachable state: the availability of regions
  (\<open>region_step\<close> in Region_Info), the state of a client (\<open>client_step\<close> in Client_State), a region
  client (\<open>conn_step\<close> in In_Flight) and the batching goroutine (\<open>batch_run\<close> in Batching). The long
  functions of \<^verbatim>\<open>rpc.go\<close> are modelled as sequential code that gets as arguments what the outside does
  at each point where it blocks: what a server answers, whether a context ends, and a function for
  the actions of the other goroutines (the fields of \<open>lookup_try\<close>, \<open>find_try\<close>, \<open>turn\<close>, \<open>attempt\<close>, \<open>arrival\<close>,
  \<open>est_turn\<close>). A loop that may run forever consumes a list of such records, one for each turn, and
  gives \<open>None\<close> (\<open>EstWait\<close> in Establish) when the list ends: the code still waits. The list is the
  fuel, and every length is allowed. The number of tries of \<^verbatim>\<open>getRegionForRpc\<close> is the constant of the
  code, 10, and \<open>getRegionForRpc_returns\<close> shows that this list is long enough for an answer. The
  polling of procedures and snapshots in Gohbase is over such a list too. Other recursions are
  structural or over a decreasing measure, so that the functions are total.

  Parameters. Code outside the repository is an argument, with its documented behaviour as laws: the
  B+tree of \<^verbatim>\<open>modernc.org/b/v2\<close> (\<open>tree_ops\<close>, locale \<open>btree\<close>), the snappy library (locale \<open>codec\<close> over
  the codec interface of the repository), the protobuf runtime (\<open>proto_ops\<close>, locale \<open>protobuf\<close>; \<open>unmarshal\<close>), and the
  connection to ZooKeeper.

  Theories and the code they model, with what their lemmas show:

  \<^item> Prelude: Go's types and byte operations; the locale \<open>step_invariant\<close> for state machines.
  \<^item> Pb: the protobuf messages, as records.
  \<^item> Region_Info (\<^verbatim>\<open>region/info.go\<close>): \<open>NewInfo\<close>, \<open>ParseRegionInfo\<close>, \<open>Compare\<close>, \<open>MarkUnavailable\<close>,
    \<open>MarkAvailable\<close>, \<open>SetClient\<close>. \<open>Compare\<close>, a scan over bytes, is the lexicographic order of table, start
    key and id; a row of \<^verbatim>\<open>hbase:meta\<close> is parsed whatever the order of its cells; no wake-up of a
    waiting call is lost, and one caller only is told to re-establish a region.
  \<^item> Key_Region_Cache (\<^verbatim>\<open>caches.go\<close>, \<^verbatim>\<open>rpc.go\<close>): \<open>krc_get\<close>, \<open>krc_getOverlaps\<close>, \<open>krc_put\<close>, \<open>krc_del\<close> and
    \<open>cached_region\<close>, over any tree that obeys \<open>btree\<close>. The code with its seeks and cursors implements
    the abstract cache, a set of regions that do not overlap: lookups are exact, and \<open>krc_put\<close> replaces
    older regions and yields to younger ones and to a region that is cached already.
  \<^item> Client_Region_Cache (\<^verbatim>\<open>caches.go\<close>): \<open>crc_put\<close>, \<open>crc_del\<close>, \<open>crc_closeAll\<close>, \<open>crc_clientDown\<close>. One client
    for each address; the regions of a dead client are handed out once.
  \<^item> Cellblock (\<^verbatim>\<open>hrpc/call.go\<close>, \<^verbatim>\<open>hrpc/mutate.go\<close>): reading and writing of key-values. Round trips, and
    that exactly the encodings are accepted.
  \<^item> Calls, Queries, Mutation, Admin_Calls (\<^verbatim>\<open>hrpc\<close>): the calls, their options, constructors, requests
    and responses. What of a scan a request carries, in every case; the two forms of a mutation carry the same
    cells; a scan with any options is well-formed.
  \<^item> Compressor (\<^verbatim>\<open>region/compressor.go\<close>, \<^verbatim>\<open>compression\<close>): round trip for every codec, and that every
    truncation is refused. Buffers: the same functions on the slices of the buffer pool, with what
    earlier requests left in them; no such byte gets into a message.
  \<^item> Call_Methods (\<^verbatim>\<open>hrpc\<close>, \<^verbatim>\<open>region/multi.go\<close>): the methods of every call as tables, with the methods that a
    type takes from the one it embeds. The other theories dispatch as these tables do.
  \<^item> Region_Errors (\<^verbatim>\<open>region/client.go\<close>): the classes of errors and the Java exceptions.
  \<^item> Multi (\<^verbatim>\<open>region/multi.go\<close>): batches. Every live call of a batch is answered exactly once, with its
    own result; the layout of the request.
  \<^item> Region_Client (\<^verbatim>\<open>region/client.go\<close>, \<^verbatim>\<open>region/new.go\<close>): \<open>QueueRPC\<close>, \<open>trySend\<close>, \<open>send\<close>, \<open>receive\<close>,
    \<open>client_fail\<close>, \<open>client_Dial\<close>. Batching: \<open>processRPCs_step\<close>. In_Flight: the goroutines of a client, interleaved.
    Responses: a stream of responses. Wire: the frames that \<open>send\<close> writes, as a server reads them.
    Exchange: calls are sent, a server reads and answers them, and the answers are read.
    Every call is answered exactly once; a call gets the answer to its own request, in whatever order
    the answers come; a server reads from a frame what the client put into it; batching loses and repeats no call; and two races: a
    call that is never answered, and a read deadline that stays armed.
  \<^item> Scanner (\<^verbatim>\<open>scanner.go\<close>): \<open>Next\<close> with everything it calls, \<open>scanner_Close\<close>. The rows returned are those of the
    replies, with parts put together; every row of the range of a forward scan is read by exactly one of the
    scanners that its requests open.
  \<^item> Rpc (\<^verbatim>\<open>rpc.go\<close>): \<open>getRegionForRpc\<close>, \<open>getRegionAndClientForRPC\<close>, \<open>SendRPC\<close>, \<open>SendBatch\<close>, \<open>lookupRegion\<close>,
    \<open>findRegion\<close>, \<open>handleResultError\<close>, \<open>clientDown\<close>, the backoff. The region found serves the row; only
    final errors reach the application; a batch gives each call its own result.
  \<^item> Establish (\<^verbatim>\<open>rpc.go\<close>): \<open>establishRegion\<close>, \<open>reestablishRegion\<close>. When they return, the waiting calls have been woken, or
    the client is closed, which these calls notice themselves.
  \<^item> Row_Filters (\<^verbatim>\<open>filter/filter.go\<close>, \<^verbatim>\<open>filter/comparator.go\<close>): every filter and comparator. Different
    filters have different requests; exactly the invalid operators are rejected.
  \<^item> Zookeeper (\<^verbatim>\<open>zk/client.go\<close>): \<open>LocateResource\<close> returns the address that a well-formed znode names.
  \<^item> Gohbase (\<^verbatim>\<open>client.go\<close>, \<^verbatim>\<open>admin_client.go\<close>): \<open>newClient\<close> and the operations of both clients, over the
    locale \<open>rpc_client\<close>, whose instance is \<open>SendRPC\<close> of Rpc.
  \<^item> Client_State: what holds in every state of a client, and that the code of Rpc, Establish and
    Gohbase consists of the steps that keep it. For any tree that obeys \<open>btree\<close> the client is a
    \<open>step_invariant\<close>. Client_Calls: the same for \<open>SendRPC\<close> and \<open>SendBatch\<close>, the goroutines of an application.
  \<^item> Debug_State (\<^verbatim>\<open>client.go\<close>, \<^verbatim>\<open>region/info.go\<close>, \<^verbatim>\<open>region/client.go\<close>): what \<open>MarshalJSON\<close> collects. The dump of a
    client lists exactly the entries of its caches, and every pointer in it is resolved.
  \<^item> Tracing (\<^verbatim>\<open>internal/observability\<close>): the carrier of traces in a request header.

  Interfaces. \<open>btree\<close> is interpreted on lists sorted by \<^verbatim>\<open>Compare\<close>, \<open>codec\<close> on the snappy adapter with a
  concrete library, \<open>protobuf\<close> and \<open>protobuf_server\<close>, which extends it by a server that decodes headers, on a
  runtime with protobuf's varints, \<open>rpc_client\<close> on the model's own \<open>SendRPC\<close>, and \<open>step_invariant\<close> on the regions and,
  as a sublocale of \<open>btree\<close>, on the client.

  Findings. Where the code does what it does not mean to, a theorem shows it: a truncated key-value
  panics (\<open>cellFromCellBlock_panics\<close>), a family with a \<^verbatim>\<open>nil\<close> map panics
  (\<open>valuesToCellblocks_panics\<close>), the two races of In_Flight (\<open>close_loses_call\<close>, \<open>deadline_left_armed\<close>),
  tables in namespaces (\<open>namespace_table_mismatch\<close>), the descriptions of calls about snapshots
  (\<open>methods_dispatch\<close>), a trace carrier without a map (\<open>trace_carrier\<close>), rows that a reversed scan skips
  (\<open>row_before_exact\<close>), an invalid operator inside a filter list (\<open>request_filter_errors\<close>), and
  a client of the master that cannot be closed (\<open>admin_Close_panics\<close>) or dumped (\<open>debug_state_resolves\<close>).

  Not modelled. The generated messages of \<^verbatim>\<open>pb\<close>, beyond the fields the client uses. What only formats
  or observes: \<^verbatim>\<open>String\<close>, the text that \<^verbatim>\<open>encoding/json\<close> makes of a dump, logging, spans and metrics
  (\<^verbatim>\<open>prometheus.go\<close>, \<^verbatim>\<open>StartSpan\<close>). Accessors that return a field. That \<^verbatim>\<open>debugInfo\<close> gives up the lock between
  two entries of the tree. Go's memory model below the granularity of the steps. Mocks and tests.
\<close>

end
